(* ===== verification/NB_Prelude.thy ===== *)
theory NB_Prelude
  imports Main "HOL-Library.Word" "HOL-Library.Multiset"
begin

unbundle bit_operations_syntax

text \<open>
  The shared vocabulary of the development: the machine integers of the generated C code
  (\<open>u8\<close> to \<open>u64\<close>), the error values that stand for every undefined
  behaviour, failed assertion and abort of the sources, the error monad in which the operations
  are written, arrays with checked accesses, and byte buffers read and written as little-endian
  words. The lemmas on buffers are stated on single bits (\<open>buf_bit\<close>), so that the
  members of a packet, which need not start or end on a byte, can be separated from each other.
\<close>

section \<open>Machine integers and errors\<close>

type_synonym u8 = "8 word"
type_synonym u16 = "16 word"
type_synonym u32 = "32 word"
type_synonym u64 = "64 word"

text \<open>
  What can go wrong in the sources. \<open>Null_Deref\<close> and \<open>Bad_Pointer\<close> are
  accesses through a null or a freed pointer, \<open>Out_Of_Bounds\<close> an access outside an array
  or a buffer, \<open>Undefined_Shift\<close> a shift by the width of the type or more,
  \<open>Assert_Fail\<close> an \<open>assert\<close>, \<open>nb__assert\<close> or
  \<open>rt_assert\<close> that fails or a program that ends with a message,
  \<open>Signed_Overflow\<close> a result that is no \<open>int\<close>, \<open>Diverges\<close> a
  loop or recursion that does not end.
\<close>

datatype nb_error =
    Null_Deref
  | Bad_Pointer
  | Out_Of_Bounds
  | Undefined_Shift
  | Signed_Overflow
  | Diverges
  | Assert_Fail string

type_synonym 'a res = "nb_error + 'a"

named_theorems res_simps \<open>rewriting of the error monad\<close>
named_theorems buf_simps \<open>bits of buffers and words\<close>
named_theorems layout_simps \<open>offsets and sizes of packet members\<close>
named_theorems hook_defs \<open>definitions of the module hooks\<close>

section \<open>The error monad\<close>

definition bindE :: "'a res \<Rightarrow> ('a \<Rightarrow> 'b res) \<Rightarrow> 'b res" where
  "bindE r f = (case r of Inl e \<Rightarrow> Inl e | Inr x \<Rightarrow> f x)"

definition guardE :: "bool \<Rightarrow> nb_error \<Rightarrow> unit res" where
  "guardE b e = (if b then Inr () else Inl e)"

definition of_option :: "nb_error \<Rightarrow> 'a option \<Rightarrow> 'a res" where
  "of_option e x = (case x of None \<Rightarrow> Inl e | Some y \<Rightarrow> Inr y)"

lemma bindE_Inr [simp, res_simps]: "bindE (Inr x) f = f x"
  by (simp add: bindE_def)

lemma bindE_Inl [simp, res_simps]: "bindE (Inl e) f = Inl e"
  by (simp add: bindE_def)

lemma guardE_True [simp, res_simps]: "guardE True e = Inr ()"
  by (simp add: guardE_def)

lemma guardE_False [simp, res_simps]: "guardE False e = Inl e"
  by (simp add: guardE_def)

lemma of_option_simps [simp, res_simps]:
  "of_option e None = Inl e" "of_option e (Some y) = Inr y"
  by (simp_all add: of_option_def)

lemma bindE_eq_Inr: "bindE r f = Inr y \<longleftrightarrow> (\<exists>x. r = Inr x \<and> f x = Inr y)"
  by (cases r) auto

lemma bindE_eq_Inl: "bindE r f = Inl e \<longleftrightarrow> r = Inl e \<or> (\<exists>x. r = Inr x \<and> f x = Inl e)"
  by (cases r) auto

lemma guardE_eq_Inr: "guardE b e = Inr u \<longleftrightarrow> b"
  by (simp add: guardE_def)

lemma of_option_eq_Inr: "of_option e x = Inr y \<longleftrightarrow> x = Some y"
  by (cases x) auto

lemma bindE_assoc: "bindE (bindE r f) g = bindE r (\<lambda>x. bindE (f x) g)"
  by (cases r) auto

lemma bindE_cong [fundef_cong]:
  "r = r' \<Longrightarrow> (\<And>x. r' = Inr x \<Longrightarrow> f x = g x) \<Longrightarrow> bindE r f = bindE r' g"
  by (cases r') auto

lemmas resE = bindE_eq_Inr guardE_eq_Inr of_option_eq_Inr

text \<open>
  Partial correctness: \<open>okE Q r\<close> says that the result, if there is one, satisfies
  \<open>Q\<close>. The rules follow the syntax of a program, so that \<open>intro okE_rules\<close>
  reduces a statement about an operation to its primitive accesses.
\<close>

definition okE :: "('a \<Rightarrow> bool) \<Rightarrow> 'a res \<Rightarrow> bool" where
  "okE Q r \<longleftrightarrow> (\<forall>x. r = Inr x \<longrightarrow> Q x)"

named_theorems okE_rules \<open>partial correctness rules\<close>

lemma okE_Inr [okE_rules]: "Q x \<Longrightarrow> okE Q (Inr x)"
  by (simp add: okE_def)

lemma okE_Inl [okE_rules]: "okE Q (Inl e)"
  by (simp add: okE_def)

lemma okE_bind [okE_rules]: "okE (\<lambda>x. okE Q (f x)) r \<Longrightarrow> okE Q (bindE r f)"
  by (auto simp: okE_def bindE_eq_Inr)

lemma okE_if [okE_rules]: "(b \<Longrightarrow> okE Q r) \<Longrightarrow> (\<not> b \<Longrightarrow> okE Q r') \<Longrightarrow> okE Q (if b then r else r')"
  by simp

lemma okE_guard [okE_rules]: "(b \<Longrightarrow> Q ()) \<Longrightarrow> okE Q (guardE b e)"
  by (simp add: okE_def guardE_def)

lemma okE_of_option [okE_rules]: "(\<And>y. x = Some y \<Longrightarrow> Q y) \<Longrightarrow> okE Q (of_option e x)"
  by (simp add: okE_def of_option_eq_Inr)

lemma okE_prod [okE_rules]: "(\<And>a b. p = (a, b) \<Longrightarrow> okE Q (f a b)) \<Longrightarrow> okE Q (case p of (a, b) \<Rightarrow> f a b)"
  by (cases p) simp

lemma okE_any: "(\<And>x. Q x) \<Longrightarrow> okE Q r"
  by (simp add: okE_def)

lemma okE_weaken: "okE P r \<Longrightarrow> (\<And>x. P x \<Longrightarrow> Q x) \<Longrightarrow> okE Q r"
  by (simp add: okE_def)

lemma okED: "okE Q r \<Longrightarrow> r = Inr x \<Longrightarrow> Q x"
  by (simp add: okE_def)

text \<open>A loop over a list that collects results and stops at the first error.\<close>

fun mapE :: "('a \<Rightarrow> 'b res) \<Rightarrow> 'a list \<Rightarrow> 'b list res" where
  "mapE f [] = Inr []"
| "mapE f (x # xs) = bindE (f x) (\<lambda>y. bindE (mapE f xs) (\<lambda>ys. Inr (y # ys)))"

lemma mapE_cong [fundef_cong]:
  "xs = ys \<Longrightarrow> (\<And>x. x \<in> set ys \<Longrightarrow> f x = g x) \<Longrightarrow> mapE f xs = mapE g ys"
  by (induction ys arbitrary: xs) (auto intro!: bindE_cong)

lemma mapE_all_ok: "(\<And>x. x \<in> set xs \<Longrightarrow> f x = Inr (g x)) \<Longrightarrow> mapE f xs = Inr (map g xs)"
  by (induction xs) auto

text \<open>A loop over a list that threads a state and stops at the first error.\<close>

fun foldE :: "('s \<Rightarrow> 'a \<Rightarrow> 's res) \<Rightarrow> 's \<Rightarrow> 'a list \<Rightarrow> 's res" where
  "foldE f s [] = Inr s"
| "foldE f s (x # xs) = bindE (f s x) (\<lambda>s'. foldE f s' xs)"

lemma foldE_append: "foldE f s (xs @ ys) = bindE (foldE f s xs) (\<lambda>s'. foldE f s' ys)"
  by (induction xs arbitrary: s) (auto simp: bindE_assoc)

lemma ex_split_Cons:
  "(\<exists>pre x post. y # ys = pre @ x # post \<and> P pre x) \<longleftrightarrow>
     P [] y \<or> (\<exists>pre x post. ys = pre @ x # post \<and> P (y # pre) x)" (is "?L = ?R")
proof
  assume ?L
  then obtain pre x post where "y # ys = pre @ x # post" "P pre x" by blast
  then show ?R by (cases pre) auto
next
  assume ?R
  then show ?L
  proof (elim disjE exE conjE)
    assume "P [] y"
    then show ?L by (intro exI [of _ "[]"] exI [of _ y] exI [of _ ys]) simp
  next
    fix pre x post assume "ys = pre @ x # post" "P (y # pre) x"
    then show ?L by (intro exI [of _ "y # pre"] exI [of _ x] exI [of _ post]) simp
  qed
qed

section \<open>Arrays with checked accesses\<close>

text \<open>An element is replaced by the last one and the last place given up.\<close>

lemma mod_neq_near:
  assumes "j < n" "n < j + (m :: nat)"
  shows "j mod m \<noteq> n mod m"
proof
  assume "j mod m = n mod m"
  then have "m dvd n - j" using assms(1) by (simp add: mod_eq_dvd_iff_nat [symmetric])
  moreover have "0 < n - j" "n - j < m" using assms by auto
  ultimately show False by (simp add: nat_dvd_not_less)
qed

lemma mset_swap_remove:
  "i < length xs \<Longrightarrow> mset (butlast (xs[i := last xs])) = mset xs - {#xs ! i#}"
proof (cases xs rule: rev_cases)
  case (snoc ys y)
  then show "i < length xs \<Longrightarrow> ?thesis"
    by (cases "i < length ys") (auto simp: nth_append list_update_append mset_update less_Suc_eq)
qed simp

lemma distinct_swap_remove:
  assumes "distinct (map f xs)" "i < length xs" "mset ys = mset xs - {#xs ! i#}"
  shows "set ys = set xs - {xs ! i}" and "distinct (map f ys)"
proof -
  have "mset ys = mset (remove1 (xs ! i) xs)" using assms(3) by simp
  moreover have "distinct xs" using assms(1) by (simp add: distinct_map)
  ultimately show set: "set ys = set xs - {xs ! i}"
    by (metis mset_eq_setD set_remove1_eq)
  have "distinct ys"
    using \<open>mset ys = mset (remove1 (xs ! i) xs)\<close> \<open>distinct xs\<close> by (metis distinct_remove1 mset_eq_imp_distinct_iff)
  moreover have "inj_on f (set ys)"
    using assms(1) set by (auto simp: distinct_map inj_on_def)
  ultimately show "distinct (map f ys)" by (simp add: distinct_map)
qed


definition arr_get :: "'a list \<Rightarrow> nat \<Rightarrow> 'a res" where
  "arr_get xs i = (if i < length xs then Inr (xs ! i) else Inl Out_Of_Bounds)"

definition arr_set :: "'a list \<Rightarrow> nat \<Rightarrow> 'a \<Rightarrow> 'a list res" where
  "arr_set xs i v = (if i < length xs then Inr (xs[i := v]) else Inl Out_Of_Bounds)"

lemma arr_get_eq_Inr: "arr_get xs i = Inr v \<longleftrightarrow> i < length xs \<and> v = xs ! i"
  by (auto simp: arr_get_def)

lemma arr_set_eq_Inr: "arr_set xs i v = Inr ys \<longleftrightarrow> i < length xs \<and> ys = xs[i := v]"
  by (auto simp: arr_set_def)

lemma arr_get_ok [simp]: "i < length xs \<Longrightarrow> arr_get xs i = Inr (xs ! i)"
  by (simp add: arr_get_def)

lemma arr_set_ok [simp]: "i < length xs \<Longrightarrow> arr_set xs i v = Inr (xs[i := v])"
  by (simp add: arr_set_def)

section \<open>Byte buffers as little-endian words\<close>

lemma byte_offset_add:
  assumes "s mod 8 + k < (8::nat)"
  shows "(s + k) div 8 = s div 8" and "(s + k) mod 8 = s mod 8 + k"
proof -
  have "(s + k) mod 8 = (s mod 8 + k) mod 8"
    by (simp add: mod_add_left_eq)
  also have "\<dots> = s mod 8 + k"
    using assms by simp
  finally show m: "(s + k) mod 8 = s mod 8 + k" .
  have "8 * ((s + k) div 8) + (s mod 8 + k) = 8 * (s div 8) + (s mod 8 + k)"
    using m div_mult_mod_eq [of s 8] div_mult_mod_eq [of "s + k" 8] by linarith
  then show "(s + k) div 8 = s div 8"
    by simp
qed

text \<open>
  The generated code reads a member through a pointer of the member's type \<open>T\<close>, on a
  little-endian machine: \<open>le_word\<close> is the value of the bytes, \<open>word_le\<close> the bytes
  of a value.
\<close>

fun le_word :: "u8 list \<Rightarrow> u64" where
  "le_word [] = 0"
| "le_word (b # bs) = ucast b OR push_bit 8 (le_word bs)"

definition word_le :: "nat \<Rightarrow> u64 \<Rightarrow> u8 list" where
  "word_le n v = map (\<lambda>i. ucast (drop_bit (8 * i) v)) [0..<n]"

definition buf_read :: "nat \<Rightarrow> nat \<Rightarrow> u8 list \<Rightarrow> u64 res" where
  "buf_read n off buf =
     (if off + n \<le> length buf then Inr (le_word (take n (drop off buf))) else Inl Out_Of_Bounds)"

definition buf_write :: "nat \<Rightarrow> nat \<Rightarrow> u64 \<Rightarrow> u8 list \<Rightarrow> u8 list res" where
  "buf_write n off v buf =
     (if off + n \<le> length buf then Inr (take off buf @ word_le n v @ drop (off + n) buf)
      else Inl Out_Of_Bounds)"

definition buf_bit :: "u8 list \<Rightarrow> nat \<Rightarrow> bool" where
  "buf_bit buf j \<longleftrightarrow> j div 8 < length buf \<and> bit (buf ! (j div 8)) (j mod 8)"

lemma length_word_le [simp]: "length (word_le n v) = n"
  by (simp add: word_le_def)

lemma nth_word_le [simp]: "i < n \<Longrightarrow> word_le n v ! i = ucast (drop_bit (8 * i) v)"
  by (simp add: word_le_def)

lemma bit_le_word [buf_simps]: "bit (le_word bs) k \<longleftrightarrow> k < 64 \<and> buf_bit bs k"
proof (induction bs arbitrary: k)
  case Nil
  then show ?case by (simp add: buf_bit_def)
next
  case (Cons b bs)
  show ?case
  proof (cases "k < 8")
    case True
    then show ?thesis by (simp add: buf_bit_def bit_simps)
  next
    case False
    then have "k div 8 = Suc ((k - 8) div 8)" "k mod 8 = (k - 8) mod 8"
      by (simp_all add: le_div_geq le_mod_geq)
    moreover have "\<not> bit b k"
      using False by (auto dest: bit_imp_le_length)
    ultimately show ?thesis
      using False Cons.IH [of "k - 8"] by (auto simp: buf_bit_def bit_simps)
  qed
qed

lemma buf_bit_take_drop:
  "off + n \<le> length buf \<Longrightarrow>
   buf_bit (take n (drop off buf)) k \<longleftrightarrow> k < 8 * n \<and> buf_bit buf (8 * off + k)"
  by (auto simp: buf_bit_def div_less_iff_less_mult mult.commute)

lemma bit_buf_read:
  assumes "buf_read n off buf = Inr w" and "n \<le> 8"
  shows "bit w k \<longleftrightarrow> k < 8 * n \<and> buf_bit buf (8 * off + k)"
  using assms
  by (auto simp: buf_read_def bit_le_word buf_bit_take_drop split: if_splits)

lemma length_buf_write: "buf_write n off v buf = Inr buf' \<Longrightarrow> length buf' = length buf"
  by (auto simp: buf_write_def split: if_splits)

lemma nth_buf_write:
  assumes "buf_write n off v buf = Inr buf'" and "i < length buf"
  shows "buf' ! i = (if off \<le> i \<and> i < off + n then ucast (drop_bit (8 * (i - off)) v) else buf ! i)"
  using assms by (auto simp: buf_write_def nth_append split: if_splits)

lemma buf_bit_write:
  assumes w: "buf_write n off v buf = Inr buf'"
  shows "buf_bit buf' j \<longleftrightarrow>
    (if 8 * off \<le> j \<and> j < 8 * (off + n) then bit v (j - 8 * off) else buf_bit buf j)"
proof -
  have len: "off + n \<le> length buf" "length buf' = length buf"
    using w length_buf_write [OF w] by (auto simp: buf_write_def split: if_splits)
  have in_range: "off \<le> j div 8 \<and> j div 8 < off + n \<longleftrightarrow> 8 * off \<le> j \<and> j < 8 * (off + n)"
    by (auto simp: less_eq_div_iff_mult_less_eq div_less_iff_less_mult mult.commute)
  have shift: "8 * (j div 8 - off) + j mod 8 = j - 8 * off" if "off \<le> j div 8"
    using that by (simp add: diff_mult_distrib2 mult_div_mod_eq)
  show ?thesis
  proof (cases "off \<le> j div 8 \<and> j div 8 < off + n")
    case True
    with len have "j div 8 < length buf" by simp
    with True w len shift in_range show ?thesis
      by (auto simp: buf_bit_def nth_buf_write [OF w] bit_simps)
  next
    case False
    with w len in_range show ?thesis
      by (auto simp: buf_bit_def nth_buf_write [OF w])
  qed
qed

lemma buf_write_ok: "off + n \<le> length buf \<Longrightarrow> \<exists>buf'. buf_write n off v buf = Inr buf'"
  by (simp add: buf_write_def)

lemma buf_read_ok: "off + n \<le> length buf \<Longrightarrow> \<exists>w. buf_read n off buf = Inr w"
  by (simp add: buf_read_def)

lemma buf_read_err: "\<not> off + n \<le> length buf \<Longrightarrow> buf_read n off buf = Inl Out_Of_Bounds"
  by (simp add: buf_read_def)

lemma buf_write_err: "\<not> off + n \<le> length buf \<Longrightarrow> buf_write n off v buf = Inl Out_Of_Bounds"
  by (simp add: buf_write_def)

text \<open>Two buffers of one length are equal when all their bits are.\<close>

lemma buf_eqI:
  assumes len: "length b1 = length b2" and bits: "\<And>j. j < 8 * length b1 \<Longrightarrow> buf_bit b1 j = buf_bit b2 j"
  shows "b1 = b2"
proof (rule nth_equalityI [OF len])
  fix i assume i: "i < length b1"
  show "b1 ! i = b2 ! i"
  proof (rule bit_word_eqI)
    fix n :: nat assume n: "n < LENGTH(8)"
    with i have "8 * i + n < 8 * length b1" by simp
    from bits [OF this] i len n show "bit (b1 ! i) n = bit (b2 ! i) n"
      by (simp add: buf_bit_def)
  qed
qed

end
