(* ===== verification/Packet_Layout.thy ===== *)
theory Packet_Layout
  imports NB_Prelude
begin

text \<open>
  The programmable packet layout: \<open>dynamic_member\<close>, its subclasses
  \<open>generic_integer_member\<close> and \<open>byte_array_member\<close>, and
  \<open>dynamic_layout\<close> (\<open>include/core/packet.h\<close>,
  \<open>src/core/packet.cpp\<close>). Modules add members to numbered groups,
  \<open>fix_layout\<close> chains the members in group order, and a member's bit offset follows the
  chain of its predecessors. The lemmas show that, after \<open>fix_layout\<close>, every offset is
  defined, no two members overlap and aligned members start on a byte.
\<close>

section \<open>Members\<close>

text \<open>The integer type \<open>T\<close> of a \<open>generic_integer_member<T, BITS>\<close>.\<close>

record c_int_type =
  t_bytes :: nat
  t_signed :: bool

definition t_bits :: "c_int_type \<Rightarrow> nat" where
  "t_bits T = 8 * t_bytes T"

abbreviation unsigned_char :: c_int_type where "unsigned_char \<equiv> \<lparr>t_bytes = 1, t_signed = False\<rparr>"
abbreviation plain_char :: c_int_type where "plain_char \<equiv> \<lparr>t_bytes = 1, t_signed = True\<rparr>"
abbreviation unsigned_short :: c_int_type where "unsigned_short \<equiv> \<lparr>t_bytes = 2, t_signed = False\<rparr>"
abbreviation unsigned_int :: c_int_type where "unsigned_int \<equiv> \<lparr>t_bytes = 4, t_signed = False\<rparr>"
abbreviation signed_int :: c_int_type where "signed_int \<equiv> \<lparr>t_bytes = 4, t_signed = True\<rparr>"
abbreviation unsigned_long_long :: c_int_type where
  "unsigned_long_long \<equiv> \<lparr>t_bytes = 8, t_signed = False\<rparr>"

record generic_integer =
  gi_type :: c_int_type
  m_align :: nat
  m_bit_size :: nat
  m_range_base :: int

datatype member_kind = Generic_Integer generic_integer | Byte_Array nat

record dynamic_member =
  m_order :: nat
  m_prev :: "string option"
  m_flags :: nat
  m_kind :: member_kind

definition byte_size :: nat where "byte_size = 8"

definition align_to :: "nat \<Rightarrow> nat \<Rightarrow> nat" where
  "align_to v a = ((v + a - 1) div a) * a"

definition member_flags_aligned :: nat where "member_flags_aligned = 1"

text \<open>The constructors, with \<open>BITS\<close> as an argument.\<close>

definition generic_integer_member :: "c_int_type \<Rightarrow> nat \<Rightarrow> nat \<Rightarrow> dynamic_member" where
  "generic_integer_member T bits flags =
     \<lparr>m_order = 0, m_prev = None, m_flags = flags,
      m_kind = Generic_Integer \<lparr>gi_type = T, m_align = byte_size, m_bit_size = bits, m_range_base = 0\<rparr>\<rparr>"

definition byte_array_member :: "nat \<Rightarrow> nat \<Rightarrow> dynamic_member" where
  "byte_array_member N flags =
     \<lparr>m_order = 0, m_prev = None, m_flags = flags, m_kind = Byte_Array N\<rparr>"

text \<open>
  \<open>set_custom_range\<close>: the values are of type \<open>T\<close>, so the size of the range is
  reduced to \<open>T\<close>; the loop counts the bits of the largest offset. A negative \<open>r\<close> is
  shifted arithmetically and stays negative, so the loop does not end: \<open>None\<close>.
\<close>

definition to_T :: "c_int_type \<Rightarrow> int \<Rightarrow> int" where
  "to_T T v = (if t_signed T then signed_take_bit (t_bits T - 1) v else take_bit (t_bits T) v)"

partial_function (option) count_bits :: "int \<Rightarrow> nat \<Rightarrow> nat option" where [code]:
  "count_bits r n = (if r \<noteq> 0 then count_bits (drop_bit 1 r) (n + 1) else Some n)"

definition set_custom_range :: "int \<Rightarrow> int \<Rightarrow> generic_integer \<Rightarrow> generic_integer option res" where
  "set_custom_range range_base range_cap g =
     (let range_size = to_T (gi_type g) (to_T (gi_type g) range_cap - to_T (gi_type g) range_base) in
      bindE (guardE (range_size \<noteq> 0) (Assert_Fail ''Range should be non zero size'')) (\<lambda>_.
      Inr (map_option (\<lambda>n. g\<lparr>m_bit_size := n, m_range_base := to_T (gi_type g) range_base\<rparr>)
             (count_bits (to_T (gi_type g) (range_size - 1)) 0))))"

definition get_size :: "dynamic_member \<Rightarrow> nat" where
  "get_size m = (case m_kind m of Generic_Integer g \<Rightarrow> m_bit_size g | Byte_Array n \<Rightarrow> n * byte_size)"

definition member_align :: "dynamic_member \<Rightarrow> nat" where
  "member_align m = (case m_kind m of Generic_Integer g \<Rightarrow> m_align g | Byte_Array n \<Rightarrow> byte_size)"

section \<open>Layouts\<close>

record dynamic_layout =
  m_total_members :: nat
  m_registered_members :: "string list list"
  m_members_map :: "string \<Rightarrow> dynamic_member option"

definition empty_layout :: dynamic_layout where
  "empty_layout = \<lparr>m_total_members = 0, m_registered_members = [], m_members_map = Map.empty\<rparr>"

definition add_member :: "string \<Rightarrow> dynamic_member \<Rightarrow> nat \<Rightarrow> dynamic_layout \<Rightarrow> dynamic_layout" where
  "add_member name m grp L =
     (let m' = m\<lparr>m_order := m_total_members L\<rparr>;
          grown = m_registered_members L @ replicate (Suc grp - length (m_registered_members L)) []
      in L\<lparr>m_registered_members := grown[grp := grown ! grp @ [name]],
           m_members_map := (m_members_map L)(name \<mapsto> m'),
           m_total_members := m_total_members L + 1\<rparr>)"

text \<open>
  The two nested loops of \<open>fix_layout\<close> visit the names of all groups in order:
  \<open>last\<close> is the member visited before.
\<close>

fun fix_chain :: "string option \<Rightarrow> string list \<Rightarrow> (string \<Rightarrow> dynamic_member option) \<Rightarrow>
    (string \<Rightarrow> dynamic_member option)" where
  "fix_chain lst [] mm = mm"
| "fix_chain lst (n # ns) mm =
     fix_chain (Some n) ns (mm(n := map_option (\<lambda>m. m\<lparr>m_prev := lst\<rparr>) (mm n)))"

definition fix_layout :: "dynamic_layout \<Rightarrow> dynamic_layout" where
  "fix_layout L = L\<lparr>m_members_map := fix_chain None (concat (m_registered_members L)) (m_members_map L)\<rparr>"

text \<open>\<open>get_offset\<close> recurses over \<open>m_prev\<close>; a cyclic chain does not return.\<close>

definition place :: "dynamic_member \<Rightarrow> nat \<Rightarrow> nat" where
  "place m e = (if m_flags m AND member_flags_aligned \<noteq> 0 then align_to e (member_align m) else e)"

partial_function (option) get_offset :: "dynamic_layout \<Rightarrow> string \<Rightarrow> nat option" where [code]:
  "get_offset L name =
     Option.bind (m_members_map L name) (\<lambda>m.
       (case m_prev m of
          None \<Rightarrow> Some 0
        | Some q \<Rightarrow>
            Option.bind (m_members_map L q) (\<lambda>mq.
            Option.bind (get_offset L q) (\<lambda>off.
              Some (place m (off + get_size mq))))))"

definition layout_member :: "dynamic_layout \<Rightarrow> string \<Rightarrow> dynamic_member res" where
  "layout_member L name =
     of_option (Assert_Fail ''Requested member not found in layout'') (m_members_map L name)"

definition member_offset :: "dynamic_layout \<Rightarrow> string \<Rightarrow> nat res" where
  "member_offset L name = of_option Diverges (get_offset L name)"

definition get_addr :: "dynamic_layout \<Rightarrow> string \<Rightarrow> nat res" where
  "get_addr L name =
     bindE (layout_member L name) (\<lambda>m.
     bindE (member_offset L name) (\<lambda>off.
     bindE (guardE (off mod byte_size = 0)
              (Assert_Fail ''Cannot obtain address for non aligned members'')) (\<lambda>_.
     Inr (off div byte_size))))"

definition get_total_size :: "dynamic_layout \<Rightarrow> nat res" where
  "get_total_size L =
     bindE (guardE (m_registered_members L \<noteq> [] \<and> last (m_registered_members L) \<noteq> []) Out_Of_Bounds) (\<lambda>_.
     let name = last (last (m_registered_members L)) in
     bindE (of_option Null_Deref (m_members_map L name)) (\<lambda>m.
     bindE (member_offset L name) (\<lambda>off.
     Inr (align_to (off + get_size m) byte_size div byte_size))))"

definition group_start_offset :: "nat \<Rightarrow> dynamic_layout \<Rightarrow> nat res" where
  "group_start_offset i L =
     bindE (guardE (i < length (m_registered_members L) \<and> m_registered_members L ! i \<noteq> []) Out_Of_Bounds) (\<lambda>_.
     let name = hd (m_registered_members L ! i) in
     bindE (of_option Null_Deref (m_members_map L name)) (\<lambda>m.
     bindE (member_offset L name) (\<lambda>off. Inr (off div byte_size))))"

definition print_layout :: "dynamic_layout \<Rightarrow> (string \<times> nat \<times> nat) list list res" where
  "print_layout L =
     mapE (mapE (\<lambda>name.
       bindE (of_option Null_Deref (m_members_map L name)) (\<lambda>m.
       bindE (member_offset L name) (\<lambda>off.
       Inr (name, get_size m, off))))) (m_registered_members L)"

section \<open>The offsets of a fixed layout\<close>

text \<open>
  The reference: walk over the members in order, place each after the end of the one before.
\<close>

fun chain_offsets :: "(string \<Rightarrow> dynamic_member option) \<Rightarrow> nat \<Rightarrow> string list \<Rightarrow> nat list" where
  "chain_offsets mm e [] = []"
| "chain_offsets mm e (n # ns) =
     (let off = place (the (mm n)) e in off # chain_offsets mm (off + get_size (the (mm n))) ns)"

definition member_names :: "dynamic_layout \<Rightarrow> string list" where
  "member_names L = concat (m_registered_members L)"

definition wf_layout :: "dynamic_layout \<Rightarrow> bool" where
  "wf_layout L \<longleftrightarrow> distinct (member_names L) \<and> (\<forall>n \<in> set (member_names L). m_members_map L n \<noteq> None)"

lemma align_to_zero [simp, layout_simps]: "align_to 0 a = 0"
  by (cases a) (simp_all add: align_to_def)

lemma align_to_bounds:
  assumes "0 < a"
  shows "v \<le> align_to v a" and "align_to v a < v + a"
proof -
  have "align_to v a + (v + a - 1) mod a = v + a - 1"
    by (simp add: align_to_def)
  moreover have "(v + a - 1) mod a < a"
    using assms by simp
  ultimately show "v \<le> align_to v a" and "align_to v a < v + a"
    using assms by linarith+
qed

lemma align_to_dvd [simp]: "a dvd align_to v a"
  by (simp add: align_to_def)

text \<open>\<open>align_to v a\<close> is the least multiple of \<open>a\<close> that is not below \<open>v\<close>.\<close>

lemma align_to_least:
  assumes "0 < a" "a dvd w" "v \<le> w"
  shows "align_to v a \<le> w"
proof -
  from assms obtain k l where k: "w = a * k" "align_to v a = a * l"
    by (metis align_to_dvd dvdE)
  have "a * l < a * (k + 1)"
    using align_to_bounds(2) [OF assms(1), of v] assms(3) k by simp
  then have "l \<le> k"
    by (metis Suc_eq_plus1 less_Suc_eq_le mult_less_cancel1)
  then show ?thesis by (simp add: k)
qed

lemma align_to_fixed: "0 < a \<Longrightarrow> a dvd v \<Longrightarrow> align_to v a = v"
  by (simp add: align_to_bounds align_to_least eq_iff)

lemma fix_chain_notin: "n \<notin> set ns \<Longrightarrow> fix_chain lst ns mm n = mm n"
  by (induction ns arbitrary: lst mm) auto

lemma fix_chain_nth:
  "distinct ns \<Longrightarrow> i < length ns \<Longrightarrow>
   fix_chain lst ns mm (ns ! i) =
     map_option (\<lambda>m. m\<lparr>m_prev := (if i = 0 then lst else Some (ns ! (i - 1)))\<rparr>) (mm (ns ! i))"
proof (induction ns arbitrary: lst mm i)
  case Nil
  then show ?case by simp
next
  case (Cons n ns)
  then show ?case
    by (cases i) (auto simp: fix_chain_notin nth_Cons split: nat.split)
qed

lemma place_prev [simp]: "place (m\<lparr>m_prev := q\<rparr>) e = place m e"
  by (simp add: place_def member_align_def)

lemma place_zero [simp]: "place m 0 = 0"
  by (simp add: place_def)

lemma get_size_prev [simp]: "get_size (m\<lparr>m_prev := q\<rparr>) = get_size m"
  by (simp add: get_size_def)

lemma length_chain_offsets [simp]: "length (chain_offsets mm e ns) = length ns"
  by (induction ns arbitrary: e) (auto simp: Let_def)

lemma chain_offsets_Suc:
  "Suc i < length ns \<Longrightarrow>
   chain_offsets mm e ns ! Suc i =
     place (the (mm (ns ! Suc i))) (chain_offsets mm e ns ! i + get_size (the (mm (ns ! i))))"
proof (induction ns arbitrary: e i)
  case Nil
  then show ?case by simp
next
  case (Cons n ns)
  then show ?case by (cases i; cases ns) (auto simp: Let_def)
qed

lemma chain_offsets_0: "ns \<noteq> [] \<Longrightarrow> chain_offsets mm 0 ns ! 0 = 0"
  by (cases ns) (auto simp: Let_def)

lemma fix_layout_nth:
  assumes wf: "wf_layout L" and i: "i < length (member_names L)"
  obtains m where "m_members_map L (member_names L ! i) = Some m"
    and "m_members_map (fix_layout L) (member_names L ! i) =
      Some (m\<lparr>m_prev := (if i = 0 then None else Some (member_names L ! (i - 1)))\<rparr>)"
proof -
  from wf i obtain m where "m_members_map L (member_names L ! i) = Some m"
    unfolding wf_layout_def by (metis nth_mem option.exhaust)
  moreover from wf have "distinct (member_names L)"
    by (simp add: wf_layout_def)
  ultimately show thesis
    using that fix_chain_nth [of "member_names L" i None "m_members_map L"] i
    by (simp add: fix_layout_def member_names_def)
qed

lemma get_offset_chain:
  assumes wf: "wf_layout L" and i: "i < length (member_names L)"
  shows "get_offset (fix_layout L) (member_names L ! i) =
    Some (chain_offsets (m_members_map L) 0 (member_names L) ! i)"
  using i
proof (induction i)
  case 0
  from wf 0 obtain m where "m_members_map (fix_layout L) (member_names L ! 0) = Some (m\<lparr>m_prev := None\<rparr>)"
    by (rule fix_layout_nth) simp
  then show ?case
    using 0 by (subst get_offset.simps) (simp add: chain_offsets_0)
next
  case (Suc i)
  let ?ns = "member_names L" and ?mm = "m_members_map L"
  from wf Suc.prems obtain m where m: "?mm (?ns ! Suc i) = Some m"
      "m_members_map (fix_layout L) (?ns ! Suc i) = Some (m\<lparr>m_prev := Some (?ns ! i)\<rparr>)"
    by (rule fix_layout_nth) simp
  from wf Suc_lessD [OF Suc.prems] obtain m' q where m': "?mm (?ns ! i) = Some m'"
      "m_members_map (fix_layout L) (?ns ! i) = Some (m'\<lparr>m_prev := q\<rparr>)"
    by (rule fix_layout_nth) blast
  have IH: "get_offset (fix_layout L) (?ns ! i) = Some (chain_offsets ?mm 0 ?ns ! i)"
    using Suc by simp
  show ?case
    using Suc.prems m m' IH by (subst get_offset.simps) (simp add: chain_offsets_Suc)
qed

lemma fix_chain_kind: "map_option m_kind (fix_chain lst ns mm n) = map_option m_kind (mm n)"
  by (induction ns arbitrary: lst mm) (auto simp: option.map_comp o_def)

lemma fix_layout_kind:
  "map_option m_kind (m_members_map (fix_layout L) n) = map_option m_kind (m_members_map L n)"
  by (simp add: fix_layout_def fix_chain_kind)

lemma get_offset_names:
  "wf_layout L \<Longrightarrow> map (get_offset (fix_layout L)) (member_names L) =
     map Some (chain_offsets (m_members_map L) 0 (member_names L))"
  by (intro nth_equalityI) (auto simp: get_offset_chain)


lemma registered_fix_layout [simp]: "m_registered_members (fix_layout L) = m_registered_members L"
  by (simp add: fix_layout_def)

lemma fix_layout_member:
  assumes "m_members_map L n = Some m"
  obtains m' where "m_members_map (fix_layout L) n = Some m'" "m_kind m' = m_kind m" "get_size m' = get_size m"
  using fix_layout_kind [of L n] assms that by (auto simp: get_size_def)

lemma group_start_fix_layout:
  assumes "i < length (m_registered_members L)" "m_registered_members L ! i = n # ns"
    "m_members_map L n = Some m" "get_offset (fix_layout L) n = Some off"
  shows "group_start_offset i (fix_layout L) = Inr (off div 8)"
proof -
  obtain m' where "m_members_map (fix_layout L) n = Some m'"
    using assms(3) by (rule fix_layout_member)
  with assms(1,2,4) show ?thesis
    by (simp add: group_start_offset_def member_offset_def byte_size_def)
qed

lemma total_size_fix_layout:
  assumes "m_registered_members L = gs @ [ns @ [n]]"
    "m_members_map L n = Some m" "get_offset (fix_layout L) n = Some off"
  shows "get_total_size (fix_layout L) = Inr (align_to (off + get_size m) 8 div 8)"
proof -
  obtain m' where "m_members_map (fix_layout L) n = Some m'" "get_size m' = get_size m"
    using assms(2) by (rule fix_layout_member)
  with assms(1,3) show ?thesis
    by (simp add: get_total_size_def member_offset_def byte_size_def)
qed

definition aligned :: "dynamic_member \<Rightarrow> bool" where
  "aligned m \<longleftrightarrow> m_flags m AND member_flags_aligned \<noteq> 0"

definition wf_member :: "dynamic_member \<Rightarrow> bool" where
  "wf_member m \<longleftrightarrow> 0 < member_align m"

lemma place_ge: "wf_member m \<Longrightarrow> e \<le> place m e"
  by (simp add: place_def wf_member_def align_to_bounds)

lemma chain_offsets_separate:
  assumes wf: "\<And>n. n \<in> set ns \<Longrightarrow> wf_member (the (mm n))" and "i < j" "j < length ns"
  shows "chain_offsets mm e ns ! i + get_size (the (mm (ns ! i))) \<le> chain_offsets mm e ns ! j"
  using assms(2,3)
proof (induction j)
  case 0
  then show ?case by simp
next
  case (Suc j)
  have step: "chain_offsets mm e ns ! j + get_size (the (mm (ns ! j))) \<le> chain_offsets mm e ns ! Suc j"
    using Suc.prems wf by (simp add: chain_offsets_Suc place_ge)
  show ?case
  proof (cases "i = j")
    case True
    with step show ?thesis by simp
  next
    case False
    with Suc have "chain_offsets mm e ns ! i + get_size (the (mm (ns ! i))) \<le> chain_offsets mm e ns ! j"
      by simp
    with step show ?thesis by simp
  qed
qed

lemma chain_offsets_aligned:
  "i < length ns \<Longrightarrow> aligned (the (mm (ns ! i))) \<Longrightarrow>
   member_align (the (mm (ns ! i))) dvd chain_offsets mm e ns ! i"
  by (induction ns arbitrary: e i)
    (auto simp: Let_def nth_Cons aligned_def place_def split: nat.split)

section \<open>Custom ranges\<close>

text \<open>The loop of \<open>set_custom_range\<close> ends on every non-negative value, with its bit length.\<close>

lemma count_bits_nat:
  "\<exists>k. count_bits (int r) n = Some (n + k) \<and> int r < 2 ^ k \<and> 2 ^ k \<le> max 1 (2 * int r)"
proof (induction r arbitrary: n rule: less_induct)
  case (less r)
  show ?case
  proof (cases "r = 0")
    case True
    then show ?thesis by (subst count_bits.simps) (auto intro!: exI [of _ 0])
  next
    case False
    have shift: "drop_bit (Suc 0) (int r) = int (r div 2)"
      by (simp add: drop_bit_eq_div zdiv_int)
    from False obtain k where k: "count_bits (int (r div 2)) (Suc n) = Some (Suc n + k)"
        "int (r div 2) < 2 ^ k" "2 ^ k \<le> max 1 (2 * int (r div 2))"
      using less.IH [of "r div 2" "Suc n"] by auto
    have "count_bits (int r) n = Some (n + Suc k)"
      using False k(1) by (subst count_bits.simps) (simp add: shift)
    moreover have "int r \<le> 2 * int (r div 2) + 1"
      by (simp add: zdiv_int)
    then have "int r < 2 ^ Suc k"
      using k(2) unfolding power_Suc by linarith
    moreover have "max 1 (2 * int (r div 2)) \<le> int r"
      using False by (simp add: zdiv_int)
    then have "2 ^ Suc k \<le> max 1 (2 * int r)"
      using k(3) unfolding power_Suc by linarith
    ultimately show ?thesis by blast
  qed
qed

lemma to_T_id:
  assumes "0 \<le> v" "v < (if t_signed T then 2 ^ (t_bits T - 1) else 2 ^ t_bits T)"
  shows "to_T T v = v"
proof (cases "t_signed T")
  case True
  with assms show ?thesis
    by (simp add: to_T_def signed_take_bit_int_eq_self)
next
  case False
  with assms show ?thesis
    by (simp add: to_T_def take_bit_int_eq_self)
qed

text \<open>
  C7. After \<open>fix_layout\<close>, the offset of every registered member is defined (the recursion
  over \<open>m_prev\<close> ends), members appear in group order without overlap, and members that ask
  for alignment start at a multiple of their alignment.
\<close>

theorem layout_members_disjoint:
  assumes wf: "wf_layout L" and mem: "\<And>n m. m_members_map L n = Some m \<Longrightarrow> wf_member m"
    and ij: "i < j" "j < length (member_names L)"
    and mi: "m_members_map L (member_names L ! i) = Some mi"
    and mj: "m_members_map L (member_names L ! j) = Some mj"
  shows "\<exists>oi oj. get_offset (fix_layout L) (member_names L ! i) = Some oi \<and>
    get_offset (fix_layout L) (member_names L ! j) = Some oj \<and>
    oi + get_size mi \<le> oj \<and> (aligned mj \<longrightarrow> member_align mj dvd oj)"
proof -
  let ?ns = "member_names L" and ?mm = "m_members_map L"
  have wfm: "wf_member (the (?mm n))" if "n \<in> set ?ns" for n
    using wf mem that by (auto simp: wf_layout_def)
  have "chain_offsets ?mm 0 ?ns ! i + get_size (the (?mm (?ns ! i))) \<le> chain_offsets ?mm 0 ?ns ! j"
    using ij by (intro chain_offsets_separate wfm)
  moreover have "aligned mj \<Longrightarrow> member_align mj dvd chain_offsets ?mm 0 ?ns ! j"
    using chain_offsets_aligned [of j ?ns ?mm 0] ij mj by simp
  ultimately show ?thesis
    using get_offset_chain [OF wf] ij mi by simp
qed

text \<open>
  C22. \<open>set_custom_range\<close> ends on every range the type can hold, and the number of bits it
  chooses holds every value of the range and is the least such number.
\<close>

theorem set_custom_range_fits:
  assumes "0 \<le> range_base" "range_base < range_cap"
    and "range_cap < (if t_signed (gi_type g) then 2 ^ (t_bits (gi_type g) - 1) else 2 ^ t_bits (gi_type g))"
  shows "\<exists>g'. set_custom_range range_base range_cap g = Inr (Some g') \<and> m_range_base g' = range_base \<and>
    (\<forall>v. range_base \<le> v \<and> v < range_cap \<longrightarrow> v - range_base < 2 ^ m_bit_size g') \<and>
    2 ^ m_bit_size g' < 2 * (range_cap - range_base)"
proof -
  let ?T = "gi_type g"
  define r where "r = nat (range_cap - range_base - 1)"
  have r: "int r = range_cap - range_base - 1"
    using assms by (simp add: r_def)
  obtain k where k: "count_bits (int r) 0 = Some k" "int r < 2 ^ k" "2 ^ k \<le> max 1 (2 * int r)"
    using count_bits_nat [of r 0] by auto
  have id: "to_T ?T range_base = range_base" "to_T ?T range_cap = range_cap"
      "to_T ?T (range_cap - range_base) = range_cap - range_base" "to_T ?T (int r) = int r"
    using assms r by (auto intro!: to_T_id split: if_splits)
  have "set_custom_range range_base range_cap g = Inr (Some (g\<lparr>m_bit_size := k, m_range_base := range_base\<rparr>))"
    using assms k(1) id r by (simp add: set_custom_range_def Let_def guardE_def)
  then show ?thesis
    using k(2,3) r assms(2) by auto
qed

end
