(* ===== verification/Packet_Codec.thy ===== *)
theory Packet_Codec
  imports Packet_Layout
begin

unbundle bit_operations_syntax

text \<open>
  Reading and writing the integer members of a packet: \<open>get_value_mask\<close>,
  \<open>extract_bits_lower\<close>, \<open>extract_bits_upper\<close>, \<open>set_bits_lower\<close>,
  \<open>set_bits_upper\<close>, \<open>get_integer\<close> and \<open>set_integer\<close> of
  \<open>generic_integer_member\<close> (\<open>include/core/packet.h\<close>). A packet is a list of
  bytes; a member is given by its description and its bit offset.
\<close>

section \<open>The operations\<close>

definition get_value_mask :: "nat \<Rightarrow> u64 res" where
  "get_value_mask n_bits = (if n_bits < 64 then Inr (push_bit n_bits 1 - 1) else Inl Undefined_Shift)"

definition extract_bits_lower :: "nat \<Rightarrow> nat \<Rightarrow> u8 list \<Rightarrow> u8 res" where
  "extract_bits_lower bit_start bit_end base =
     bindE (guardE (bit_end - bit_start \<le> byte_size)
       (Assert_Fail ''Extract bits lower can extract atmost a single byte'')) (\<lambda>_.
     let byte_offset = bit_start div byte_size;
         num_bits = bit_end - bit_start;
         bit_shift = bit_start mod byte_size in
     bindE (arr_get base byte_offset) (\<lambda>b.
     let value = drop_bit bit_shift b in
     if bit_shift + num_bits \<noteq> byte_size
     then bindE (get_value_mask num_bits) (\<lambda>k. Inr (value AND ucast k))
     else Inr value))"

text \<open>A value of type \<open>T\<close> converted to \<open>unsigned long long\<close>.\<close>

definition T_to_ull :: "c_int_type \<Rightarrow> u64 \<Rightarrow> u64" where
  "T_to_ull T w = (if t_signed T then signed_take_bit (t_bits T - 1) w else w)"

definition extract_bits_upper :: "c_int_type \<Rightarrow> nat \<Rightarrow> nat \<Rightarrow> u8 list \<Rightarrow> u64 res" where
  "extract_bits_upper T bit_start bit_end base =
     bindE (guardE (bit_start mod byte_size = 0)
       (Assert_Fail ''Extract bits upper can only extract aligned bits'')) (\<lambda>_.
     let num_bits = bit_end - bit_start;
         byte_offset = bit_start div byte_size in
     bindE (buf_read (t_bytes T) byte_offset base) (\<lambda>w.
     if num_bits = t_bits T then Inr (T_to_ull T w)
     else bindE (get_value_mask num_bits) (\<lambda>k. Inr (T_to_ull T w AND k))))"

text \<open>
  In \<open>set_bits_lower\<close> the source has \<open>int num_bits = bit_end = bit_start;\<close>: the
  number of bits is the start of the member, not its width.
\<close>

definition set_bits_lower :: "nat \<Rightarrow> nat \<Rightarrow> u8 \<Rightarrow> u8 list \<Rightarrow> u8 list res" where
  "set_bits_lower bit_start bit_end val base =
     bindE (guardE (bit_end - bit_start \<le> byte_size)
       (Assert_Fail ''Set bits lower can set atmost a single byte'')) (\<lambda>_.
     let byte_offset = bit_start div byte_size;
         num_bits = bit_start;
         bit_shift = bit_start mod byte_size in
     bindE (get_value_mask num_bits) (\<lambda>k.
     bindE (arr_get base byte_offset) (\<lambda>b.
     let b1 = NOT (push_bit bit_shift (ucast k)) AND b in
     arr_set base byte_offset (b1 OR push_bit bit_shift val))))"

definition set_bits_upper :: "c_int_type \<Rightarrow> nat \<Rightarrow> nat \<Rightarrow> u64 \<Rightarrow> u8 list \<Rightarrow> u8 list res" where
  "set_bits_upper T bit_start bit_end val base =
     bindE (guardE (bit_start mod byte_size = 0)
       (Assert_Fail ''Set bits upper can only set aligned bits'')) (\<lambda>_.
     let byte_offset = bit_start div byte_size;
         num_bits = bit_end - bit_start in
     if num_bits = t_bits T then buf_write (t_bytes T) byte_offset val base
     else bindE (get_value_mask num_bits) (\<lambda>k.
       bindE (buf_read (t_bytes T) byte_offset base) (\<lambda>w.
       buf_write (t_bytes T) byte_offset ((w AND NOT k) OR val) base)))"

definition gi_get_integer :: "generic_integer \<Rightarrow> nat \<Rightarrow> u8 list \<Rightarrow> u64 res" where
  "gi_get_integer g bit_start base =
     (let T = gi_type g;
          bit_end = bit_start + m_bit_size g in
      bindE
        (if bit_start mod 8 \<noteq> 0 then
           let lbs = bit_start;
               lb = min (byte_size - lbs mod byte_size) (m_bit_size g);
               lbe = lbs + lb;
               ubs = lbe;
               ube = bit_end in
           if ube - ubs \<noteq> 0 then
             bindE (extract_bits_lower lbs lbe base) (\<lambda>l.
             bindE (extract_bits_upper T ubs ube base) (\<lambda>u.
             Inr (ucast l OR push_bit lb u)))
           else bindE (extract_bits_lower lbs lbe base) (\<lambda>l. Inr (ucast l))
         else extract_bits_upper T bit_start bit_end base)
        (\<lambda>value. if m_range_base g \<noteq> 0 then Inr (value + word_of_int (m_range_base g)) else Inr value))"

definition gi_set_integer :: "generic_integer \<Rightarrow> nat \<Rightarrow> u64 \<Rightarrow> u8 list \<Rightarrow> u8 list res" where
  "gi_set_integer g bit_start v base =
     (let T = gi_type g;
          val = (if m_range_base g \<noteq> 0 then v - word_of_int (m_range_base g) else v);
          bit_end = bit_start + m_bit_size g in
      if bit_start mod 8 \<noteq> 0 then
        let lbs = bit_start;
            lb = min (byte_size - lbs mod byte_size) (m_bit_size g);
            lbe = lbs + lb;
            ubs = lbe;
            ube = bit_end in
        bindE (get_value_mask lb) (\<lambda>k.
        bindE (set_bits_lower lbs lbe (ucast (val AND k)) base) (\<lambda>base.
        if ube - ubs \<noteq> 0 then set_bits_upper T ubs ube (drop_bit lb val) base else Inr base))
      else set_bits_upper T bit_start bit_end val base)"

text \<open>The virtual methods: a member that is no integer fails the assertion of the base class.\<close>

definition get_integer :: "dynamic_layout \<Rightarrow> string \<Rightarrow> u8 list \<Rightarrow> u64 res" where
  "get_integer L name base =
     bindE (layout_member L name) (\<lambda>m.
     case m_kind m of
       Generic_Integer g \<Rightarrow> bindE (member_offset L name) (\<lambda>off. gi_get_integer g off base)
     | Byte_Array n \<Rightarrow> Inl (Assert_Fail ''Get integer not implemented for dynamic member type''))"

definition set_integer :: "dynamic_layout \<Rightarrow> string \<Rightarrow> u64 \<Rightarrow> u8 list \<Rightarrow> u8 list res" where
  "set_integer L name v base =
     bindE (layout_member L name) (\<lambda>m.
     case m_kind m of
       Generic_Integer g \<Rightarrow> bindE (member_offset L name) (\<lambda>off. gi_set_integer g off v base)
     | Byte_Array n \<Rightarrow> Inl (Assert_Fail ''Set integer not implemented for dynamic member type''))"

section \<open>Bits of a member\<close>

definition wf_gi :: "generic_integer \<Rightarrow> bool" where
  "wf_gi g \<longleftrightarrow> 0 < t_bytes (gi_type g) \<and> t_bytes (gi_type g) \<le> 8 \<and> m_bit_size g \<le> t_bits (gi_type g)"

text \<open>The values a member can represent: its offset from the range base fits its bits.\<close>

definition fits :: "generic_integer \<Rightarrow> u64 \<Rightarrow> bool" where
  "fits g v \<longleftrightarrow>
     (let val = v - word_of_int (m_range_base g) in
      if m_bit_size g = t_bits (gi_type g)
      then T_to_ull (gi_type g) (take_bit (t_bits (gi_type g)) val) = val
      else take_bit (m_bit_size g) val = val)"

lemma get_value_mask_ok: "n < 64 \<Longrightarrow> get_value_mask n = Inr (mask n)"
  by (simp add: get_value_mask_def mask_eq_exp_minus_1)

lemma bit_T_to_ull:
  "k < t_bits T \<Longrightarrow> k < 64 \<Longrightarrow> bit (T_to_ull T w) k = bit w k"
  by (cases "k = t_bits T - 1") (auto simp: T_to_ull_def bit_signed_take_bit_iff min_def)

lemma word_eq_of_bits: "(\<And>k. k < 64 \<Longrightarrow> bit (w1 :: u64) k = bit w2 k) \<Longrightarrow> w1 = w2"
  by (rule bit_word_eqI) simp

lemma buf_read_cong:
  assumes len: "length b1 = length b2" and n: "n \<le> 8"
    and bits: "\<And>j. 8 * off \<le> j \<Longrightarrow> j < 8 * (off + n) \<Longrightarrow> buf_bit b1 j = buf_bit b2 j"
  shows "buf_read n off b1 = buf_read n off b2"
proof (cases "off + n \<le> length b1")
  case True
  with len obtain w1 w2 where w: "buf_read n off b1 = Inr w1" "buf_read n off b2 = Inr w2"
    using buf_read_ok by metis
  have "w1 = w2"
    using bit_buf_read [OF w(1) n] bit_buf_read [OF w(2) n] bits
    by (intro word_eq_of_bits) auto
  with w show ?thesis by simp
next
  case False
  with len show ?thesis by (simp add: buf_read_err)
qed

lemma extract_bits_upper_cong:
  assumes len: "length b1 = length b2" and T: "t_bytes T \<le> 8" and e: "e - s \<le> t_bits T"
    and bits: "\<And>j. s \<le> j \<Longrightarrow> j < e \<Longrightarrow> buf_bit b1 j = buf_bit b2 j"
  shows "extract_bits_upper T s e b1 = extract_bits_upper T s e b2"
proof (cases "s mod 8 = 0 \<and> s div 8 + t_bytes T \<le> length b1")
  case False
  with len show ?thesis
    by (auto simp: extract_bits_upper_def Let_def byte_size_def buf_read_err)
next
  case True
  then have s: "8 * (s div 8) = s" by auto
  from True len obtain w1 w2
    where w: "buf_read (t_bytes T) (s div 8) b1 = Inr w1" "buf_read (t_bytes T) (s div 8) b2 = Inr w2"
    using buf_read_ok by metis
  have eq: "bit w1 k = bit w2 k" if "k < e - s" for k
    using bit_buf_read [OF w(1) T] bit_buf_read [OF w(2) T] bits [of "s + k"] that s by auto
  show ?thesis
  proof (cases "e - s = t_bits T")
    case full: True
    have "w1 = w2"
      using bit_buf_read [OF w(1) T] bit_buf_read [OF w(2) T] eq full
      by (intro word_eq_of_bits) (auto simp: t_bits_def)
    with True w full show ?thesis
      by (simp add: extract_bits_upper_def Let_def byte_size_def)
  next
    case False
    with e T have lt: "e - s < 64" "e - s < t_bits T" by (auto simp: t_bits_def)
    have "T_to_ull T w1 AND mask (e - s) = T_to_ull T w2 AND mask (e - s)"
      using eq lt by (intro word_eq_of_bits) (auto simp: bit_simps bit_T_to_ull)
    with True w False lt show ?thesis
      by (simp add: extract_bits_upper_def Let_def byte_size_def get_value_mask_ok)
  qed
qed

lemma extract_bits_lower_cong:
  assumes len: "length b1 = length b2" and e: "s mod 8 + (e - s) \<le> 8"
    and bits: "\<And>j. s \<le> j \<Longrightarrow> j < e \<Longrightarrow> buf_bit b1 j = buf_bit b2 j"
  shows "extract_bits_lower s e b1 = extract_bits_lower s e b2"
proof (cases "s div 8 < length b1")
  case False
  with len show ?thesis
    by (simp add: extract_bits_lower_def Let_def byte_size_def arr_get_def)
next
  case True
  have eq: "bit (b1 ! (s div 8)) (s mod 8 + k) = bit (b2 ! (s div 8)) (s mod 8 + k)" if k: "k < e - s" for k
  proof -
    have "s mod 8 + k < 8"
      using e k by linarith
    then show ?thesis
      using bits [of "s + k"] k True len by (auto simp: buf_bit_def byte_offset_add)
  qed
  have "drop_bit (s mod 8) (b1 ! (s div 8)) AND mask (e - s) = drop_bit (s mod 8) (b2 ! (s div 8)) AND mask (e - s)"
    using eq by (intro bit_word_eqI) (auto simp: bit_simps)
  moreover have "drop_bit (s mod 8) (b1 ! (s div 8)) = drop_bit (s mod 8) (b2 ! (s div 8))"
    if "s mod 8 + (e - s) = 8"
  proof (rule bit_word_eqI)
    fix n :: nat
    have "n < e - s \<or> \<not> bit (b :: u8) (s mod 8 + n)" for b
      using that by (auto dest!: bit_imp_le_length)
    then show "bit (drop_bit (s mod 8) (b1 ! (s div 8))) n = bit (drop_bit (s mod 8) (b2 ! (s div 8))) n"
      using eq [of n] by (auto simp: bit_simps)
  qed
  moreover have "ucast (mask (e - s) :: u64) = (mask (e - s) :: u8)"
    using e by (intro bit_word_eqI) (auto simp: bit_simps)
  moreover have "e - s < 64"
    using e by simp
  ultimately show ?thesis
    using True len by (auto simp: extract_bits_lower_def Let_def byte_size_def get_value_mask_ok)
qed

text \<open>Reading a member depends on its own bits only, wherever it starts.\<close>

lemma gi_get_integer_cong:
  assumes len: "length b1 = length b2" and g: "wf_gi g"
    and bits: "\<And>j. off \<le> j \<Longrightarrow> j < off + m_bit_size g \<Longrightarrow> buf_bit b1 j = buf_bit b2 j"
  shows "gi_get_integer g off b1 = gi_get_integer g off b2"
proof -
  let ?n = "m_bit_size g" and ?T = "gi_type g"
  let ?lb = "min (8 - off mod 8) ?n"
  have upper: "extract_bits_upper ?T s (off + ?n) b1 = extract_bits_upper ?T s (off + ?n) b2"
    if "off \<le> s" for s
    using g len that by (intro extract_bits_upper_cong) (auto simp: wf_gi_def intro!: bits)
  have "off mod 8 + ?lb \<le> 8"
    by (cases "8 - off mod 8 \<le> ?n") (simp_all add: min_def)
  then have lower: "extract_bits_lower off (off + ?lb) b1 = extract_bits_lower off (off + ?lb) b2"
    using len by (intro extract_bits_lower_cong) (auto intro!: bits)
  show ?thesis
    by (simp only: gi_get_integer_def Let_def byte_size_def lower
        upper [of off, OF order.refl] upper [of "off + ?lb", OF le_add1])
qed

text \<open>
  Writing a byte-aligned member that the buffer holds: the member gets the bits of the value,
  every other bit of the buffer keeps its value.
\<close>

lemma gi_set_integer_aligned:
  assumes g: "wf_gi g" and al: "off mod 8 = 0" and room: "off div 8 + t_bytes (gi_type g) \<le> length buf"
    and v: "fits g v"
  obtains buf' where "gi_set_integer g off v buf = Inr buf'" and "length buf' = length buf"
    and "\<And>j. buf_bit buf' j =
      (if off \<le> j \<and> j < off + m_bit_size g then bit (v - word_of_int (m_range_base g)) (j - off)
       else buf_bit buf j)"
proof -
  let ?n = "m_bit_size g" and ?T = "gi_type g" and ?o = "off div 8"
  let ?val = "v - word_of_int (m_range_base g)"
  have off: "8 * ?o = off" using al by auto
  have val: "(if m_range_base g \<noteq> 0 then ?val else v) = ?val" by simp
  note set_defs = gi_set_integer_def set_bits_upper_def Let_def byte_size_def val
  obtain w where w: "buf_read (t_bytes ?T) ?o buf = Inr w"
    using buf_read_ok room by blast
  have T: "t_bytes ?T \<le> 8" using g by (simp add: wf_gi_def)
  define x where "x = (if ?n = t_bits ?T then ?val else (w AND NOT (mask ?n)) OR ?val)"
  obtain buf' where buf': "buf_write (t_bytes ?T) ?o x buf = Inr buf'"
    using buf_write_ok room by blast
  have set: "gi_set_integer g off v buf = Inr buf'"
  proof (cases "?n = t_bits ?T")
    case True
    with al buf' show ?thesis
      unfolding set_defs by (simp add: x_def)
  next
    case False
    with g have "?n < 64" by (simp add: wf_gi_def t_bits_def)
    with False al w buf' show ?thesis
      unfolding set_defs by (simp add: x_def get_value_mask_ok)
  qed
  have "buf_bit buf' j = (if off \<le> j \<and> j < off + ?n then bit ?val (j - off) else buf_bit buf j)" for j
  proof (cases "off \<le> j \<and> j < off + 8 * t_bytes ?T")
    case False
    with g have "\<not> (off \<le> j \<and> j < off + ?n)" by (auto simp: wf_gi_def t_bits_def)
    with False show ?thesis
      using buf_bit_write [OF buf', of j] off by (auto simp: distrib_left)
  next
    case True
    then have written: "buf_bit buf' j = bit x (j - off)"
      using buf_bit_write [OF buf', of j] off by (simp add: distrib_left)
    have old: "bit w (j - off) = buf_bit buf j"
      using True bit_buf_read [OF w T, of "j - off"] off by auto
    show ?thesis
    proof (cases "?n = t_bits ?T")
      case full: True
      with True written show ?thesis by (simp add: x_def t_bits_def)
    next
      case False
      with v have "take_bit ?n ?val = ?val" by (simp add: fits_def Let_def)
      then have "\<not> bit ?val k" if "?n \<le> k" for k
        using that by (metis bit_take_bit_iff not_less)
      with True False written old T show ?thesis
        by (auto simp: x_def bit_simps not_less)
    qed
  qed
  with set length_buf_write [OF buf'] show thesis
    by (rule that) 
qed

lemma gi_get_integer_of_bits:
  assumes g: "wf_gi g" and al: "off mod 8 = 0" and room: "off div 8 + t_bytes (gi_type g) \<le> length buf"
    and v: "fits g v"
    and bits: "\<And>j. off \<le> j \<Longrightarrow> j < off + m_bit_size g \<Longrightarrow>
      buf_bit buf j = bit (v - word_of_int (m_range_base g)) (j - off)"
  shows "gi_get_integer g off buf = Inr v"
proof -
  let ?n = "m_bit_size g" and ?T = "gi_type g" and ?o = "off div 8"
  let ?val = "v - word_of_int (m_range_base g)"
  have off: "8 * ?o = off" using al by auto
  have T: "t_bytes ?T \<le> 8" using g by (simp add: wf_gi_def)
  obtain w where w: "buf_read (t_bytes ?T) ?o buf = Inr w"
    using buf_read_ok room by blast
  have bw: "bit w k = bit ?val k" if "k < ?n" for k
    using bit_buf_read [OF w T, of k] bits [of "off + k"] that off g by (simp add: wf_gi_def t_bits_def)
  have "extract_bits_upper ?T off (off + ?n) buf = Inr ?val"
  proof (cases "?n = t_bits ?T")
    case True
    have "w = take_bit (t_bits ?T) ?val"
      using bw True bit_buf_read [OF w T] by (intro word_eq_of_bits) (auto simp: bit_simps t_bits_def)
    with True v al w show ?thesis
      by (simp add: extract_bits_upper_def Let_def byte_size_def fits_def)
  next
    case False
    with g have n: "?n < 64" "?n < t_bits ?T" by (auto simp: wf_gi_def t_bits_def)
    have "T_to_ull ?T w AND mask ?n = take_bit ?n ?val"
      using bw n by (intro word_eq_of_bits) (auto simp: bit_simps bit_T_to_ull)
    also have "\<dots> = ?val"
      using v False by (simp add: fits_def Let_def)
    finally show ?thesis
      using False al w n by (simp add: extract_bits_upper_def Let_def byte_size_def get_value_mask_ok)
  qed
  then show ?thesis
    using al by (simp add: gi_get_integer_def Let_def)
qed

section \<open>Round trip and separation\<close>

text \<open>
  C8. A byte-aligned integer member that the packet holds: after \<open>set_integer\<close> with a value
  the member can represent, \<open>get_integer\<close> returns that value, the packet keeps its length,
  and every member whose bits do not overlap reads as before.
\<close>

theorem set_get_integer:
  assumes g: "wf_gi g" and al: "off mod 8 = 0" and room: "off div 8 + t_bytes (gi_type g) \<le> length buf"
    and v: "fits g v"
  shows "\<exists>buf'. gi_set_integer g off v buf = Inr buf' \<and> length buf' = length buf \<and>
    gi_get_integer g off buf' = Inr v \<and>
    (\<forall>g2 off2. wf_gi g2 \<and> (off2 + m_bit_size g2 \<le> off \<or> off + m_bit_size g \<le> off2) \<longrightarrow>
       gi_get_integer g2 off2 buf' = gi_get_integer g2 off2 buf)"
proof -
  obtain buf' where b: "gi_set_integer g off v buf = Inr buf'" "length buf' = length buf"
    "\<And>j. buf_bit buf' j = (if off \<le> j \<and> j < off + m_bit_size g
       then bit (v - word_of_int (m_range_base g)) (j - off) else buf_bit buf j)"
    using gi_set_integer_aligned [OF assms] by blast
  have "gi_get_integer g off buf' = Inr v"
    using g al v room b(2,3) by (intro gi_get_integer_of_bits) auto
  moreover have "gi_get_integer g2 off2 buf' = gi_get_integer g2 off2 buf"
    if "wf_gi g2" "off2 + m_bit_size g2 \<le> off \<or> off + m_bit_size g \<le> off2" for g2 off2
    using that b(2,3) by (intro gi_get_integer_cong) auto
  ultimately show ?thesis
    using b(1,2) by blast
qed


text \<open>
  Between bit 9 and bit 63 the wrong width is a full byte: writing an unaligned member that ends
  inside its byte clears all the bits that follow it there, whichever member they belong to.
\<close>

theorem set_integer_clears_neighbour:
  assumes off: "8 < off" "off < 64" "off mod 8 \<noteq> 0" and fit: "off mod 8 + m_bit_size g < 8"
    and room: "off div 8 < length buf"
  shows "\<exists>buf'. gi_set_integer g off v buf = Inr buf' \<and>
    (\<forall>j. off + m_bit_size g \<le> j \<and> j < 8 * (off div 8 + 1) \<longrightarrow> \<not> buf_bit buf' j)"
proof -
  let ?n = "m_bit_size g" and ?i = "off div 8" and ?s = "off mod 8"
  define val where "val = v - word_of_int (m_range_base g)"
  have eq: "(if m_range_base g \<noteq> 0 then v - word_of_int (m_range_base g) else v) = val"
    by (simp add: val_def)
  have lb: "min (8 - ?s) ?n = ?n" using fit by simp
  define b' where "b' = NOT (push_bit ?s (ucast (mask off :: u64) :: u8)) AND buf ! ?i OR
    push_bit ?s (ucast (val AND mask ?n))"
  have set: "gi_set_integer g off v buf = Inr (buf[?i := b'])"
    unfolding gi_set_integer_def Let_def byte_size_def eq lb
    using off fit room
    by (simp add: get_value_mask_ok set_bits_lower_def Let_def byte_size_def b'_def)
  have "\<not> buf_bit (buf[?i := b']) j" if j: "off + ?n \<le> j" "j < 8 * (?i + 1)" for j
  proof -
    have idx: "j div 8 = ?i"
      using j by (intro div_nat_eqI) auto
    have "8 * ?i + ?s = off" "8 * ?i + j mod 8 = j"
      using idx by (metis mult_div_mod_eq)+
    then have "?s + ?n \<le> j mod 8"
      using j(1) by linarith
    then have "\<not> bit b' (j mod 8)"
      using off(1) by (auto simp: b'_def bit_simps)
    with idx room show ?thesis
      by (simp add: buf_bit_def)
  qed
  with set show ?thesis by blast
qed

section \<open>The interface to the modules: a store of named fields\<close>

text \<open>
  The modules use a packet only through the names of its members. What they rely on is the
  contract of \<open>field_store\<close>: a field that is written with a value it can represent reads
  back as that value and the other fields are untouched.
\<close>

fun put_all :: "('n \<Rightarrow> 'v \<Rightarrow> 'b \<Rightarrow> 'b res) \<Rightarrow> ('n \<times> 'v) list \<Rightarrow> 'b \<Rightarrow> 'b res" where
  "put_all put [] b = Inr b"
| "put_all put ((n, v) # nvs) b = bindE (put n v b) (put_all put nvs)"

locale field_store =
  fixes valid :: "'b \<Rightarrow> bool" and field :: "'n \<Rightarrow> bool" and rep :: "'n \<Rightarrow> 'v \<Rightarrow> bool"
    and get :: "'n \<Rightarrow> 'b \<Rightarrow> 'v res" and put :: "'n \<Rightarrow> 'v \<Rightarrow> 'b \<Rightarrow> 'b res"
  assumes put_ok: "valid b \<Longrightarrow> field n \<Longrightarrow> rep n v \<Longrightarrow> \<exists>b'. put n v b = Inr b'"
    and put_valid: "valid b \<Longrightarrow> field n \<Longrightarrow> rep n v \<Longrightarrow> put n v b = Inr b' \<Longrightarrow> valid b'"
    and get_ok: "valid b \<Longrightarrow> field n \<Longrightarrow> \<exists>v. get n b = Inr v"
    and get_put: "valid b \<Longrightarrow> field n \<Longrightarrow> rep n v \<Longrightarrow> put n v b = Inr b' \<Longrightarrow> get n b' = Inr v"
    and get_put_other: "valid b \<Longrightarrow> field n \<Longrightarrow> rep n v \<Longrightarrow> put n v b = Inr b' \<Longrightarrow>
      field n' \<Longrightarrow> n' \<noteq> n \<Longrightarrow> get n' b' = get n' b"
begin

lemma put_cases:
  assumes "valid b" "field n" "rep n v"
  obtains b' where "put n v b = Inr b'" "valid b'" "get n b' = Inr v"
    "\<And>n'. field n' \<Longrightarrow> n' \<noteq> n \<Longrightarrow> get n' b' = get n' b"
  using assms put_ok put_valid get_put get_put_other by metis

lemma put_all_cases:
  assumes "valid b" "\<And>n v. (n, v) \<in> set nvs \<Longrightarrow> field n \<and> rep n v" "distinct (map fst nvs)"
  shows "\<exists>b'. put_all put nvs b = Inr b' \<and> valid b' \<and> (\<forall>(n, v) \<in> set nvs. get n b' = Inr v) \<and>
    (\<forall>n. field n \<and> n \<notin> fst ` set nvs \<longrightarrow> get n b' = get n b)"
  using assms
proof (induction nvs arbitrary: b)
  case Nil
  then show ?case by simp
next
  case (Cons nv nvs)
  obtain n v where nv: "nv = (n, v)" by (cases nv)
  with Cons.prems have "valid b" "field n" "rep n v" by auto
  then obtain b1 where b1: "put n v b = Inr b1" "valid b1" "get n b1 = Inr v"
    "\<And>n'. field n' \<Longrightarrow> n' \<noteq> n \<Longrightarrow> get n' b1 = get n' b"
    using put_cases by metis
  have "\<exists>b'. put_all put nvs b1 = Inr b' \<and> valid b' \<and> (\<forall>(n, v) \<in> set nvs. get n b' = Inr v) \<and>
    (\<forall>n. field n \<and> n \<notin> fst ` set nvs \<longrightarrow> get n b' = get n b1)"
    using Cons.prems b1(2) by (intro Cons.IH) auto
  then obtain b' where b': "put_all put nvs b1 = Inr b'" "valid b'"
    "\<forall>(n, v) \<in> set nvs. get n b' = Inr v" "\<forall>n. field n \<and> n \<notin> fst ` set nvs \<longrightarrow> get n b' = get n b1"
    by blast
  have "get n b' = Inr v"
    using b'(4) b1(3) \<open>field n\<close> Cons.prems(3) nv by simp
  with b1 b' nv show ?case by auto
qed

end

text \<open>
  Layouts in which every member is an integer that starts on a byte and lies inside packets of
  \<open>N\<close> bytes, without overlaps, provide the contract.
\<close>

definition byte_member :: "dynamic_layout \<Rightarrow> nat \<Rightarrow> string \<Rightarrow> bool" where
  "byte_member L N n \<longleftrightarrow>
     (case (m_members_map L n, get_offset L n) of
        (Some m, Some off) \<Rightarrow>
          (case m_kind m of
             Generic_Integer g \<Rightarrow> wf_gi g \<and> off mod 8 = 0 \<and> off div 8 + t_bytes (gi_type g) \<le> N
           | Byte_Array k \<Rightarrow> False)
      | _ \<Rightarrow> False)"

definition members_apart :: "dynamic_layout \<Rightarrow> string \<Rightarrow> string \<Rightarrow> bool" where
  "members_apart L n1 n2 \<longleftrightarrow>
     (case (m_members_map L n1, get_offset L n1, m_members_map L n2, get_offset L n2) of
        (Some m1, Some o1, Some m2, Some o2) \<Rightarrow> o1 + get_size m1 \<le> o2 \<or> o2 + get_size m2 \<le> o1
      | _ \<Rightarrow> False)"

definition member_rep :: "dynamic_layout \<Rightarrow> string \<Rightarrow> u64 \<Rightarrow> bool" where
  "member_rep L n v \<longleftrightarrow>
     (case m_members_map L n of
        Some m \<Rightarrow> (case m_kind m of Generic_Integer g \<Rightarrow> fits g v | Byte_Array k \<Rightarrow> False)
      | None \<Rightarrow> False)"

text \<open>The members of a fixed layout are apart from each other.\<close>

lemma fix_layout_apart:
  assumes wf: "wf_layout L" and mem: "\<And>n m. m_members_map L n = Some m \<Longrightarrow> wf_member m"
    and n: "n1 \<in> set (member_names L)" "n2 \<in> set (member_names L)" "n1 \<noteq> n2"
  shows "members_apart (fix_layout L) n1 n2"
proof -
  let ?ns = "member_names L" and ?offs = "chain_offsets (m_members_map L) 0 (member_names L)"
  have wfm: "wf_member (the (m_members_map L n))" if "n \<in> set ?ns" for n
    using wf mem that by (auto simp: wf_layout_def)
  obtain i j where ij: "i < length ?ns" "j < length ?ns" "n1 = ?ns ! i" "n2 = ?ns ! j" "i \<noteq> j"
    using n by (metis in_set_conv_nth)
  have "m_members_map L n1 \<noteq> None" "m_members_map L n2 \<noteq> None"
    using wf n by (auto simp: wf_layout_def)
  then obtain m1 m2 where m: "m_members_map L n1 = Some m1" "m_members_map L n2 = Some m2"
    by auto
  obtain m1' m2' where m': "m_members_map (fix_layout L) n1 = Some m1'" "get_size m1' = get_size m1"
    "m_members_map (fix_layout L) n2 = Some m2'" "get_size m2' = get_size m2"
    using fix_layout_member [OF m(1)] fix_layout_member [OF m(2)] by metis
  have sep: "?offs ! k + get_size (the (m_members_map L (?ns ! k))) \<le> ?offs ! l"
    if "k < l" "l < length ?ns" for k l
    using that by (intro chain_offsets_separate wfm)
  show ?thesis
    using sep [of i j] sep [of j i] ij m m' get_offset_chain [OF wf, of i] get_offset_chain [OF wf, of j]
    by (cases "i < j") (auto simp: members_apart_def)
qed

lemma byte_memberE:
  assumes "byte_member L N n"
  obtains m g off where "m_members_map L n = Some m" "m_kind m = Generic_Integer g" "get_offset L n = Some off"
    "wf_gi g" "off mod 8 = 0" "off div 8 + t_bytes (gi_type g) \<le> N"
    "set_integer L n = gi_set_integer g off" "get_integer L n = gi_get_integer g off"
  using assms
  by (auto simp: byte_member_def set_integer_def get_integer_def layout_member_def member_offset_def
      fun_eq_iff split: option.splits member_kind.splits)

lemma byte_member_get: "byte_member L N n \<Longrightarrow> N \<le> length b \<Longrightarrow> \<exists>v. get_integer L n b = Inr v"
  by (erule byte_memberE)
    (auto simp: gi_get_integer_def extract_bits_upper_def Let_def byte_size_def buf_read_def
      get_value_mask_def wf_gi_def t_bits_def)

locale byte_layout =
  fixes L :: dynamic_layout and N :: nat and names :: "string list"
  assumes members: "n \<in> set names \<Longrightarrow> byte_member L N n"
    and apart: "n1 \<in> set names \<Longrightarrow> n2 \<in> set names \<Longrightarrow> n1 \<noteq> n2 \<Longrightarrow> members_apart L n1 n2"
begin

lemma set_member:
  assumes "N \<le> length b" "n \<in> set names" "member_rep L n v"
  shows "\<exists>b'. set_integer L n v b = Inr b' \<and> length b' = length b \<and> get_integer L n b' = Inr v \<and>
    (\<forall>n'. n' \<in> set names \<and> n' \<noteq> n \<longrightarrow> get_integer L n' b' = get_integer L n' b)"
proof -
  obtain m g off where n: "m_members_map L n = Some m"
    "m_kind m = Generic_Integer g" "get_offset L n = Some off" "wf_gi g" "off mod 8 = 0"
    "off div 8 + t_bytes (gi_type g) \<le> N"
    "set_integer L n = gi_set_integer g off" "get_integer L n = gi_get_integer g off"
    using members [OF assms(2)] by (rule byte_memberE)
  have v: "fits g v" using assms(3) n by (simp add: member_rep_def)
  have room: "off div 8 + t_bytes (gi_type g) \<le> length b"
    using n(6) assms(1) by simp
  obtain b' where b': "gi_set_integer g off v b = Inr b'" "length b' = length b"
    "\<And>j. buf_bit b' j = (if off \<le> j \<and> j < off + m_bit_size g
       then bit (v - word_of_int (m_range_base g)) (j - off) else buf_bit b j)"
    using gi_set_integer_aligned [OF n(4,5) room v] by blast
  have "gi_get_integer g off b' = Inr v"
    using n(4,5) room v b'(2,3) by (intro gi_get_integer_of_bits) auto
  moreover have "get_integer L n' b' = get_integer L n' b" if n': "n' \<in> set names" "n' \<noteq> n" for n'
  proof -
    from members [OF n'(1)] obtain m' g' off' where m': "m_members_map L n' = Some m'"
      "m_kind m' = Generic_Integer g'" "get_offset L n' = Some off'" "wf_gi g'"
      "get_integer L n' = gi_get_integer g' off'"
      by (rule byte_memberE) blast
    have "off' + m_bit_size g' \<le> off \<or> off + m_bit_size g \<le> off'"
      using apart [OF n'(1) assms(2) n'(2)] n m' by (simp add: members_apart_def get_size_def)
    then show ?thesis
      unfolding m'(5) using m'(4) b' by (intro gi_get_integer_cong) auto
  qed
  ultimately show ?thesis
    using b' n by auto
qed

lemma get_member: "N \<le> length b \<Longrightarrow> n \<in> set names \<Longrightarrow> \<exists>v. get_integer L n b = Inr v"
  by (rule byte_member_get [OF members])

end

sublocale byte_layout \<subseteq> fs: field_store "\<lambda>b. N \<le> length b" "\<lambda>n. n \<in> set names" "member_rep L"
  "get_integer L" "set_integer L"
  using set_member get_member by unfold_locales (metis sum.inject(2))+

end
