(* ===== verification/Framework.thy ===== *)
theory Framework
  imports Packet_Codec
begin

text \<open>
  The module framework (\<open>include/core/module.h\<close>, \<open>include/core/framework.h\<close>,
  \<open>src/core/framework.cpp\<close>): compatibility levels, registration of modules, the paths that
  run one hook of every module until a module drops, and the scheduling of paths by dependencies
  (\<open>finalize_paths\<close>). A hook is a function from the state to a status and a new state, or
  an error; the framework does not depend on which modules there are.
\<close>

section \<open>Compatibility levels\<close>

datatype compat_level_t = NO_COMPAT | ETH_COMPAT | IP_COMPAT | UDP_COMPAT | TCP_COMPAT

definition isEthCompat :: "compat_level_t \<Rightarrow> bool" where
  "isEthCompat l \<longleftrightarrow> l = ETH_COMPAT \<or> l = IP_COMPAT \<or> l = UDP_COMPAT \<or> l = TCP_COMPAT"

definition isIPCompat :: "compat_level_t \<Rightarrow> bool" where
  "isIPCompat l \<longleftrightarrow> l = IP_COMPAT \<or> l = UDP_COMPAT \<or> l = TCP_COMPAT"

definition isUDPCompat :: "compat_level_t \<Rightarrow> bool" where
  "isUDPCompat l \<longleftrightarrow> l = UDP_COMPAT"

section \<open>Hooks and paths\<close>

datatype hook_status = HOOK_CONTINUE | HOOK_DROP

text \<open>The hooks a module does not override.\<close>

definition default_hook :: "'s \<Rightarrow> (hook_status \<times> 's) res" where
  "default_hook s = Inr (HOOK_CONTINUE, s)"

definition default_net_init :: "'s \<Rightarrow> 's res" where
  "default_net_init s = Inr s"

text \<open>\<open>register_module\<close>: the modules in order; \<open>m_sequence\<close> is the index.\<close>

definition register_module :: "'m \<Rightarrow> 'm list \<Rightarrow> 'm list \<times> nat" where
  "register_module m ms = (let ms' = ms @ [m] in (ms', length ms' - 1))"

text \<open>The loop of every path: run the hooks in order, stop after a module that drops.\<close>

fun run_hooks :: "('m \<Rightarrow> 's \<Rightarrow> (hook_status \<times> 's) res) \<Rightarrow> 'm list \<Rightarrow> 's \<Rightarrow> 's res" where
  "run_hooks hook [] s = Inr s"
| "run_hooks hook (m # ms) s =
     bindE (hook m s) (\<lambda>(st, s'). if st = HOOK_DROP then Inr s' else run_hooks hook ms s')"

definition run_establish_path :: "('m \<Rightarrow> 's \<Rightarrow> (hook_status \<times> 's) res) \<Rightarrow> 'm list \<Rightarrow> 's \<Rightarrow> 's res" where
  "run_establish_path hook_establish ms s = run_hooks hook_establish ms s"

definition run_destablish_path :: "('m \<Rightarrow> 's \<Rightarrow> (hook_status \<times> 's) res) \<Rightarrow> 'm list \<Rightarrow> 's \<Rightarrow> 's res" where
  "run_destablish_path hook_destablish ms s = run_hooks hook_destablish ms s"

text \<open>The ingress path runs the modules from the last to the first.\<close>

definition run_ingress_path :: "('m \<Rightarrow> 's \<Rightarrow> (hook_status \<times> 's) res) \<Rightarrow> 'm list \<Rightarrow> 's \<Rightarrow> 's res" where
  "run_ingress_path hook_ingress ms s = run_hooks hook_ingress (rev ms) s"

fun run_net_init_hooks :: "('m \<Rightarrow> 's \<Rightarrow> 's res) \<Rightarrow> 'm list \<Rightarrow> 's \<Rightarrow> 's res" where
  "run_net_init_hooks hook_net_init [] s = Inr s"
| "run_net_init_hooks hook_net_init (m # ms) s =
     bindE (hook_net_init m s) (run_net_init_hooks hook_net_init ms)"

section \<open>Scheduling of paths\<close>

text \<open>
  One pass of the \<open>for\<close> loop over the registered modules. \<open>mark_scheduled\<close> is
  reset before the loop and set exactly when a module is put on the path; a module that is not
  registered is never marked.
\<close>

fun schedule_pass :: "('m \<Rightarrow> 'm list) \<Rightarrow> 'm list \<Rightarrow> 'm list \<Rightarrow> 'm list" where
  "schedule_pass depends [] path = path"
| "schedule_pass depends (m # ms) path =
     (if m \<notin> set path \<and> (\<forall>d \<in> set (depends m). d \<in> set path)
      then schedule_pass depends ms (path @ [m])
      else schedule_pass depends ms path)"

text \<open>
  The \<open>while\<close> loop of one path: after each pass the body reaches
  \<open>assert(false)\<close>, whether or not the pass scheduled every module.
\<close>

definition finalize_path :: "('m \<Rightarrow> 'm list) \<Rightarrow> 'm list \<Rightarrow> 'm list res" where
  "finalize_path depends registered =
     (let path = [] in
      if length path < length registered
      then (let path = schedule_pass depends registered path in
            bindE (guardE False (Assert_Fail ''Circular dependency while scheduling'')) (\<lambda>_. Inr path))
      else Inr path)"

record 'm paths =
  m_establish_path :: "'m list"
  m_destablish_path :: "'m list"
  m_send_path :: "'m list"
  m_ingress_path :: "'m list"

record 'm depends =
  m_establish_depends :: "'m \<Rightarrow> 'm list"
  m_destablish_depends :: "'m \<Rightarrow> 'm list"
  m_send_depends :: "'m \<Rightarrow> 'm list"
  m_ingress_depends :: "'m \<Rightarrow> 'm list"

definition finalize_paths :: "'m depends \<Rightarrow> 'm list \<Rightarrow> 'm paths res" where
  "finalize_paths deps registered =
     bindE (finalize_path (m_establish_depends deps) registered) (\<lambda>e.
     bindE (finalize_path (m_destablish_depends deps) registered) (\<lambda>d.
     bindE (finalize_path (m_send_depends deps) registered) (\<lambda>t.
     bindE (finalize_path (m_ingress_depends deps) registered) (\<lambda>i.
     Inr \<lparr>m_establish_path = e, m_destablish_path = d, m_send_path = t, m_ingress_path = i\<rparr>))))"

definition get_headroom :: "dynamic_layout \<Rightarrow> nat res" where
  "get_headroom net_packet = group_start_offset 1 net_packet"

section \<open>What the paths guarantee\<close>

text \<open>
  An execution of hooks, step by step: every module continues, or the last one drops.
\<close>

inductive path_exec :: "('m \<Rightarrow> 's \<Rightarrow> (hook_status \<times> 's) res) \<Rightarrow> 'm list \<Rightarrow> 's \<Rightarrow> hook_status \<Rightarrow> 's \<Rightarrow> bool"
  for hook where
  path_end: "path_exec hook [] s HOOK_CONTINUE s"
| path_continue: "hook m s = Inr (HOOK_CONTINUE, s1) \<Longrightarrow> path_exec hook ms s1 st s2 \<Longrightarrow>
    path_exec hook (m # ms) s st s2"
| path_drop: "hook m s = Inr (HOOK_DROP, s1) \<Longrightarrow> path_exec hook [m] s HOOK_DROP s1"

inductive_simps path_exec_Nil: "path_exec hook [] s st s'"
inductive_simps path_exec_Cons: "path_exec hook (m # ms) s st s'"

lemma run_hooks_path_exec:
  "run_hooks hook ms s = Inr s' \<longleftrightarrow>
     path_exec hook ms s HOOK_CONTINUE s' \<or>
     (\<exists>pre m post. ms = pre @ m # post \<and> path_exec hook (pre @ [m]) s HOOK_DROP s')"
proof (induction ms arbitrary: s)
  case Nil
  then show ?case by (auto simp: path_exec_Nil)
next
  case (Cons m ms)
  have split: "(\<exists>pre x post. m # ms = pre @ x # post \<and> path_exec hook (pre @ [x]) s HOOK_DROP s') \<longleftrightarrow>
      path_exec hook [m] s HOOK_DROP s' \<or>
      (\<exists>pre x post. ms = pre @ x # post \<and> path_exec hook (m # pre @ [x]) s HOOK_DROP s')"
    by (subst ex_split_Cons) simp
  show ?case
  proof (cases "hook m s")
    case (Inl e)
    then show ?thesis unfolding split by (auto simp: path_exec_Cons)
  next
    case (Inr r)
    obtain st s1 where r: "r = (st, s1)" by (cases r)
    show ?thesis
      using Inr r Cons.IH [of s1] unfolding split
      by (cases st) (auto simp: path_exec_Cons path_exec_Nil)
  qed
qed

text \<open>The contract every hook of a path keeps, and what it gives for the whole path.\<close>

locale hook_contract =
  fixes hook :: "'m \<Rightarrow> 's \<Rightarrow> (hook_status \<times> 's) res" and inv :: "'s \<Rightarrow> bool"
  assumes hook_inv: "inv s \<Longrightarrow> hook m s = Inr (st, s') \<Longrightarrow> inv s'"
begin

lemma path_inv: "run_hooks hook ms s = Inr s' \<Longrightarrow> inv s \<Longrightarrow> inv s'"
proof (induction ms arbitrary: s)
  case (Cons m ms)
  then obtain st s1 where "hook m s = Inr (st, s1)"
    and "if st = HOOK_DROP then s1 = s' else run_hooks hook ms s1 = Inr s'"
    by (auto simp: bindE_eq_Inr split: if_splits)
  with Cons show ?case by (metis hook_inv)
qed simp

lemma ingress_inv: "run_ingress_path hook ms s = Inr s' \<Longrightarrow> inv s \<Longrightarrow> inv s'"
  unfolding run_ingress_path_def by (rule path_inv)

lemma establish_inv: "run_establish_path hook ms s = Inr s' \<Longrightarrow> inv s \<Longrightarrow> inv s'"
  unfolding run_establish_path_def by (rule path_inv)

lemma destablish_inv: "run_destablish_path hook ms s = Inr s' \<Longrightarrow> inv s \<Longrightarrow> inv s'"
  unfolding run_destablish_path_def by (rule path_inv)

end

lemma schedule_pass_sound:
  assumes "distinct path" "\<And>i d. i < length path \<Longrightarrow> d \<in> set (depends (path ! i)) \<Longrightarrow> d \<in> set (take i path)"
  shows "distinct (schedule_pass depends ms path) \<and> set path \<subseteq> set (schedule_pass depends ms path) \<and>
    set (schedule_pass depends ms path) \<subseteq> set path \<union> set ms \<and>
    (\<forall>i < length (schedule_pass depends ms path). \<forall>d \<in> set (depends (schedule_pass depends ms path ! i)).
       d \<in> set (take i (schedule_pass depends ms path)))"
  using assms
proof (induction ms arbitrary: path)
  case Nil
  then show ?case by auto
next
  case (Cons m ms)
  show ?case
  proof (cases "m \<notin> set path \<and> (\<forall>d \<in> set (depends m). d \<in> set path)")
    case True
    have "d \<in> set (take i (path @ [m]))"
      if "i < length (path @ [m])" "d \<in> set (depends ((path @ [m]) ! i))" for i d
      using that True Cons.prems(2) by (cases "i < length path") (auto simp: nth_append)
    with Cons.IH [of "path @ [m]"] Cons.prems(1) True show ?thesis
      by auto
  next
    case False
    with Cons.IH [OF Cons.prems] show ?thesis by auto
  qed
qed

text \<open>
  C11. Every path of the framework runs the hooks in the order of its list and stops right after the
  first module that drops: the run is an execution in which all modules continue, or one of a
  prefix whose last module drops. The ingress path does so in reverse order of registration.
\<close>

theorem run_paths_until_drop:
  "(run_ingress_path hook ms s = Inr s' \<longleftrightarrow>
      path_exec hook (rev ms) s HOOK_CONTINUE s' \<or>
      (\<exists>pre m post. ms = pre @ m # post \<and> path_exec hook (rev post @ [m]) s HOOK_DROP s')) \<and>
   (run_establish_path hook ms s = Inr s' \<longleftrightarrow>
      path_exec hook ms s HOOK_CONTINUE s' \<or>
      (\<exists>pre m post. ms = pre @ m # post \<and> path_exec hook (pre @ [m]) s HOOK_DROP s'))"
proof -
  have "(\<exists>pre m post. rev ms = pre @ m # post \<and> path_exec hook (pre @ [m]) s HOOK_DROP s') \<longleftrightarrow>
      (\<exists>pre m post. ms = pre @ m # post \<and> path_exec hook (rev post @ [m]) s HOOK_DROP s')"
    (is "?L = ?R")
  proof
    assume ?L
    then obtain pre m post where "ms = rev post @ m # rev pre" "path_exec hook (pre @ [m]) s HOOK_DROP s'"
      by (auto simp: rev_swap)
    then show ?R
      by (intro exI [of _ "rev post"] exI [of _ m] exI [of _ "rev pre"]) simp
  next
    assume ?R
    then obtain pre m post where "ms = pre @ m # post" "path_exec hook (rev post @ [m]) s HOOK_DROP s'"
      by blast
    then show ?L
      by (intro exI [of _ "rev post"] exI [of _ m] exI [of _ "rev pre"]) simp
  qed
  then show ?thesis
    unfolding run_ingress_path_def run_establish_path_def run_hooks_path_exec by blast
qed


end
