(* ===== verification/Packet_Fields.thy ===== *)
theory Packet_Fields
  imports Packet_Codec
begin

unbundle bit_operations_syntax

text \<open>
  Members that start on a byte and end on a byte, in terms of the bytes of the packet: which bytes a
  write changes, and that it can be read back. The modules' proofs use these rules.
\<close>

section \<open>Whole-byte members\<close>

text \<open>
  A member that occupies all bytes of its type \<open>T\<close> from byte \<open>o\<close> on, as
  \<open>generic_integer_member<T>\<close> creates it when its place is on a byte: reading and writing
  are those of the bytes.
\<close>

definition int_member_at :: "dynamic_layout \<Rightarrow> string \<Rightarrow> c_int_type \<Rightarrow> nat \<Rightarrow> bool" where
  "int_member_at L name T o' \<longleftrightarrow>
     map_option m_kind (m_members_map L name) =
       Some (Generic_Integer \<lparr>gi_type = T, m_align = byte_size, m_bit_size = t_bits T, m_range_base = 0\<rparr>) \<and>
     get_offset L name = Some (8 * o')"

lemma int_member_get:
  "int_member_at L name T o' \<Longrightarrow>
   get_integer L name b = bindE (buf_read (t_bytes T) o' b) (\<lambda>w. Inr (T_to_ull T w))"
  by (auto simp: int_member_at_def get_integer_def layout_member_def member_offset_def gi_get_integer_def
      extract_bits_upper_def Let_def byte_size_def bindE_assoc)

lemma int_member_set:
  "int_member_at L name T o' \<Longrightarrow> set_integer L name v b = buf_write (t_bytes T) o' v b"
  by (auto simp: int_member_at_def set_integer_def layout_member_def member_offset_def gi_set_integer_def
      set_bits_upper_def Let_def byte_size_def)

lemma int_member_addr: "int_member_at L name T o' \<Longrightarrow> get_addr L name = Inr o'"
  by (auto simp: int_member_at_def get_addr_def layout_member_def member_offset_def byte_size_def)

lemma int_member_put:
  assumes m: "int_member_at L n T o'" and room: "o' + t_bytes T \<le> length b" and T: "t_bytes T \<le> 8"
  shows "\<exists>b'. set_integer L n v b = Inr b' \<and> length b' = length b \<and>
    get_integer L n b' = Inr (T_to_ull T (take_bit (t_bits T) v)) \<and>
    (\<forall>i. i < length b \<and> (i < o' \<or> o' + t_bytes T \<le> i) \<longrightarrow> b' ! i = b ! i)"
proof -
  obtain b' where b': "buf_write (t_bytes T) o' v b = Inr b'"
    using buf_write_ok [OF room] by blast
  have len: "length b' = length b" by (rule length_buf_write [OF b'])
  obtain w where w: "buf_read (t_bytes T) o' b' = Inr w"
    using buf_read_ok [of o' "t_bytes T" b'] room len by auto
  have "w = take_bit (t_bits T) v"
    using T by (intro word_eq_of_bits) (auto simp: bit_buf_read [OF w T] buf_bit_write [OF b'] bit_simps t_bits_def)
  with w b' len m show ?thesis
    by (auto simp: int_member_set int_member_get nth_buf_write [OF b'])
qed

lemma int_member_get_cong:
  assumes "int_member_at L n T o'" "o' + t_bytes T \<le> length b" "o' + t_bytes T \<le> length b'"
    and "\<And>i. o' \<le> i \<Longrightarrow> i < o' + t_bytes T \<Longrightarrow> b' ! i = b ! i"
  shows "get_integer L n b' = get_integer L n b"
proof -
  have "take (t_bytes T) (drop o' b') = take (t_bytes T) (drop o' b)"
    using assms by (intro nth_equalityI) auto
  then show ?thesis
    using assms by (simp add: int_member_get buf_read_def)
qed

text \<open>A value of type \<open>T\<close>, converted to \<open>unsigned long long\<close>.\<close>

definition fits_T :: "c_int_type \<Rightarrow> u64 \<Rightarrow> bool" where
  "fits_T T v \<longleftrightarrow> T_to_ull T (take_bit (t_bits T) v) = v"

lemma int_member_get_fits:
  assumes m: "int_member_at L n T o'" and v: "get_integer L n b = Inr v" and T: "0 < t_bytes T" "t_bytes T \<le> 8"
  shows "fits_T T v"
proof -
  from m v obtain w where w: "buf_read (t_bytes T) o' b = Inr w" and v': "v = T_to_ull T w"
    by (auto simp: int_member_get bindE_eq_Inr)
  have "take_bit (t_bits T) v = w"
    unfolding v' using T
    by (intro word_eq_of_bits)
      (auto simp: bit_simps bit_T_to_ull bit_buf_read [OF w T(2)] t_bits_def)
  then show ?thesis by (simp add: fits_T_def v')
qed

lemma int_member_get_ok:
  "int_member_at L n T o' \<Longrightarrow> o' + t_bytes T \<le> length b \<Longrightarrow> \<exists>v. get_integer L n b = Inr v"
  by (simp add: int_member_get buf_read_def)

end
