(* ===== verification/Data_Queue.thy ===== *)
theory Data_Queue
  imports NB_Prelude
begin

text \<open>
  The queues of a connection (\<open>runtime/nb_data_queue.h\<close>,
  \<open>runtime/nb_runtime.c\<close>): the input queue of received payloads and the queue of
  packets that wait for \<open>nb__accept\<close>. Both are fixed arrays with a count and no check for
  a full array. The input queue is shown to be a bounded first-in first-out queue; the accept
  queue is a bag from which \<open>nb__accept\<close> takes the newest entry first.
\<close>

section \<open>The input queue\<close>

text \<open>A payload pointer points into a packet buffer: the buffer and the offset in it.\<close>

type_synonym payload_ptr = "u64 \<times> nat"

definition MAX_DATA_QUEUE_ELEMS :: nat where "MAX_DATA_QUEUE_ELEMS = 512"
definition MAX_ACCEPT_QUEUE_ELEMS :: nat where "MAX_ACCEPT_QUEUE_ELEMS = 512"

record data_queue_t =
  data_queue_elems :: "payload_ptr list"
  data_queue_elems_size :: "int list"
  dq_current_elems :: nat

text \<open>The argument is the uninitialised memory that \<open>malloc\<close> returns.\<close>

definition nb__new_data_queue :: "data_queue_t \<Rightarrow> data_queue_t" where
  "nb__new_data_queue mem = mem\<lparr>dq_current_elems := 0\<rparr>"

definition nb__insert_data_queue :: "payload_ptr \<Rightarrow> int \<Rightarrow> data_queue_t \<Rightarrow> data_queue_t res" where
  "nb__insert_data_queue buff len q =
     (let index = dq_current_elems q in
      bindE (arr_set (data_queue_elems q) index buff) (\<lambda>elems.
      bindE (arr_set (data_queue_elems_size q) index len) (\<lambda>sizes.
      Inr (q\<lparr>dq_current_elems := index + 1, data_queue_elems := elems, data_queue_elems_size := sizes\<rparr>))))"

text \<open>The part of \<open>nb__read\<close> that takes the first element and moves the others down.\<close>

definition dq_move_down :: "data_queue_t \<Rightarrow> nat \<Rightarrow> data_queue_t res" where
  "dq_move_down q i =
     bindE (arr_get (data_queue_elems q) i) (\<lambda>e.
     bindE (arr_get (data_queue_elems_size q) i) (\<lambda>n.
     bindE (arr_set (data_queue_elems q) (i - 1) e) (\<lambda>elems.
     bindE (arr_set (data_queue_elems_size q) (i - 1) n) (\<lambda>sizes.
     Inr (q\<lparr>data_queue_elems := elems, data_queue_elems_size := sizes\<rparr>)))))"

definition dq_take_first :: "data_queue_t \<Rightarrow> ((payload_ptr \<times> int) \<times> data_queue_t) res" where
  "dq_take_first q =
     bindE (arr_get (data_queue_elems q) 0) (\<lambda>payload.
     bindE (arr_get (data_queue_elems_size q) 0) (\<lambda>payload_size.
     bindE (foldE dq_move_down q [1..<dq_current_elems q]) (\<lambda>q.
     Inr ((payload, payload_size), q\<lparr>dq_current_elems := dq_current_elems q - 1\<rparr>))))"

section \<open>The accept queue\<close>

record accept_queue_t =
  aq_src_app_id :: "u32 list"
  aq_src_host_id :: "u64 list"
  aq_packet :: "u64 list"
  aq_current_elems :: nat

definition nb__new_accept_queue :: "accept_queue_t \<Rightarrow> accept_queue_t" where
  "nb__new_accept_queue mem = mem\<lparr>aq_current_elems := 0\<rparr>"

definition nb__insert_accept_queue :: "u32 \<Rightarrow> u64 \<Rightarrow> u64 \<Rightarrow> accept_queue_t \<Rightarrow> accept_queue_t res" where
  "nb__insert_accept_queue src_app_id src_host_id packet q =
     (let index = aq_current_elems q in
      bindE (arr_set (aq_src_app_id q) index src_app_id) (\<lambda>apps.
      bindE (arr_set (aq_src_host_id q) index src_host_id) (\<lambda>hosts.
      bindE (arr_set (aq_packet q) index packet) (\<lambda>packets.
      Inr (q\<lparr>aq_current_elems := index + 1, aq_src_app_id := apps, aq_src_host_id := hosts,
             aq_packet := packets\<rparr>)))))"

definition aq_get :: "accept_queue_t \<Rightarrow> nat \<Rightarrow> (u32 \<times> u64 \<times> u64) res" where
  "aq_get q i =
     bindE (arr_get (aq_src_app_id q) i) (\<lambda>a.
     bindE (arr_get (aq_src_host_id q) i) (\<lambda>h.
     bindE (arr_get (aq_packet q) i) (\<lambda>p. Inr (a, h, p))))"

text \<open>The last element is taken: the first part of \<open>nb__accept\<close>.\<close>

definition aq_pop_last :: "accept_queue_t \<Rightarrow> ((u32 \<times> u64 \<times> u64) \<times> accept_queue_t) res" where
  "aq_pop_last q =
     (let index = aq_current_elems q - 1;
          q' = q\<lparr>aq_current_elems := aq_current_elems q - 1\<rparr> in
      bindE (aq_get q' index) (\<lambda>e. Inr (e, q')))"

text \<open>The element at \<open>i\<close> is replaced by the last one: in the loop of \<open>nb__accept\<close>.\<close>

definition aq_swap_remove :: "nat \<Rightarrow> accept_queue_t \<Rightarrow> accept_queue_t res" where
  "aq_swap_remove i q =
     (let last = aq_current_elems q - 1 in
      bindE (aq_get q last) (\<lambda>(a, h, p).
      bindE (arr_set (aq_src_app_id q) i a) (\<lambda>apps.
      bindE (arr_set (aq_src_host_id q) i h) (\<lambda>hosts.
      bindE (arr_set (aq_packet q) i p) (\<lambda>packets.
      Inr (q\<lparr>aq_src_app_id := apps, aq_src_host_id := hosts, aq_packet := packets,
             aq_current_elems := aq_current_elems q - 1\<rparr>))))))"

section \<open>The interface of a bounded first-in first-out queue\<close>

fun enq_all :: "('a \<Rightarrow> 'q \<Rightarrow> 'q res) \<Rightarrow> 'a list \<Rightarrow> 'q \<Rightarrow> 'q res" where
  "enq_all enq [] q = Inr q"
| "enq_all enq (x # xs) q = bindE (enq x q) (enq_all enq xs)"

fun deq_n :: "('q \<Rightarrow> ('a \<times> 'q) res) \<Rightarrow> nat \<Rightarrow> 'q \<Rightarrow> ('a list \<times> 'q) res" where
  "deq_n deq 0 q = Inr ([], q)"
| "deq_n deq (Suc n) q =
     bindE (deq q) (\<lambda>(x, q'). bindE (deq_n deq n q') (\<lambda>(xs, q''). Inr (x # xs, q'')))"

locale bounded_fifo =
  fixes enq :: "'a \<Rightarrow> 'q \<Rightarrow> 'q res" and deq :: "'q \<Rightarrow> ('a \<times> 'q) res"
    and abs :: "'q \<Rightarrow> 'a list" and inv :: "'q \<Rightarrow> bool" and cap :: nat
  assumes enq_ok: "inv q \<Longrightarrow> length (abs q) < cap \<Longrightarrow>
      \<exists>q'. enq x q = Inr q' \<and> inv q' \<and> abs q' = abs q @ [x]"
    and enq_full: "inv q \<Longrightarrow> length (abs q) = cap \<Longrightarrow> enq x q = Inl Out_Of_Bounds"
    and deq_ok: "inv q \<Longrightarrow> abs q = x # xs \<Longrightarrow> \<exists>q'. deq q = Inr (x, q') \<and> inv q' \<and> abs q' = xs"
begin

lemma enq_all_ok:
  "inv q \<Longrightarrow> length (abs q) + length xs \<le> cap \<Longrightarrow>
   \<exists>q'. enq_all enq xs q = Inr q' \<and> inv q' \<and> abs q' = abs q @ xs"
proof (induction xs arbitrary: q)
  case Nil
  then show ?case by simp
next
  case (Cons x xs)
  then obtain q1 where q1: "enq x q = Inr q1" "inv q1" "abs q1 = abs q @ [x]"
    using enq_ok [of q x] by auto
  with Cons.IH [of q1] Cons.prems show ?case by auto
qed

lemma deq_n_ok:
  "inv q \<Longrightarrow> abs q = xs @ ys \<Longrightarrow>
   \<exists>q'. deq_n deq (length xs) q = Inr (xs, q') \<and> inv q' \<and> abs q' = ys"
proof (induction xs arbitrary: q)
  case Nil
  then show ?case by simp
next
  case (Cons x xs)
  then obtain q1 where q1: "deq q = Inr (x, q1)" "inv q1" "abs q1 = xs @ ys"
    using deq_ok [of q x "xs @ ys"] by auto
  with Cons.IH [of q1] show ?case by auto
qed

lemma fifo_order:
  assumes "inv q" "abs q = []" "length xs \<le> cap"
  shows "\<exists>q1 q2. enq_all enq xs q = Inr q1 \<and> deq_n deq (length xs) q1 = Inr (xs, q2) \<and> inv q2 \<and> abs q2 = []"
  using enq_all_ok [of q xs] deq_n_ok [of _ xs "[]"] assms by fastforce

end

section \<open>The input queue is a bounded queue\<close>

definition dq_inv :: "data_queue_t \<Rightarrow> bool" where
  "dq_inv q \<longleftrightarrow> length (data_queue_elems q) = MAX_DATA_QUEUE_ELEMS \<and>
     length (data_queue_elems_size q) = MAX_DATA_QUEUE_ELEMS \<and> dq_current_elems q \<le> MAX_DATA_QUEUE_ELEMS"

definition dq_list :: "data_queue_t \<Rightarrow> (payload_ptr \<times> int) list" where
  "dq_list q = take (dq_current_elems q) (zip (data_queue_elems q) (data_queue_elems_size q))"

lemma length_dq_list [simp]: "dq_inv q \<Longrightarrow> length (dq_list q) = dq_current_elems q"
  by (simp add: dq_inv_def dq_list_def)

lemma nth_dq_list:
  "dq_inv q \<Longrightarrow> i < dq_current_elems q \<Longrightarrow> dq_list q ! i = (data_queue_elems q ! i, data_queue_elems_size q ! i)"
  by (simp add: dq_inv_def dq_list_def)

lemma dq_insert_ok:
  assumes "dq_inv q" "dq_current_elems q < MAX_DATA_QUEUE_ELEMS"
  shows "\<exists>q'. nb__insert_data_queue buff len q = Inr q' \<and> dq_inv q' \<and> dq_list q' = dq_list q @ [(buff, len)]"
proof -
  let ?n = "dq_current_elems q"
  let ?q = "q\<lparr>dq_current_elems := ?n + 1, data_queue_elems := (data_queue_elems q)[?n := buff],
    data_queue_elems_size := (data_queue_elems_size q)[?n := len]\<rparr>"
  have inv: "dq_inv ?q" using assms by (simp add: dq_inv_def)
  have "dq_list ?q = dq_list q @ [(buff, len)]"
  proof (rule nth_equalityI)
    show "length (dq_list ?q) = length (dq_list q @ [(buff, len)])"
      using inv assms(1) by simp
    fix i assume "i < length (dq_list ?q)"
    then have "i < ?n + 1" using inv by simp
    then show "dq_list ?q ! i = (dq_list q @ [(buff, len)]) ! i"
      using inv assms
      by (cases "i = ?n") (auto simp: nth_dq_list nth_append dq_inv_def)
  qed
  with inv assms show ?thesis
    by (simp add: nb__insert_data_queue_def Let_def dq_inv_def)
qed

lemma dq_move_down_loop:
  assumes "dq_inv q" "Suc k \<le> MAX_DATA_QUEUE_ELEMS"
  shows "\<exists>r. foldE dq_move_down q [1..<Suc k] = Inr r \<and> dq_inv r \<and> dq_current_elems r = dq_current_elems q \<and>
    (\<forall>i < MAX_DATA_QUEUE_ELEMS.
       data_queue_elems r ! i = data_queue_elems q ! (if i < k then i + 1 else i) \<and>
       data_queue_elems_size r ! i = data_queue_elems_size q ! (if i < k then i + 1 else i))"
  using assms(2)
proof (induction k)
  case 0
  with assms show ?case by auto
next
  case (Suc k)
  then obtain r where r: "foldE dq_move_down q [1..<Suc k] = Inr r" "dq_inv r"
    "dq_current_elems r = dq_current_elems q"
    "\<forall>i < MAX_DATA_QUEUE_ELEMS.
       data_queue_elems r ! i = data_queue_elems q ! (if i < k then i + 1 else i) \<and>
       data_queue_elems_size r ! i = data_queue_elems_size q ! (if i < k then i + 1 else i)"
    by auto
  let ?r = "r\<lparr>data_queue_elems := (data_queue_elems r)[k := data_queue_elems r ! Suc k],
    data_queue_elems_size := (data_queue_elems_size r)[k := data_queue_elems_size r ! Suc k]\<rparr>"
  have "dq_move_down r (Suc k) = Inr ?r"
    using r(2) Suc.prems by (simp add: dq_move_down_def dq_inv_def)
  then have "foldE dq_move_down q [1..<Suc (Suc k)] = Inr ?r"
    using r(1) by (simp add: foldE_append)
  moreover have "dq_inv ?r" using r(2) by (simp add: dq_inv_def)
  ultimately show ?case
    using r Suc.prems by (auto simp: nth_list_update dq_inv_def less_Suc_eq)
qed

lemma dq_take_first_ok:
  assumes "dq_inv q" "dq_list q = x # xs"
  shows "\<exists>q'. dq_take_first q = Inr (x, q') \<and> dq_inv q' \<and> dq_list q' = xs"
proof -
  let ?n = "dq_current_elems q"
  have n: "?n = Suc (length xs)" "?n \<le> MAX_DATA_QUEUE_ELEMS"
    using assms length_dq_list [OF assms(1)] by (auto simp: dq_inv_def)
  have x: "x = (data_queue_elems q ! 0, data_queue_elems_size q ! 0)"
    using nth_dq_list [OF assms(1), of 0] assms(2) n by simp
  obtain r where r: "foldE dq_move_down q [1..<?n] = Inr r" "dq_inv r" "dq_current_elems r = ?n"
    "\<forall>i < MAX_DATA_QUEUE_ELEMS.
       data_queue_elems r ! i = data_queue_elems q ! (if i < length xs then i + 1 else i) \<and>
       data_queue_elems_size r ! i = data_queue_elems_size q ! (if i < length xs then i + 1 else i)"
    using dq_move_down_loop [OF assms(1), of "length xs"] n by auto
  let ?r = "r\<lparr>dq_current_elems := dq_current_elems r - 1\<rparr>"
  have inv: "dq_inv ?r" using r(2) by (auto simp: dq_inv_def)
  have "dq_list ?r = xs"
  proof (rule nth_equalityI)
    show "length (dq_list ?r) = length xs" using inv r(3) n by simp
    fix i assume "i < length (dq_list ?r)"
    then have i: "i < length xs" using inv r(3) n by simp
    then have "dq_list ?r ! i = dq_list q ! Suc i"
      using inv r n assms(1) by (simp add: nth_dq_list)
    with i assms(2) show "dq_list ?r ! i = xs ! i" by simp
  qed
  moreover have "dq_take_first q = Inr (x, ?r)"
    using r(1) x n assms(1) by (simp add: dq_take_first_def dq_inv_def)
  ultimately show ?thesis using inv by blast
qed

interpretation dq: bounded_fifo "\<lambda>(buff, len) q. nb__insert_data_queue buff len q" dq_take_first dq_list dq_inv
  MAX_DATA_QUEUE_ELEMS
proof (unfold_locales, goal_cases)
  case (1 q x)
  then show ?case using dq_insert_ok [of q "fst x" "snd x"] by (simp add: split_beta)
next
  case (2 q x)
  then show ?case by (auto simp: nb__insert_data_queue_def Let_def dq_inv_def arr_set_def split_beta)
next
  case (3 q x xs)
  then show ?case by (rule dq_take_first_ok)
qed

text \<open>
  C12. The input queue delivers payloads in the order of their insertion: up to 512 payloads inserted
  into an empty queue come out unchanged and in order, and an insertion into a full queue writes
  outside the array.
\<close>

theorem data_queue_fifo:
  assumes "dq_inv mem" "length xs \<le> MAX_DATA_QUEUE_ELEMS"
  shows "\<exists>q1 q2. enq_all (\<lambda>(buff, len) q. nb__insert_data_queue buff len q) xs (nb__new_data_queue mem) = Inr q1 \<and>
    deq_n dq_take_first (length xs) q1 = Inr (xs, q2) \<and> dq_list q2 = [] \<and>
    (length xs = MAX_DATA_QUEUE_ELEMS \<longrightarrow> (\<forall>buff len. nb__insert_data_queue buff len q1 = Inl Out_Of_Bounds))"
proof -
  let ?enq = "\<lambda>(buff, len) q. nb__insert_data_queue buff len q"
  have "dq_inv (nb__new_data_queue mem)" "dq_list (nb__new_data_queue mem) = []"
    using assms by (simp_all add: nb__new_data_queue_def dq_inv_def dq_list_def)
  then obtain q1 where q1: "enq_all ?enq xs (nb__new_data_queue mem) = Inr q1" "dq_inv q1" "dq_list q1 = xs"
    using dq.enq_all_ok [of "nb__new_data_queue mem" xs] assms(2) by auto
  obtain q2 where q2: "deq_n dq_take_first (length xs) q1 = Inr (xs, q2)" "dq_list q2 = []"
    using dq.deq_n_ok [of q1 xs "[]"] q1 by auto
  have "nb__insert_data_queue buff len q1 = Inl Out_Of_Bounds"
    if "length xs = MAX_DATA_QUEUE_ELEMS" for buff len
    using dq.enq_full [of q1 "(buff, len)"] q1 that by simp
  with q1 q2 show ?thesis by blast
qed

section \<open>The accept queue is a bag\<close>

definition aq_inv :: "accept_queue_t \<Rightarrow> bool" where
  "aq_inv q \<longleftrightarrow> length (aq_src_app_id q) = MAX_ACCEPT_QUEUE_ELEMS \<and>
     length (aq_src_host_id q) = MAX_ACCEPT_QUEUE_ELEMS \<and> length (aq_packet q) = MAX_ACCEPT_QUEUE_ELEMS \<and>
     aq_current_elems q \<le> MAX_ACCEPT_QUEUE_ELEMS"

definition aq_list :: "accept_queue_t \<Rightarrow> (u32 \<times> u64 \<times> u64) list" where
  "aq_list q = map (\<lambda>i. (aq_src_app_id q ! i, aq_src_host_id q ! i, aq_packet q ! i)) [0..<aq_current_elems q]"

lemma aq_insert_ok:
  assumes "aq_inv q" "aq_current_elems q < MAX_ACCEPT_QUEUE_ELEMS"
  shows "\<exists>q'. nb__insert_accept_queue a h p q = Inr q' \<and> aq_inv q' \<and> aq_list q' = aq_list q @ [(a, h, p)]"
  using assms
  by (auto simp: nb__insert_accept_queue_def Let_def aq_inv_def aq_list_def)

lemma aq_pop_last_ok:
  assumes "aq_inv q" "aq_list q = xs @ [x]"
  shows "\<exists>q'. aq_pop_last q = Inr (x, q') \<and> aq_inv q' \<and> aq_list q' = xs"
proof -
  let ?n = "aq_current_elems q"
  have n: "?n = Suc (length xs)"
    using assms(2) by (auto simp: aq_list_def dest: arg_cong [of _ _ length])
  then have "aq_list q = map (\<lambda>i. (aq_src_app_id q ! i, aq_src_host_id q ! i, aq_packet q ! i)) [0..<length xs] @
      [(aq_src_app_id q ! length xs, aq_src_host_id q ! length xs, aq_packet q ! length xs)]"
    by (simp add: aq_list_def)
  with assms n show ?thesis
    by (auto simp: aq_pop_last_def Let_def aq_get_def aq_inv_def aq_list_def)
qed

lemma aq_swap_remove_ok:
  assumes "aq_inv q" "i < aq_current_elems q"
  shows "\<exists>q'. aq_swap_remove i q = Inr q' \<and> aq_inv q' \<and> aq_current_elems q' = aq_current_elems q - 1 \<and>
    aq_list q' = butlast ((aq_list q)[i := last (aq_list q)])"
proof -
  let ?n = "aq_current_elems q"
  from assms(2) obtain k where k: "?n = Suc k" by (cases ?n) auto
  let ?q = "q\<lparr>aq_src_app_id := (aq_src_app_id q)[i := aq_src_app_id q ! k],
    aq_src_host_id := (aq_src_host_id q)[i := aq_src_host_id q ! k],
    aq_packet := (aq_packet q)[i := aq_packet q ! k], aq_current_elems := k\<rparr>"
  have "aq_swap_remove i q = Inr ?q" "aq_inv ?q"
    using assms k by (simp_all add: aq_swap_remove_def aq_get_def Let_def aq_inv_def)
  moreover have "aq_list ?q = butlast ((aq_list q)[i := last (aq_list q)])"
    using assms k
    by (intro nth_equalityI) (auto simp: aq_list_def nth_butlast nth_list_update last_map aq_inv_def nth_append)
  ultimately show ?thesis using k by auto
qed

end
