(* ===== verification/Timer.thy ===== *)
theory Timer
  imports NB_Prelude
begin

text \<open>
  The timers of the runtime (\<open>runtime/nb_timer.h\<close>, \<open>runtime/nb_timer.c\<close>): a
  fixed array of timers, a free list chained through \<open>next\<close>, and a doubly linked list of
  the running timers in order of their timeouts. The model keeps the pointers; the lemmas relate
  them to Isabelle lists. A pointer to \<open>nb__allocated_timers[i]\<close> is the number
  \<open>i + 1\<close>, the null pointer is \<open>0\<close>.
\<close>

section \<open>Timers and the operations on them\<close>

definition MAX_TIMER_ALLOCS :: nat where "MAX_TIMER_ALLOCS = 1024"

text \<open>The callbacks that the sources install.\<close>

datatype nb__timer_callback_t = No_Callback | Redelivery_Timer_Cb

record nb__timer_obj =
  tm_callback :: nb__timer_callback_t
  tm_argument :: u64
  tm_next :: u64
  tm_prev :: u64
  tm_timeout :: u64

record timer_state =
  nb__allocated_timers :: "u64 \<Rightarrow> nb__timer_obj"
  nb__timer_free_list :: u64
  nb__timers_head :: u64
  nb__last_timer_checked :: u64

definition valid_timer :: "u64 \<Rightarrow> bool" where
  "valid_timer p \<longleftrightarrow> p \<noteq> 0 \<and> unat p \<le> MAX_TIMER_ALLOCS"

definition t_get :: "timer_state \<Rightarrow> u64 \<Rightarrow> nb__timer_obj res" where
  "t_get ts p =
     (if p = 0 then Inl Null_Deref
      else if unat p \<le> MAX_TIMER_ALLOCS then Inr (nb__allocated_timers ts p) else Inl Bad_Pointer)"

definition t_upd :: "u64 \<Rightarrow> (nb__timer_obj \<Rightarrow> nb__timer_obj) \<Rightarrow> timer_state \<Rightarrow> timer_state res" where
  "t_upd p f ts =
     bindE (t_get ts p) (\<lambda>x. Inr (ts\<lparr>nb__allocated_timers := (nb__allocated_timers ts)(p := f x)\<rparr>))"

definition nb__alloc_timer :: "timer_state \<Rightarrow> (u64 \<times> timer_state) res" where
  "nb__alloc_timer ts =
     (if nb__timer_free_list ts = 0 then Inr (0, ts)
      else let to_ret = nb__timer_free_list ts in
        bindE (t_get ts to_ret) (\<lambda>x. Inr (to_ret, ts\<lparr>nb__timer_free_list := tm_next x\<rparr>)))"

definition nb__return_timer :: "u64 \<Rightarrow> timer_state \<Rightarrow> timer_state res" where
  "nb__return_timer t ts =
     bindE (t_upd t (\<lambda>x. x\<lparr>tm_next := nb__timer_free_list ts\<rparr>) ts) (\<lambda>ts.
     Inr (ts\<lparr>nb__timer_free_list := t\<rparr>))"

text \<open>
  The search for the place of a timer: the loop goes on over a cyclic list, so its result is an
  option. \<open>None\<close> is a loop that does not end.
\<close>

partial_function (option) insert_walk :: "timer_state \<Rightarrow> u64 \<Rightarrow> u64 \<Rightarrow> u64 \<Rightarrow> (u64 \<times> u64) res option" where [code]:
  "insert_walk ts to prev cur =
     (if cur \<noteq> 0 then
        (case t_get ts cur of
           Inl e \<Rightarrow> Some (Inl e)
         | Inr x \<Rightarrow>
             if tm_timeout x > to then Some (Inr (prev, cur))
             else insert_walk ts to cur (tm_next x))
      else Some (Inr (prev, cur)))"

definition nb__insert_timer ::
  "u64 \<Rightarrow> u64 \<Rightarrow> nb__timer_callback_t \<Rightarrow> u64 \<Rightarrow> timer_state \<Rightarrow> timer_state res" where
  "nb__insert_timer t to cb argument ts =
     bindE (t_upd t (\<lambda>x. x\<lparr>tm_callback := cb, tm_argument := argument, tm_timeout := to,
              tm_next := 0, tm_prev := 0\<rparr>) ts) (\<lambda>ts.
     bindE (case insert_walk ts to 0 (nb__timers_head ts) of None \<Rightarrow> Inl Diverges | Some r \<Rightarrow> r) (\<lambda>(prev, cur).
     if prev = 0 then
       bindE (t_upd t (\<lambda>x. x\<lparr>tm_next := cur\<rparr>) (ts\<lparr>nb__timers_head := t\<rparr>)) (\<lambda>ts.
       if cur \<noteq> 0 then t_upd cur (\<lambda>x. x\<lparr>tm_prev := t\<rparr>) ts else Inr ts)
     else
       bindE (t_upd prev (\<lambda>x. x\<lparr>tm_next := t\<rparr>) ts) (\<lambda>ts.
       bindE (t_upd t (\<lambda>x. x\<lparr>tm_next := cur, tm_prev := prev\<rparr>) ts) (\<lambda>ts.
       if cur \<noteq> 0 then t_upd cur (\<lambda>x. x\<lparr>tm_prev := t\<rparr>) ts else Inr ts))))"

definition nb__remove_timer :: "u64 \<Rightarrow> timer_state \<Rightarrow> timer_state res" where
  "nb__remove_timer t ts =
     bindE (t_get ts t) (\<lambda>x.
     bindE (if tm_next x \<noteq> 0 then t_upd (tm_next x) (\<lambda>y. y\<lparr>tm_prev := tm_prev x\<rparr>) ts else Inr ts) (\<lambda>ts.
     bindE (t_get ts t) (\<lambda>x.
     bindE (if tm_prev x \<noteq> 0 then t_upd (tm_prev x) (\<lambda>y. y\<lparr>tm_next := tm_next x\<rparr>) ts
            else Inr (ts\<lparr>nb__timers_head := tm_next x\<rparr>)) (\<lambda>ts.
     t_upd t (\<lambda>y. y\<lparr>tm_next := 0, tm_prev := 0, tm_timeout := - 1\<rparr>) ts))))"

definition timer_ptr :: "nat \<Rightarrow> u64" where
  "timer_ptr i = of_nat (i + 1)"

text \<open>\<open>nb__init_timers\<close>; the argument is the current time.\<close>

definition nb__init_timers :: "u64 \<Rightarrow> timer_state \<Rightarrow> timer_state res" where
  "nb__init_timers time_now ts =
     bindE (foldE (\<lambda>ts i. t_upd (timer_ptr i) (\<lambda>x. x\<lparr>tm_next := timer_ptr (i + 1)\<rparr>) ts)
              (ts\<lparr>nb__timer_free_list := timer_ptr 0\<rparr>) [0..<MAX_TIMER_ALLOCS - 1]) (\<lambda>ts.
     bindE (t_upd (timer_ptr (MAX_TIMER_ALLOCS - 1)) (\<lambda>x. x\<lparr>tm_next := 0\<rparr>) ts) (\<lambda>ts.
     Inr (ts\<lparr>nb__last_timer_checked := time_now\<rparr>)))"

section \<open>Linked lists of timers\<close>

text \<open>
  \<open>seg h q p xs r e\<close>: from pointer \<open>p\<close> the timers \<open>xs\<close> are linked, the
  first has \<open>q\<close> before it, the last is \<open>r\<close> and has \<open>e\<close> after it.
\<close>

fun seg :: "(u64 \<Rightarrow> nb__timer_obj) \<Rightarrow> u64 \<Rightarrow> u64 \<Rightarrow> u64 list \<Rightarrow> u64 \<Rightarrow> u64 \<Rightarrow> bool" where
  "seg h q p [] r e \<longleftrightarrow> p = e \<and> q = r"
| "seg h q p (x # xs) r e \<longleftrightarrow> p = x \<and> valid_timer x \<and> tm_prev (h x) = q \<and> seg h x (tm_next (h x)) xs r e"

fun free_chain :: "(u64 \<Rightarrow> nb__timer_obj) \<Rightarrow> u64 \<Rightarrow> u64 list \<Rightarrow> bool" where
  "free_chain h p [] \<longleftrightarrow> p = 0"
| "free_chain h p (x # xs) \<longleftrightarrow> p = x \<and> valid_timer x \<and> free_chain h (tm_next (h x)) xs"

definition timer_inv :: "timer_state \<Rightarrow> u64 list \<Rightarrow> u64 list \<Rightarrow> bool" where
  "timer_inv ts xs fs \<longleftrightarrow>
     (\<exists>r. seg (nb__allocated_timers ts) 0 (nb__timers_head ts) xs r 0) \<and>
     free_chain (nb__allocated_timers ts) (nb__timer_free_list ts) fs \<and>
     distinct (xs @ fs) \<and> sorted (map (\<lambda>t. tm_timeout (nb__allocated_timers ts t)) xs)"

lemma seg_append: "seg h q p (xs @ ys) r e \<longleftrightarrow> (\<exists>m k. seg h q p xs m k \<and> seg h m k ys r e)"
  by (induction xs arbitrary: q p) auto

lemma seg_upd [simp]: "u \<notin> set xs \<Longrightarrow> seg (h(u := v)) q p xs r e = seg h q p xs r e"
  by (induction xs arbitrary: q p) auto

lemma free_chain_upd [simp]: "u \<notin> set xs \<Longrightarrow> free_chain (h(u := v)) p xs = free_chain h p xs"
  by (induction xs arbitrary: p) auto

lemma seg_valid: "seg h q p xs r e \<Longrightarrow> x \<in> set xs \<Longrightarrow> valid_timer x"
  by (induction xs arbitrary: q p) auto

lemma free_chain_valid: "free_chain h p xs \<Longrightarrow> x \<in> set xs \<Longrightarrow> valid_timer x"
  by (induction xs arbitrary: p) auto

lemma valid_timer_nonzero [simp]: "\<not> valid_timer 0"
  by (simp add: valid_timer_def)

lemma t_get_valid [simp]: "valid_timer p \<Longrightarrow> t_get ts p = Inr (nb__allocated_timers ts p)"
  by (simp add: t_get_def valid_timer_def)

lemma t_upd_valid [simp]:
  "valid_timer p \<Longrightarrow> t_upd p f ts =
     Inr (ts\<lparr>nb__allocated_timers := (nb__allocated_timers ts)(p := f (nb__allocated_timers ts p))\<rparr>)"
  by (simp add: t_upd_def)

text \<open>The last timer of a segment and the first one, as the code sees them.\<close>

lemma seg_ends:
  "seg h q p xs r e \<Longrightarrow> r = (if xs = [] then q else last xs)"
  "seg h q p xs r e \<Longrightarrow> p = (if xs = [] then e else hd xs)"
  by (induction xs arbitrary: q p) auto

text \<open>Changing the pointer after the last, or before the first, element of a segment.\<close>

lemma seg_set_next:
  "seg h q p (xs @ [a]) r e \<Longrightarrow> a \<notin> set xs \<Longrightarrow>
   seg (h(a := (h a)\<lparr>tm_next := e'\<rparr>)) q p (xs @ [a]) a e'"
  by (auto simp: seg_append)

lemma seg_set_prev:
  "seg h q p (b # ys) r e \<Longrightarrow> b \<notin> set ys \<Longrightarrow>
   seg (h(b := (h b)\<lparr>tm_prev := q'\<rparr>)) q' p (b # ys) r e"
  by auto

section \<open>The operations on the lists\<close>

definition due :: "timer_state \<Rightarrow> u64 \<Rightarrow> u64 \<Rightarrow> bool" where
  "due ts to t \<longleftrightarrow> tm_timeout (nb__allocated_timers ts t) \<le> to"

lemma insert_walk_seg:
  "seg (nb__allocated_timers ts) q p xs r 0 \<Longrightarrow>
   insert_walk ts to q p =
     Some (Inr (if takeWhile (due ts to) xs = [] then q else last (takeWhile (due ts to) xs),
                if dropWhile (due ts to) xs = [] then 0 else hd (dropWhile (due ts to) xs)))"
proof (induction xs arbitrary: q p)
  case Nil
  then show ?case by (subst insert_walk.simps) simp
next
  case (Cons x xs)
  from Cons.prems have x: "p = x" "valid_timer x" "x \<noteq> 0"
    and xs: "seg (nb__allocated_timers ts) x (tm_next (nb__allocated_timers ts x)) xs r 0"
    by auto
  show ?case
  proof (cases "due ts to x")
    case True
    have "insert_walk ts to q p = insert_walk ts to x (tm_next (nb__allocated_timers ts x))"
      using x True by (subst insert_walk.simps) (simp add: due_def leD)
    with Cons.IH [OF xs] True show ?thesis by simp
  next
    case False
    then have "to < tm_timeout (nb__allocated_timers ts x)" by (simp add: due_def not_le)
    with x False show ?thesis by (subst insert_walk.simps) simp
  qed
qed

lemma free_chain_cong: "(\<And>x. x \<in> set xs \<Longrightarrow> h x = h' x) \<Longrightarrow> free_chain h p xs = free_chain h' p xs"
  by (induction xs arbitrary: p) auto

lemma dropWhile_sorted_due:
  "sorted (map (\<lambda>t. tm_timeout (nb__allocated_timers ts t)) xs) \<Longrightarrow> u \<in> set (dropWhile (due ts to) xs) \<Longrightarrow>
   \<not> due ts to u"
  by (induction xs) (auto simp: due_def split: if_splits)

lemma sorted_insert_due:
  assumes "sorted (map (\<lambda>t. tm_timeout (nb__allocated_timers ts t)) xs)"
  shows "sorted (map (\<lambda>u. tm_timeout (nb__allocated_timers ts u)) (takeWhile (due ts to) xs) @
    to # map (\<lambda>u. tm_timeout (nb__allocated_timers ts u)) (dropWhile (due ts to) xs))"
proof -
  let ?f = "\<lambda>t. tm_timeout (nb__allocated_timers ts t)"
  have "sorted (map ?f (takeWhile (due ts to) xs) @ map ?f (dropWhile (due ts to) xs))"
    using assms by (metis map_append takeWhile_dropWhile_id)
  moreover have "\<forall>a \<in> set (takeWhile (due ts to) xs). ?f a \<le> to"
    by (auto simp: due_def dest: set_takeWhileD)
  moreover have "\<forall>b \<in> set (dropWhile (due ts to) xs). to \<le> ?f b"
    using dropWhile_sorted_due [OF assms, of _ to] by (auto simp: due_def not_le intro: less_imp_le)
  ultimately show ?thesis
    by (simp add: sorted_append)
qed

text \<open>The list without the time order: where \<open>nb__insert_timer\<close> links the new timer.\<close>

lemma insert_timer_links:
  assumes seg: "seg (nb__allocated_timers ts) 0 (nb__timers_head ts) (as @ bs) r 0"
    and walk: "takeWhile (due ts to) (as @ bs) = as"
    and t: "valid_timer t" "t \<notin> set (as @ bs)" and d: "distinct (as @ bs)"
  shows "\<exists>ts' r'. nb__insert_timer t to cb arg ts = Inr ts' \<and>
    seg (nb__allocated_timers ts') 0 (nb__timers_head ts') (as @ t # bs) r' 0 \<and>
    nb__timer_free_list ts' = nb__timer_free_list ts \<and>
    (\<forall>u. u \<notin> insert t (set (as @ bs)) \<longrightarrow> nb__allocated_timers ts' u = nb__allocated_timers ts u) \<and>
    (\<forall>u. u \<noteq> t \<longrightarrow> tm_timeout (nb__allocated_timers ts' u) = tm_timeout (nb__allocated_timers ts u) \<and>
       tm_callback (nb__allocated_timers ts' u) = tm_callback (nb__allocated_timers ts u) \<and>
       tm_argument (nb__allocated_timers ts' u) = tm_argument (nb__allocated_timers ts u)) \<and>
    tm_timeout (nb__allocated_timers ts' t) = to \<and> tm_callback (nb__allocated_timers ts' t) = cb \<and>
    tm_argument (nb__allocated_timers ts' t) = arg"
proof -
  let ?h = "nb__allocated_timers ts"
  let ?x = "(?h t)\<lparr>tm_callback := cb, tm_argument := arg, tm_timeout := to, tm_next := 0, tm_prev := 0\<rparr>"
  let ?ts = "ts\<lparr>nb__allocated_timers := ?h(t := ?x)\<rparr>"
  have seg': "seg (nb__allocated_timers ?ts) 0 (nb__timers_head ?ts) (as @ bs) r 0"
    using seg t(2) by simp
  have as: "takeWhile (due ?ts to) (as @ bs) = as"
    using walk t(2) by (subst takeWhile_cong [of _ "as @ bs" _ "due ts to"]) (auto simp: due_def)
  then have bs: "dropWhile (due ?ts to) (as @ bs) = bs"
    by (metis takeWhile_dropWhile_id same_append_eq)
  have walk': "insert_walk ?ts to 0 (nb__timers_head ?ts) =
      Some (Inr (if as = [] then 0 else last as, if bs = [] then 0 else hd bs))"
    using insert_walk_seg [OF seg', of to] as bs by simp
  have valid: "valid_timer u" if "u \<in> set (as @ bs)" for u
    using seg_valid [OF seg that] .
  then have nz: "0 \<notin> set (as @ bs)"
    by (metis valid_timer_nonzero)
  show ?thesis
  proof (cases as rule: rev_cases)
    case Nil
    then show ?thesis
      using walk' t seg valid d nz
      by (cases bs) (auto simp: nb__insert_timer_def)
  next
    case (snoc as' a)
    then show ?thesis
      using walk' t seg valid d nz
      by (cases bs) (auto simp: nb__insert_timer_def seg_append)
  qed
qed

lemma insert_timer_inv:
  assumes inv: "timer_inv ts xs fs" and t: "valid_timer t" "t \<notin> set xs" "t \<notin> set fs"
  shows "\<exists>ts'. nb__insert_timer t to cb arg ts = Inr ts' \<and>
    timer_inv ts' (takeWhile (due ts to) xs @ t # dropWhile (due ts to) xs) fs \<and>
    tm_timeout (nb__allocated_timers ts' t) = to \<and> tm_callback (nb__allocated_timers ts' t) = cb \<and>
    tm_argument (nb__allocated_timers ts' t) = arg \<and>
    (\<forall>u. u \<noteq> t \<longrightarrow> tm_timeout (nb__allocated_timers ts' u) = tm_timeout (nb__allocated_timers ts u) \<and>
       tm_callback (nb__allocated_timers ts' u) = tm_callback (nb__allocated_timers ts u) \<and>
       tm_argument (nb__allocated_timers ts' u) = tm_argument (nb__allocated_timers ts u))"
proof -
  let ?as = "takeWhile (due ts to) xs" and ?bs = "dropWhile (due ts to) xs"
  from inv obtain r where seg: "seg (nb__allocated_timers ts) 0 (nb__timers_head ts) (?as @ ?bs) r 0"
    by (auto simp: timer_inv_def)
  have d: "distinct (?as @ ?bs)" and fs: "free_chain (nb__allocated_timers ts) (nb__timer_free_list ts) fs"
    and df: "distinct (xs @ fs)" and so: "sorted (map (\<lambda>t. tm_timeout (nb__allocated_timers ts t)) xs)"
    using inv by (auto simp: timer_inv_def)
  obtain ts' r' where ts': "nb__insert_timer t to cb arg ts = Inr ts'"
    "seg (nb__allocated_timers ts') 0 (nb__timers_head ts') (?as @ t # ?bs) r' 0"
    "nb__timer_free_list ts' = nb__timer_free_list ts"
    and same: "\<forall>u. u \<notin> insert t (set (?as @ ?bs)) \<longrightarrow> nb__allocated_timers ts' u = nb__allocated_timers ts u"
    and data: "\<forall>u. u \<noteq> t \<longrightarrow> tm_timeout (nb__allocated_timers ts' u) = tm_timeout (nb__allocated_timers ts u) \<and>
       tm_callback (nb__allocated_timers ts' u) = tm_callback (nb__allocated_timers ts u) \<and>
       tm_argument (nb__allocated_timers ts' u) = tm_argument (nb__allocated_timers ts u)"
    and new: "tm_timeout (nb__allocated_timers ts' t) = to" "tm_callback (nb__allocated_timers ts' t) = cb"
    "tm_argument (nb__allocated_timers ts' t) = arg"
    using insert_timer_links [OF seg _ t(1) _ d, of to cb arg] t(2) by auto
  have "free_chain (nb__allocated_timers ts') (nb__timer_free_list ts') fs"
    using fs df same t(3) unfolding ts'(3)
    by (subst free_chain_cong) (auto simp: takeWhile_dropWhile_id)
  moreover have "sorted (map (\<lambda>u. tm_timeout (nb__allocated_timers ts' u)) (?as @ t # ?bs))"
  proof -
    have "map (\<lambda>u. tm_timeout (nb__allocated_timers ts' u)) (?as @ t # ?bs) =
        map (\<lambda>u. tm_timeout (nb__allocated_timers ts u)) ?as @ to # map (\<lambda>u. tm_timeout (nb__allocated_timers ts u)) ?bs"
      using data new t(2) by (auto dest: set_takeWhileD set_dropWhileD)
    then show ?thesis
      using sorted_insert_due [OF so, of to] by (simp only:)
  qed
  moreover have "set ?as \<inter> set ?bs = {}"
    using d unfolding distinct_append by blast
  then have "distinct ((?as @ t # ?bs) @ fs)"
    using df t by (auto dest: set_takeWhileD set_dropWhileD)
  ultimately show ?thesis
    using ts' data new by (auto simp: timer_inv_def)
qed

lemma remove_timer_links:
  assumes seg: "seg (nb__allocated_timers ts) 0 (nb__timers_head ts) (as @ t # bs) r 0"
    and d: "distinct (as @ t # bs)"
  shows "\<exists>ts' r'. nb__remove_timer t ts = Inr ts' \<and>
    seg (nb__allocated_timers ts') 0 (nb__timers_head ts') (as @ bs) r' 0 \<and>
    nb__timer_free_list ts' = nb__timer_free_list ts \<and>
    (\<forall>u. u \<notin> set (as @ t # bs) \<longrightarrow> nb__allocated_timers ts' u = nb__allocated_timers ts u) \<and>
    (\<forall>u. u \<noteq> t \<longrightarrow> tm_timeout (nb__allocated_timers ts' u) = tm_timeout (nb__allocated_timers ts u) \<and>
       tm_callback (nb__allocated_timers ts' u) = tm_callback (nb__allocated_timers ts u) \<and>
       tm_argument (nb__allocated_timers ts' u) = tm_argument (nb__allocated_timers ts u)) \<and>
    tm_callback (nb__allocated_timers ts' t) = tm_callback (nb__allocated_timers ts t) \<and>
    tm_argument (nb__allocated_timers ts' t) = tm_argument (nb__allocated_timers ts t)"
proof -
  have valid: "valid_timer u" if "u \<in> set (as @ t # bs)" for u
    using seg_valid [OF seg that] .
  then have nz: "0 \<notin> set (as @ t # bs)"
    by (metis valid_timer_nonzero)
  let ?h = "nb__allocated_timers ts"
  have links: "tm_prev (?h t) = (if as = [] then 0 else last as)" "tm_next (?h t) = (if bs = [] then 0 else hd bs)"
    "as \<noteq> [] \<Longrightarrow> tm_next (?h (last as)) = t" "bs \<noteq> [] \<Longrightarrow> tm_prev (?h (hd bs)) = t"
    using seg by (cases as rule: rev_cases; cases bs; force simp: seg_append)+
  show ?thesis
  proof (cases as rule: rev_cases)
    case Nil
    then show ?thesis
      using seg valid d nz links by (cases bs) (simp_all add: nb__remove_timer_def, blast?)
  next
    case (snoc as' a)
    then show ?thesis
      using seg valid d nz links by (cases bs) (simp_all add: nb__remove_timer_def seg_append, blast?)
  qed
qed

lemma remove_timer_inv:
  assumes inv: "timer_inv ts xs fs" and t: "t \<in> set xs"
  shows "\<exists>ts'. nb__remove_timer t ts = Inr ts' \<and> timer_inv ts' (remove1 t xs) fs \<and>
    (\<forall>u. u \<noteq> t \<longrightarrow> tm_timeout (nb__allocated_timers ts' u) = tm_timeout (nb__allocated_timers ts u) \<and>
       tm_callback (nb__allocated_timers ts' u) = tm_callback (nb__allocated_timers ts u) \<and>
       tm_argument (nb__allocated_timers ts' u) = tm_argument (nb__allocated_timers ts u)) \<and>
    tm_callback (nb__allocated_timers ts' t) = tm_callback (nb__allocated_timers ts t) \<and>
    tm_argument (nb__allocated_timers ts' t) = tm_argument (nb__allocated_timers ts t)"
proof -
  from t obtain as bs where xs: "xs = as @ t # bs" by (meson split_list)
  from inv obtain r where seg: "seg (nb__allocated_timers ts) 0 (nb__timers_head ts) (as @ t # bs) r 0"
    and d: "distinct (as @ t # bs)" and fs: "free_chain (nb__allocated_timers ts) (nb__timer_free_list ts) fs"
    and df: "distinct (xs @ fs)" and so: "sorted (map (\<lambda>t. tm_timeout (nb__allocated_timers ts t)) xs)"
    by (auto simp: timer_inv_def xs)
  obtain ts' r' where ts': "nb__remove_timer t ts = Inr ts'"
    "seg (nb__allocated_timers ts') 0 (nb__timers_head ts') (as @ bs) r' 0"
    "nb__timer_free_list ts' = nb__timer_free_list ts"
    and same: "\<forall>u. u \<notin> set (as @ t # bs) \<longrightarrow> nb__allocated_timers ts' u = nb__allocated_timers ts u"
    and data: "\<forall>u. u \<noteq> t \<longrightarrow> tm_timeout (nb__allocated_timers ts' u) = tm_timeout (nb__allocated_timers ts u) \<and>
       tm_callback (nb__allocated_timers ts' u) = tm_callback (nb__allocated_timers ts u) \<and>
       tm_argument (nb__allocated_timers ts' u) = tm_argument (nb__allocated_timers ts u)"
    and old: "tm_callback (nb__allocated_timers ts' t) = tm_callback (nb__allocated_timers ts t)"
    "tm_argument (nb__allocated_timers ts' t) = tm_argument (nb__allocated_timers ts t)"
    using remove_timer_links [OF seg d] by blast
  have rem: "remove1 t xs = as @ bs"
    using d by (simp add: xs remove1_append)
  have "free_chain (nb__allocated_timers ts') (nb__timer_free_list ts') fs"
    using fs df same unfolding ts'(3) by (subst free_chain_cong) (auto simp: xs)
  moreover have "map (\<lambda>u. tm_timeout (nb__allocated_timers ts' u)) (as @ bs) =
      map (\<lambda>u. tm_timeout (nb__allocated_timers ts u)) (as @ bs)"
    using data d by auto
  moreover have "sorted (map (\<lambda>u. tm_timeout (nb__allocated_timers ts u)) (as @ bs))"
    using so unfolding xs by (simp add: sorted_append)
  ultimately have "timer_inv ts' (remove1 t xs) fs"
    using ts'(2) df unfolding timer_inv_def rem by (simp only:) (auto simp: xs)
  with ts'(1) data old show ?thesis by blast
qed

lemma alloc_timer_inv:
  "timer_inv ts xs (f # fs) \<Longrightarrow>
     nb__alloc_timer ts = Inr (f, ts\<lparr>nb__timer_free_list := tm_next (nb__allocated_timers ts f)\<rparr>) \<and>
     timer_inv (ts\<lparr>nb__timer_free_list := tm_next (nb__allocated_timers ts f)\<rparr>) xs fs"
  "timer_inv ts xs [] \<Longrightarrow> nb__alloc_timer ts = Inr (0, ts)"
  by (auto simp: timer_inv_def nb__alloc_timer_def Let_def)

lemma tm_timeout_upd_next: "tm_timeout ((h(t := (h t)\<lparr>tm_next := n\<rparr>)) u) = tm_timeout (h u)"
  by simp

lemma return_timer_inv:
  assumes "timer_inv ts xs fs" "valid_timer t" "t \<notin> set xs" "t \<notin> set fs"
  shows "\<exists>ts'. nb__return_timer t ts = Inr ts' \<and> timer_inv ts' xs (t # fs)"
  using assms
  by (auto simp: timer_inv_def nb__return_timer_def tm_timeout_upd_next simp del: fun_upd_apply) simp

lemma unat_timer_ptr: "i < MAX_TIMER_ALLOCS \<Longrightarrow> unat (timer_ptr i) = i + 1"
  by (simp add: timer_ptr_def MAX_TIMER_ALLOCS_def unat_of_nat del: of_nat_add of_nat_Suc)

lemma valid_timer_ptr: "i < MAX_TIMER_ALLOCS \<Longrightarrow> valid_timer (timer_ptr i)"
  by (metis Suc_eq_plus1 Suc_leI nat.distinct(1) unat_0 unat_timer_ptr valid_timer_def)

lemma valid_timer_iff: "valid_timer p \<longleftrightarrow> p \<in> timer_ptr ` {..<MAX_TIMER_ALLOCS}"
proof
  assume p: "valid_timer p"
  then have "0 < unat p" "unat p \<le> MAX_TIMER_ALLOCS"
    by (auto simp: valid_timer_def unat_gt_0)
  then show "p \<in> timer_ptr ` {..<MAX_TIMER_ALLOCS}"
    by (intro image_eqI [of _ _ "unat p - 1"]) (auto simp: timer_ptr_def)
qed (auto intro: valid_timer_ptr)

lemma timer_ptr_inj: "i < MAX_TIMER_ALLOCS \<Longrightarrow> j < MAX_TIMER_ALLOCS \<Longrightarrow> timer_ptr i = timer_ptr j \<longleftrightarrow> i = j"
  using unat_timer_ptr by (metis add_right_cancel)

lemma init_timers_chain:
  assumes "n < MAX_TIMER_ALLOCS"
  shows "\<exists>h. foldE (\<lambda>ts i. t_upd (timer_ptr i) (\<lambda>x. x\<lparr>tm_next := timer_ptr (i + 1)\<rparr>) ts) ts [0..<n] =
      Inr (ts\<lparr>nb__allocated_timers := h\<rparr>) \<and>
    (\<forall>i < n. tm_next (h (timer_ptr i)) = timer_ptr (i + 1))"
  using assms
proof (induction n)
  case 0
  then show ?case by (auto intro: exI [of _ "nb__allocated_timers ts"])
next
  case (Suc n)
  then obtain h where h: "foldE (\<lambda>ts i. t_upd (timer_ptr i) (\<lambda>x. x\<lparr>tm_next := timer_ptr (i + 1)\<rparr>) ts) ts [0..<n] =
      Inr (ts\<lparr>nb__allocated_timers := h\<rparr>)"
    "\<forall>i < n. tm_next (h (timer_ptr i)) = timer_ptr (i + 1)"
    by auto
  have "valid_timer (timer_ptr n)"
    using Suc.prems by (simp add: valid_timer_ptr)
  with h Suc.prems show ?case
    by (auto intro!: exI [of _ "h(timer_ptr n := (h (timer_ptr n))\<lparr>tm_next := timer_ptr (n + 1)\<rparr>)"]
        simp: foldE_append less_Suc_eq timer_ptr_inj)
qed

lemma free_chain_ptrs:
  assumes "\<forall>i < MAX_TIMER_ALLOCS - 1. tm_next (h (timer_ptr i)) = timer_ptr (i + 1)"
    and "tm_next (h (timer_ptr (MAX_TIMER_ALLOCS - 1))) = 0" and "k < MAX_TIMER_ALLOCS"
  shows "free_chain h (timer_ptr k) (map timer_ptr [k..<MAX_TIMER_ALLOCS])"
  using assms(3)
proof (induction "MAX_TIMER_ALLOCS - k" arbitrary: k)
  case 0
  then show ?case by simp
next
  case (Suc n)
  show ?case
  proof (cases "k = MAX_TIMER_ALLOCS - 1")
    case True
    with assms(2) Suc.prems show ?thesis
      by (simp add: upt_conv_Cons valid_timer_ptr MAX_TIMER_ALLOCS_def)
  next
    case False
    with Suc have "free_chain h (timer_ptr (k + 1)) (map timer_ptr [k + 1..<MAX_TIMER_ALLOCS])"
      by auto
    with False Suc.prems assms(1) show ?thesis
      by (simp add: upt_conv_Cons valid_timer_ptr)
  qed
qed

lemma init_timers_inv:
  assumes "nb__timers_head ts = 0"
  shows "\<exists>ts'. nb__init_timers now ts = Inr ts' \<and> timer_inv ts' [] (map timer_ptr [0..<MAX_TIMER_ALLOCS])"
proof -
  let ?ts = "ts\<lparr>nb__timer_free_list := timer_ptr 0\<rparr>"
  obtain h where h: "foldE (\<lambda>ts i. t_upd (timer_ptr i) (\<lambda>x. x\<lparr>tm_next := timer_ptr (i + 1)\<rparr>) ts) ?ts
      [0..<MAX_TIMER_ALLOCS - 1] = Inr (?ts\<lparr>nb__allocated_timers := h\<rparr>)"
    "\<forall>i < MAX_TIMER_ALLOCS - 1. tm_next (h (timer_ptr i)) = timer_ptr (i + 1)"
    using init_timers_chain [of "MAX_TIMER_ALLOCS - 1" ?ts] by (auto simp: MAX_TIMER_ALLOCS_def)
  let ?l = "timer_ptr (MAX_TIMER_ALLOCS - 1)"
  have l: "valid_timer ?l" by (rule valid_timer_ptr) (simp add: MAX_TIMER_ALLOCS_def)
  have "free_chain (h(?l := (h ?l)\<lparr>tm_next := 0\<rparr>)) (timer_ptr 0) (map timer_ptr [0..<MAX_TIMER_ALLOCS])"
    using h(2) by (intro free_chain_ptrs) (auto simp: timer_ptr_inj MAX_TIMER_ALLOCS_def)
  moreover have "distinct (map timer_ptr [0..<MAX_TIMER_ALLOCS])"
    by (auto simp: distinct_map inj_on_def timer_ptr_inj)
  ultimately show ?thesis
    using h(1) l assms by (simp add: nb__init_timers_def timer_inv_def)
qed

section \<open>The timer pool\<close>

text \<open>
  Runs of a client that follows the protocol of the pool. \<open>R\<close> are the running timers,
  \<open>H\<close> those the client holds: it inserts and returns only timers it holds and removes only
  running ones.
\<close>

inductive timer_reach :: "timer_state \<Rightarrow> u64 set \<Rightarrow> u64 set \<Rightarrow> bool" where
  tr_init: "nb__timers_head ts = 0 \<Longrightarrow> nb__init_timers now ts = Inr ts' \<Longrightarrow> timer_reach ts' {} {}"
| tr_alloc: "timer_reach ts R H \<Longrightarrow> nb__alloc_timer ts = Inr (t, ts') \<Longrightarrow>
    timer_reach ts' R (if t = 0 then H else insert t H)"
| tr_insert: "timer_reach ts R H \<Longrightarrow> t \<in> H \<Longrightarrow> nb__insert_timer t to cb arg ts = Inr ts' \<Longrightarrow>
    timer_reach ts' (insert t R) (H - {t})"
| tr_remove: "timer_reach ts R H \<Longrightarrow> t \<in> R \<Longrightarrow> nb__remove_timer t ts = Inr ts' \<Longrightarrow>
    timer_reach ts' (R - {t}) (insert t H)"
| tr_return: "timer_reach ts R H \<Longrightarrow> t \<in> H \<Longrightarrow> nb__return_timer t ts = Inr ts' \<Longrightarrow>
    timer_reach ts' R (H - {t})"

definition pool_inv :: "timer_state \<Rightarrow> u64 set \<Rightarrow> u64 set \<Rightarrow> bool" where
  "pool_inv ts R H \<longleftrightarrow> (\<exists>xs fs. timer_inv ts xs fs \<and> set xs = R \<and> R \<inter> H = {} \<and>
     H \<subseteq> Collect valid_timer \<and> set fs = Collect valid_timer - R - H)"

lemma pool_invI:
  "timer_inv ts xs fs \<Longrightarrow> set xs = R \<Longrightarrow> R \<inter> H = {} \<Longrightarrow> H \<subseteq> Collect valid_timer \<Longrightarrow>
   set fs = Collect valid_timer - R - H \<Longrightarrow> pool_inv ts R H"
  unfolding pool_inv_def by blast

lemma timer_inv_valid: "timer_inv ts xs fs \<Longrightarrow> set xs \<subseteq> Collect valid_timer \<and> set fs \<subseteq> Collect valid_timer"
  by (auto simp: timer_inv_def dest: seg_valid free_chain_valid)

lemma pool_inv_alloc:
  assumes "pool_inv ts R H"
  shows "\<exists>t ts'. nb__alloc_timer ts = Inr (t, ts') \<and> pool_inv ts' R (if t = 0 then H else insert t H) \<and>
    t \<notin> R \<union> H \<and> (t = 0 \<longleftrightarrow> R \<union> H = Collect valid_timer)"
proof -
  from assms obtain xs fs where inv: "timer_inv ts xs fs" "set xs = R" "R \<inter> H = {}" "H \<subseteq> Collect valid_timer"
    "set fs = Collect valid_timer - R - H"
    by (auto simp: pool_inv_def)
  show ?thesis
  proof (cases fs)
    case Nil
    with inv timer_inv_valid [OF inv(1)] have "R \<union> H = Collect valid_timer" by auto
    with inv Nil show ?thesis
      using alloc_timer_inv(2) [of ts xs] assms by auto
  next
    case (Cons f fs')
    then have f: "valid_timer f" "f \<notin> R" "f \<notin> H" using inv(5) by auto
    then have "f \<noteq> 0" by auto
    from inv(1) Cons have "distinct (f # fs')" by (simp add: timer_inv_def)
    with Cons inv(5) have "set fs' = Collect valid_timer - R - insert f H" by auto
    with inv f have "pool_inv (ts\<lparr>nb__timer_free_list := tm_next (nb__allocated_timers ts f)\<rparr>) R (insert f H)"
      using alloc_timer_inv(1) [of ts xs f fs'] Cons by (intro pool_invI) auto
    with f \<open>f \<noteq> 0\<close> show ?thesis
      using alloc_timer_inv(1) [of ts xs f fs'] inv(1) Cons by auto
  qed
qed

lemma pool_inv_insert:
  assumes "pool_inv ts R H" "t \<in> H"
  shows "\<exists>ts'. nb__insert_timer t to cb arg ts = Inr ts' \<and> pool_inv ts' (insert t R) (H - {t})"
proof -
  from assms obtain xs fs where inv: "timer_inv ts xs fs" "set xs = R" "R \<inter> H = {}" "H \<subseteq> Collect valid_timer"
    "set fs = Collect valid_timer - R - H"
    by (auto simp: pool_inv_def)
  have t: "valid_timer t" "t \<notin> set xs" "t \<notin> set fs" using assms(2) inv by auto
  have "set (takeWhile (due ts to) xs @ t # dropWhile (due ts to) xs) = insert t R"
    using inv(2) by (metis Un_insert_right list.simps(15) set_append takeWhile_dropWhile_id)
  moreover obtain ts' where "nb__insert_timer t to cb arg ts = Inr ts'"
    "timer_inv ts' (takeWhile (due ts to) xs @ t # dropWhile (due ts to) xs) fs"
    using insert_timer_inv [OF inv(1) t, of to cb arg] by blast
  ultimately show ?thesis
    using inv(3-5) assms(2) t(1) by (intro exI [of _ ts'] conjI pool_invI) auto
qed

lemma pool_inv_remove:
  assumes "pool_inv ts R H" "t \<in> R"
  shows "\<exists>ts'. nb__remove_timer t ts = Inr ts' \<and> pool_inv ts' (R - {t}) (insert t H)"
proof -
  from assms obtain xs fs where inv: "timer_inv ts xs fs" "set xs = R" "R \<inter> H = {}" "H \<subseteq> Collect valid_timer"
    "set fs = Collect valid_timer - R - H"
    by (auto simp: pool_inv_def)
  have "distinct xs" using inv(1) by (simp add: timer_inv_def)
  then have "set (remove1 t xs) = R - {t}" using inv(2) by simp
  moreover have "valid_timer t" using timer_inv_valid [OF inv(1)] inv(2) assms(2) by auto
  moreover obtain ts' where "nb__remove_timer t ts = Inr ts'" "timer_inv ts' (remove1 t xs) fs"
    using remove_timer_inv [OF inv(1), of t] inv(2) assms(2) by blast
  ultimately show ?thesis
    using inv(3-5) assms(2) by (intro exI [of _ ts'] conjI pool_invI) auto
qed

lemma pool_inv_return:
  assumes "pool_inv ts R H" "t \<in> H"
  shows "\<exists>ts'. nb__return_timer t ts = Inr ts' \<and> pool_inv ts' R (H - {t})"
proof -
  from assms obtain xs fs where inv: "timer_inv ts xs fs" "set xs = R" "R \<inter> H = {}" "H \<subseteq> Collect valid_timer"
    "set fs = Collect valid_timer - R - H"
    by (auto simp: pool_inv_def)
  have t: "valid_timer t" "t \<notin> set xs" "t \<notin> set fs" using assms(2) inv by auto
  have "set (t # fs) = Collect valid_timer - R - (H - {t})" using inv t by auto
  moreover obtain ts' where "nb__return_timer t ts = Inr ts'" "timer_inv ts' xs (t # fs)"
    using return_timer_inv [OF inv(1) t] by blast
  ultimately show ?thesis
    using inv(2-4) by (intro exI [of _ ts'] conjI pool_invI) auto
qed

lemma timer_reach_inv: "timer_reach ts R H \<Longrightarrow> pool_inv ts R H"
proof (induction rule: timer_reach.induct)
  case (tr_init ts now ts')
  then have "timer_inv ts' [] (map timer_ptr [0..<MAX_TIMER_ALLOCS])"
    using init_timers_inv [of ts now] by auto
  moreover have "set (map timer_ptr [0..<MAX_TIMER_ALLOCS]) = Collect valid_timer"
    using valid_timer_iff by (auto simp: lessThan_def)
  ultimately show ?case
    by (intro pool_invI) auto
next
  case (tr_alloc ts R H t ts')
  then show ?case using pool_inv_alloc [of ts R H] by auto
next
  case (tr_insert ts R H t to cb arg ts')
  then show ?case using pool_inv_insert [of ts R H t to cb arg] by auto
next
  case (tr_remove ts R H t ts')
  then show ?case using pool_inv_remove [of ts R H t] by auto
next
  case (tr_return ts R H t ts')
  then show ?case using pool_inv_return [of ts R H t] by auto
qed

text \<open>
  C9. \<open>nb__insert_timer\<close> puts a timer that is in no list behind all running timers with
  the same or an earlier timeout and before the others: the doubly linked list stays well linked
  and in the order of the timeouts, the other timers and the free list are unchanged. The search
  loop ends.
\<close>

theorem insert_timer_sorted:
  assumes inv: "timer_inv ts xs fs" and t: "valid_timer t" "t \<notin> set xs" "t \<notin> set fs"
  shows "\<exists>ts'. nb__insert_timer t to cb arg ts = Inr ts' \<and>
    timer_inv ts' (takeWhile (due ts to) xs @ t # dropWhile (due ts to) xs) fs \<and>
    tm_timeout (nb__allocated_timers ts' t) = to \<and> tm_callback (nb__allocated_timers ts' t) = cb \<and>
    tm_argument (nb__allocated_timers ts' t) = arg \<and>
    (\<forall>u. u \<noteq> t \<longrightarrow> tm_timeout (nb__allocated_timers ts' u) = tm_timeout (nb__allocated_timers ts u) \<and>
       tm_callback (nb__allocated_timers ts' u) = tm_callback (nb__allocated_timers ts u) \<and>
       tm_argument (nb__allocated_timers ts' u) = tm_argument (nb__allocated_timers ts u))"
  using assms by (rule insert_timer_inv)

text \<open>
  C10. In every state a client of the timers can reach, each of the 1024 timers is in exactly one
  place: in the running list, which is in order of the timeouts, on the free list, or with the
  client. No operation fails, \<open>nb__alloc_timer\<close> never returns a timer that is in use, and
  it returns null exactly when no timer is free.
\<close>

theorem timer_pool_safe:
  assumes "timer_reach ts R H"
  shows "pool_inv ts R H \<and>
    (\<exists>t ts'. nb__alloc_timer ts = Inr (t, ts') \<and> t \<notin> R \<union> H \<and> (t = 0 \<longleftrightarrow> R \<union> H = Collect valid_timer)) \<and>
    (\<forall>t \<in> H. \<forall>to cb arg. \<exists>ts'. nb__insert_timer t to cb arg ts = Inr ts') \<and>
    (\<forall>t \<in> R. \<exists>ts'. nb__remove_timer t ts = Inr ts') \<and>
    (\<forall>t \<in> H. \<exists>ts'. nb__return_timer t ts = Inr ts')"
proof -
  have inv: "pool_inv ts R H" using assms by (rule timer_reach_inv)
  show ?thesis
    using inv pool_inv_alloc [OF inv] pool_inv_insert [OF inv] pool_inv_remove [OF inv] pool_inv_return [OF inv]
    by blast
qed

end
