(* ===== verification/NB_State.thy ===== *)
theory NB_State
  imports Framework Packet_Fields Data_Queue Timer
begin

unbundle bit_operations_syntax

text \<open>
  The state of a node that runs the generated protocol code: packet buffers, connections
  (\<open>nb__connection_t\<close>, the members that the modules register in \<open>conn_layout\<close>),
  the network state (\<open>nb__net_state_t\<close>, registered in \<open>net_state\<close>), the timers
  and the globals of \<open>runtime/nb_runtime.c\<close>; the configuration of the modules
  (\<open>include/modules\<close>); and the environment the code is linked with: the layout, the
  registered modules, \<open>malloc\<close>, the clock, a transport and the callbacks of the
  application. The operations of the later theories are functions on this state.
\<close>

section \<open>Configuration of the modules\<close>

datatype module_id =
    Payload_Module | Signaling_Module | Inorder_Module | Reliable_Module | Identifier_Module
  | Signaling_Module_After | Routing_Module | Checksum_Module | Network_Module

datatype flow_identifier_t = dst_identifiers_only | src_dst_identifier
datatype inorder_strategy_t = drop_out_of_order | hold_forever | no_inorder
datatype checksum_type_t = full_packet | header_only

record nb_config =
  compat_level :: compat_level_t
  flow_identifier :: flow_identifier_t
  host_range_min :: u64
  host_range_max :: u64
  app_range_min :: u16
  app_range_max :: u16
  max_packet_len :: u32
  signaling_is_enabled :: bool
  inorder_strategy :: inorder_strategy_t
  reliable_is_enabled :: bool
  routing_is_enabled :: bool
  checksum_is_enabled :: bool
  checksum_type :: checksum_type_t

text \<open>\<open>signaling_state_t\<close>, kept in an \<open>int\<close> of the connection.\<close>

definition WAITING_FOR_SIGNAL :: int where "WAITING_FOR_SIGNAL = 0"
definition SIGNALED :: int where "SIGNALED = 1"
definition SIGNAL_HANDLED :: int where "SIGNAL_HANDLED = 2"
definition SIGNAL_NA :: int where "SIGNAL_NA = 3"

definition QUEUE_EVENT_ESTABLISHED :: nat where "QUEUE_EVENT_ESTABLISHED = 0"
definition QUEUE_EVENT_READ_READY :: nat where "QUEUE_EVENT_READ_READY = 1"
definition QUEUE_EVENT_ACCEPT_READY :: nat where "QUEUE_EVENT_ACCEPT_READY = 2"

definition MAX_ACTIVE_CONNECTIONS :: nat where "MAX_ACTIVE_CONNECTIONS = 512"
definition INORDER_BUFFER_SIZE :: nat where "INORDER_BUFFER_SIZE = 32"
definition REDELIVERY_BUFFER_SIZE :: nat where "REDELIVERY_BUFFER_SIZE = 32"
definition REDELIVERY_TIMEOUT_MS :: u64 where "REDELIVERY_TIMEOUT_MS = 50"
definition WILDCARD_APP_ID :: u32 where "WILDCARD_APP_ID = 0"
definition nb__wildcard_host_identifier :: u64 where "nb__wildcard_host_identifier = 0"

section \<open>Connections and the state of a node\<close>

text \<open>
  The members that the modules register in \<open>conn_layout\<close>. The two queues are allocated
  with the connection and freed with it, and no other pointer to them exists, so they are part of
  the record.
\<close>

record nb__connection_t =
  callback_f :: u64
  user_data :: u64
  remote_host_id :: u64
  remote_app_id :: u32
  local_app_id :: u32
  input_queue :: data_queue_t
  accept_queue :: accept_queue_t
  last_sent_sequence :: u32
  last_recv_sequence :: u32
  inorder_buffer :: "u64 list"
  max_ooo_sequence :: u32
  redelivery_buffer :: "u64 list"
  first_unacked_seq :: u32
  signaling_state :: int
  conn_dst_global_id :: u32

record routing_table_entry =
  global_id :: u32
  local_id :: u64

text \<open>
  \<open>'t\<close> is the state of the transport, \<open>'a\<close> the state of the application that
  the callbacks change. \<open>bufs\<close> and \<open>conns\<close> hold the allocated packet buffers
  and connections; \<open>mallocs\<close> counts the calls of \<open>malloc\<close>.
\<close>

record ('t, 'a) nb_state =
  bufs :: "u64 \<Rightarrow> u8 list option"
  conns :: "u64 \<Rightarrow> nb__connection_t option"
  mallocs :: nat
  timers :: timer_state
  num_conn :: nat
  active_local_app_ids :: "u32 list"
  active_remote_app_ids :: "u32 list"
  active_remote_host_ids :: "u64 list"
  active_connections :: "u64 list"
  routing_table :: "routing_table_entry list option"
  routing_table_len :: nat
  nb__my_host_id :: u32
  nb__my_local_host_id :: u64
  nb__time_now :: u64
  transport_state :: 't
  app_state :: 'a

text \<open>
  What the generated code is linked with. \<open>malloc_addr n\<close> is the address that call
  \<open>n\<close> of \<open>malloc\<close> returns, \<open>malloc_byte\<close>,
  \<open>malloc_conn\<close> its uninitialised contents; \<open>clock_ms\<close> the monotonic clock in
  milliseconds. The three transport functions are those of the transport the program is linked
  with, \<open>run_callback f event c\<close> is the call of the application's function at
  \<open>f\<close>.
\<close>

record ('t, 'a) nb_env =
  cfg :: nb_config
  net_packet :: dynamic_layout
  m_registered_modules :: "module_id list"
  malloc_addr :: "nat \<Rightarrow> u64"
  malloc_byte :: "nat \<Rightarrow> nat \<Rightarrow> u8"
  malloc_conn :: "nat \<Rightarrow> nb__connection_t"
  clock_ms :: "('t, 'a) nb_state \<Rightarrow> u64"
  request_send_buffer :: "('t, 'a) nb_state \<Rightarrow> (u64 \<times> ('t, 'a) nb_state) res"
  send_packet :: "u8 list \<Rightarrow> ('t, 'a) nb_state \<Rightarrow> (int \<times> ('t, 'a) nb_state) res"
  poll_packet :: "nat \<Rightarrow> ('t, 'a) nb_state \<Rightarrow> ((u64 \<times> int) \<times> ('t, 'a) nb_state) res"
  run_callback :: "u64 \<Rightarrow> nat \<Rightarrow> u64 \<Rightarrow> ('t, 'a) nb_state \<Rightarrow> ('t, 'a) nb_state res"

section \<open>Accesses through pointers\<close>

definition conn_get :: "('t, 'a) nb_state \<Rightarrow> u64 \<Rightarrow> nb__connection_t res" where
  "conn_get s c = (if c = 0 then Inl Null_Deref else of_option Bad_Pointer (conns s c))"

definition conn_updE ::
  "u64 \<Rightarrow> (nb__connection_t \<Rightarrow> nb__connection_t res) \<Rightarrow> ('t, 'a) nb_state \<Rightarrow> ('t, 'a) nb_state res" where
  "conn_updE c f s =
     bindE (conn_get s c) (\<lambda>x. bindE (f x) (\<lambda>y. Inr (s\<lparr>conns := (conns s)(c \<mapsto> y)\<rparr>)))"

definition conn_upd ::
  "u64 \<Rightarrow> (nb__connection_t \<Rightarrow> nb__connection_t) \<Rightarrow> ('t, 'a) nb_state \<Rightarrow> ('t, 'a) nb_state res" where
  "conn_upd c f s = conn_updE c (\<lambda>x. Inr (f x)) s"

definition buf_get :: "('t, 'a) nb_state \<Rightarrow> u64 \<Rightarrow> u8 list res" where
  "buf_get s p = (if p = 0 then Inl Null_Deref else of_option Bad_Pointer (bufs s p))"

definition buf_updE :: "u64 \<Rightarrow> (u8 list \<Rightarrow> u8 list res) \<Rightarrow> ('t, 'a) nb_state \<Rightarrow> ('t, 'a) nb_state res" where
  "buf_updE p f s =
     bindE (buf_get s p) (\<lambda>b. bindE (f b) (\<lambda>b'. Inr (s\<lparr>bufs := (bufs s)(p \<mapsto> b')\<rparr>)))"

text \<open>\<open>net_packet[name]->get_integer(p)\<close> and \<open>net_packet[name]->set_integer(p, v)\<close>.\<close>

definition pkt_get :: "('t, 'a) nb_env \<Rightarrow> string \<Rightarrow> u64 \<Rightarrow> ('t, 'a) nb_state \<Rightarrow> u64 res" where
  "pkt_get E name p s = bindE (buf_get s p) (get_integer (net_packet E) name)"

definition pkt_set :: "('t, 'a) nb_env \<Rightarrow> string \<Rightarrow> u64 \<Rightarrow> u64 \<Rightarrow> ('t, 'a) nb_state \<Rightarrow> ('t, 'a) nb_state res" where
  "pkt_set E name p v s = buf_updE p (set_integer (net_packet E) name v) s"

text \<open>\<open>malloc\<close> of \<open>n\<close> bytes for a packet; a failed call returns null.\<close>

definition malloc_buf :: "('t, 'a) nb_env \<Rightarrow> nat \<Rightarrow> ('t, 'a) nb_state \<Rightarrow> u64 \<times> ('t, 'a) nb_state" where
  "malloc_buf E n s =
     (let k = mallocs s; p = malloc_addr E k;
          s' = s\<lparr>mallocs := k + 1\<rparr> in
      if p = 0 then (0, s')
      else (p, s'\<lparr>bufs := (bufs s')(p \<mapsto> map (malloc_byte E k) [0..<n])\<rparr>))"

text \<open>\<open>memcpy\<close> of the first \<open>n\<close> bytes of \<open>src\<close> to offset \<open>off\<close> of a buffer.\<close>

definition mem_copy :: "nat \<Rightarrow> u8 list \<Rightarrow> nat \<Rightarrow> u8 list \<Rightarrow> u8 list res" where
  "mem_copy off src n b =
     (if n \<le> length src \<and> off + n \<le> length b then Inr (take off b @ take n src @ drop (off + n) b)
      else Inl Out_Of_Bounds)"

text \<open>\<open>n\<close> bytes from offset \<open>off\<close>, as a call that reads a range of a buffer sees them.\<close>

definition buf_slice :: "nat \<Rightarrow> int \<Rightarrow> u8 list \<Rightarrow> u8 list res" where
  "buf_slice off n b =
     (if 0 \<le> n \<and> off + nat n \<le> length b then Inr (take (nat n) (drop off b)) else Inl Out_Of_Bounds)"

definition timers_updE ::
  "(timer_state \<Rightarrow> timer_state res) \<Rightarrow> ('t, 'a) nb_state \<Rightarrow> ('t, 'a) nb_state res" where
  "timers_updE f s = bindE (f (timers s)) (\<lambda>ts. Inr (s\<lparr>timers := ts\<rparr>))"

text \<open>Conversions of C: \<open>unsigned long long\<close> to \<open>int\<close>, and byte swaps on a little-endian machine.\<close>

definition ull_to_int :: "u64 \<Rightarrow> int" where
  "ull_to_int w = sint (ucast w :: u32)"

definition htons :: "u16 \<Rightarrow> u16" where
  "htons w = push_bit 8 w OR drop_bit 8 w"

definition ntohs :: "u16 \<Rightarrow> u16" where
  "ntohs w = htons w"

lemma ntohs_htons [simp]: "ntohs (htons w) = w"
  by (rule bit_word_eqI) (auto simp: ntohs_def htons_def bit_simps)

definition nb__get_time_ms_now :: "('t, 'a) nb_env \<Rightarrow> ('t, 'a) nb_state \<Rightarrow> u64 \<times> ('t, 'a) nb_state" where
  "nb__get_time_ms_now E s =
     (if nb__time_now s = - 1 then (clock_ms E s, s\<lparr>nb__time_now := clock_ms E s\<rparr>)
      else (nb__time_now s, s))"

section \<open>Rules for the accesses\<close>

lemma conn_get_eq_Inr: "conn_get s c = Inr x \<longleftrightarrow> c \<noteq> 0 \<and> conns s c = Some x"
  by (auto simp: conn_get_def resE)

lemma conn_updE_eq_Inr:
  "conn_updE c f s = Inr s' \<longleftrightarrow>
     (\<exists>x y. c \<noteq> 0 \<and> conns s c = Some x \<and> f x = Inr y \<and> s' = s\<lparr>conns := (conns s)(c \<mapsto> y)\<rparr>)"
  by (auto simp: conn_updE_def resE conn_get_eq_Inr)

lemma conn_upd_eq_Inr:
  "conn_upd c f s = Inr s' \<longleftrightarrow>
     (\<exists>x. c \<noteq> 0 \<and> conns s c = Some x \<and> s' = s\<lparr>conns := (conns s)(c \<mapsto> f x)\<rparr>)"
  by (auto simp: conn_upd_def conn_updE_eq_Inr)

lemma conn_get_ok [simp]: "conns s c = Some x \<Longrightarrow> c \<noteq> 0 \<Longrightarrow> conn_get s c = Inr x"
  by (simp add: conn_get_def)

lemma conn_upd_ok [simp]:
  "conns s c = Some x \<Longrightarrow> c \<noteq> 0 \<Longrightarrow> conn_upd c f s = Inr (s\<lparr>conns := (conns s)(c \<mapsto> f x)\<rparr>)"
  by (simp add: conn_upd_def conn_updE_def)

lemma conn_updE_ok:
  "conns s c = Some x \<Longrightarrow> c \<noteq> 0 \<Longrightarrow> f x = Inr y \<Longrightarrow>
   conn_updE c f s = Inr (s\<lparr>conns := (conns s)(c \<mapsto> y)\<rparr>)"
  by (simp add: conn_updE_def)

lemma buf_get_eq_Inr: "buf_get s p = Inr b \<longleftrightarrow> p \<noteq> 0 \<and> bufs s p = Some b"
  by (auto simp: buf_get_def resE)

lemma buf_get_ok [simp]: "bufs s p = Some b \<Longrightarrow> p \<noteq> 0 \<Longrightarrow> buf_get s p = Inr b"
  by (simp add: buf_get_def)

lemma buf_updE_eq_Inr:
  "buf_updE p f s = Inr s' \<longleftrightarrow>
     (\<exists>b b'. p \<noteq> 0 \<and> bufs s p = Some b \<and> f b = Inr b' \<and> s' = s\<lparr>bufs := (bufs s)(p \<mapsto> b')\<rparr>)"
  by (auto simp: buf_updE_def resE buf_get_eq_Inr)

lemma pkt_get_ok: "bufs s p = Some b \<Longrightarrow> p \<noteq> 0 \<Longrightarrow> pkt_get E n p s = get_integer (net_packet E) n b"
  by (simp add: pkt_get_def)

lemma pkt_set_ok:
  "bufs s p = Some b \<Longrightarrow> p \<noteq> 0 \<Longrightarrow> set_integer (net_packet E) n v b = Inr b' \<Longrightarrow>
   pkt_set E n p v s = Inr (s\<lparr>bufs := (bufs s)(p \<mapsto> b')\<rparr>)"
  by (simp add: pkt_set_def buf_updE_def)

lemma pkt_set_eq_Inr:
  "pkt_set E n p v s = Inr s' \<longleftrightarrow>
     (\<exists>b b'. p \<noteq> 0 \<and> bufs s p = Some b \<and> set_integer (net_packet E) n v b = Inr b' \<and>
        s' = s\<lparr>bufs := (bufs s)(p \<mapsto> b')\<rparr>)"
  by (simp add: pkt_set_def buf_updE_eq_Inr)

lemma pkt_get_eq_Inr:
  "pkt_get E n p s = Inr v \<longleftrightarrow> (\<exists>b. p \<noteq> 0 \<and> bufs s p = Some b \<and> get_integer (net_packet E) n b = Inr v)"
  by (auto simp: pkt_get_def resE buf_get_eq_Inr)

lemmas stateE = resE conn_get_eq_Inr conn_updE_eq_Inr conn_upd_eq_Inr buf_get_eq_Inr buf_updE_eq_Inr
  pkt_set_eq_Inr pkt_get_eq_Inr arr_get_eq_Inr arr_set_eq_Inr

section \<open>Partial correctness of the accesses\<close>

lemma okE_conn_get [okE_rules]: "(\<And>x. c \<noteq> 0 \<Longrightarrow> conns s c = Some x \<Longrightarrow> Q x) \<Longrightarrow> okE Q (conn_get s c)"
  by (simp add: okE_def conn_get_eq_Inr)

lemma okE_buf_get [okE_rules]: "(\<And>b. bufs s p = Some b \<Longrightarrow> Q b) \<Longrightarrow> okE Q (buf_get s p)"
  by (simp add: okE_def buf_get_eq_Inr)

lemma okE_pkt_get [okE_rules]: "(\<And>v. Q v) \<Longrightarrow> okE Q (pkt_get E n p s)"
  by (rule okE_any)

lemma okE_arr_get [okE_rules]: "(\<And>x. i < length xs \<Longrightarrow> x = xs ! i \<Longrightarrow> Q x) \<Longrightarrow> okE Q (arr_get xs i)"
  by (auto simp: okE_def arr_get_eq_Inr)

lemma okE_arr_set [okE_rules]: "(i < length xs \<Longrightarrow> Q (xs[i := v])) \<Longrightarrow> okE Q (arr_set xs i v)"
  by (auto simp: okE_def arr_set_eq_Inr)

lemma okE_get_headroom [okE_rules]: "(\<And>v. Q v) \<Longrightarrow> okE Q (get_headroom L)"
  by (rule okE_any)

lemma okE_get_addr [okE_rules]: "(\<And>v. Q v) \<Longrightarrow> okE Q (get_addr L n)"
  by (rule okE_any)

lemma okE_buf_slice [okE_rules]: "(\<And>v. Q v) \<Longrightarrow> okE Q (buf_slice off n b)"
  by (rule okE_any)

end
