(* ===== verification/Checksum_Module.thy ===== *)
theory Checksum_Module
  imports NB_State
begin

text \<open>
  The checksum module (\<open>src/modules/checksum_module.cpp\<close>): the sum, modulo
  \<open>2 ^ 16\<close>, of the 16-bit words from the headroom to the end of the packet, with the
  checksum member itself counted as zero. The lemmas show that a packet that was sent passes the
  check on arrival and that a change confined to one 16-bit word is detected.
\<close>

section \<open>The hooks\<close>

text \<open>The loop over \<open>ptr\<close>, from byte \<open>off\<close>, \<open>n\<close> words to go.\<close>

fun sum_words :: "nat \<Rightarrow> nat \<Rightarrow> u16 \<Rightarrow> u8 list \<Rightarrow> u16 res" where
  "sum_words off 0 checksum b = Inr checksum"
| "sum_words off (Suc n) checksum b =
     bindE (buf_read 2 off b) (\<lambda>w. sum_words (off + 2) n (checksum + ucast w) b)"

text \<open>The end of the range: \<open>eo\<close> as an \<open>int\<close>.\<close>

definition checksum_end :: "('t, 'a) nb_env \<Rightarrow> u64 \<Rightarrow> ('t, 'a) nb_state \<Rightarrow> int res" where
  "checksum_end E p s =
     (case checksum_type (cfg E) of
        full_packet \<Rightarrow>
          bindE (pkt_get E ''computed_total_len'' p s) (\<lambda>n.
          bindE (get_headroom (net_packet E)) (\<lambda>hr. Inr (ull_to_int (n + of_nat hr))))
      | header_only \<Rightarrow> bindE (get_total_size (net_packet E)) (\<lambda>ts. Inr (int ts - 1)))"

definition compute_checksum ::
  "('t, 'a) nb_env \<Rightarrow> u64 \<Rightarrow> ('t, 'a) nb_state \<Rightarrow> (u16 \<times> ('t, 'a) nb_state) res" where
  "compute_checksum E p s =
     bindE (pkt_set E ''checksum'' p 0 s) (\<lambda>s.
     bindE (get_headroom (net_packet E)) (\<lambda>so.
     bindE (checksum_end E p s) (\<lambda>eo.
     bindE (if (eo - int so) mod 2 \<noteq> 0
            then bindE (guardE (0 \<le> eo) Out_Of_Bounds) (\<lambda>_.
                 bindE (buf_updE p (\<lambda>b. arr_set b (nat eo) 0) s) (\<lambda>s. Inr (s, eo + 1)))
            else Inr (s, eo)) (\<lambda>(s, eo).
     bindE (buf_get s p) (\<lambda>b.
     bindE (sum_words so (nat (eo - int so) div 2) 0 b) (\<lambda>checksum.
     Inr (checksum, s)))))))"

definition checksum_hook_send ::
  "('t, 'a) nb_env \<Rightarrow> u64 \<Rightarrow> ('t, 'a) nb_state \<Rightarrow> (hook_status \<times> ('t, 'a) nb_state) res" where
  "checksum_hook_send E p s =
     bindE (compute_checksum E p s) (\<lambda>(checksum, s).
     bindE (pkt_set E ''checksum'' p (ucast checksum) s) (\<lambda>s.
     Inr (HOOK_CONTINUE, s)))"

definition checksum_hook_ingress ::
  "('t, 'a) nb_env \<Rightarrow> u64 \<Rightarrow> ('t, 'a) nb_state \<Rightarrow> (hook_status \<times> ('t, 'a) nb_state) res" where
  "checksum_hook_ingress E p s =
     bindE (pkt_get E ''checksum'' p s) (\<lambda>saved.
     let checksum_saved = ucast saved :: u16 in
     bindE (compute_checksum E p s) (\<lambda>(checksum, s).
     bindE (pkt_set E ''checksum'' p (ucast checksum_saved) s) (\<lambda>s.
     Inr (if checksum = checksum_saved then HOOK_CONTINUE else HOOK_DROP, s))))"

section \<open>The sum that the module computes\<close>

definition le16 :: "u8 \<Rightarrow> u8 \<Rightarrow> u16" where
  "le16 b0 b1 = ucast (le_word [b0, b1])"

lemma bit_le16: "bit (le16 b0 b1) k \<longleftrightarrow> k < 16 \<and> (if k < 8 then bit b0 k else bit b1 (k - 8))"
  using bit_imp_le_length [of b0 k] bit_imp_le_length [of b1 "k - 8"]
  by (auto simp: le16_def bit_simps)

lemma le16_inject: "le16 a b = le16 c d \<longleftrightarrow> a = c \<and> b = d"
proof
  assume eq: "le16 a b = le16 c d"
  have "bit a k = bit c k" "bit b k = bit d k" if "k < 8" for k
    using arg_cong [OF eq, of "\<lambda>w. bit w k"] arg_cong [OF eq, of "\<lambda>w. bit w (k + 8)"] that
    by (simp_all add: bit_le16)
  then show "a = c \<and> b = d" by (auto intro!: bit_word_eqI)
qed simp

lemma take_2_drop: "Suc (Suc off) \<le> length b \<Longrightarrow> take 2 (drop off b) = [b ! off, b ! Suc off]"
  by (simp add: numeral_2_eq_2 take_Suc_conv_app_nth)

lemma buf_read_2: "Suc (Suc off) \<le> length b \<Longrightarrow> buf_read 2 off b = Inr (le_word [b ! off, b ! Suc off])"
  by (simp add: buf_read_def take_2_drop)

lemma sum_words_sum:
  "off + 2 * n \<le> length b \<Longrightarrow>
   sum_words off n c b = Inr (c + (\<Sum>j<n. le16 (b ! (off + 2 * j)) (b ! (off + 2 * j + 1))))"
proof (induction n arbitrary: off c)
  case 0
  then show ?case by simp
next
  case (Suc n)
  have "sum_words off (Suc n) c b = sum_words (off + 2) n (c + le16 (b ! off) (b ! (off + 1))) b"
    using Suc.prems by (simp add: buf_read_2 le16_def)
  also have "\<dots> = Inr (c + le16 (b ! off) (b ! (off + 1)) +
      (\<Sum>j<n. le16 (b ! (off + 2 + 2 * j)) (b ! (off + 2 + 2 * j + 1))))"
    using Suc.prems by (intro Suc.IH) simp
  finally show ?case
    by (simp add: sum.lessThan_Suc_shift add.assoc del: sum.lessThan_Suc)
qed

text \<open>
  The specification: \<open>o'\<close> is the place of the checksum, \<open>hr\<close> the headroom,
  \<open>eo\<close> the end. Bytes of the checksum and the padding count as zero.
\<close>

definition ck_byte :: "nat \<Rightarrow> nat \<Rightarrow> u8 list \<Rightarrow> nat \<Rightarrow> u8" where
  "ck_byte o' eo b i = (if i = o' \<or> i = o' + 1 \<or> eo \<le> i then 0 else b ! i)"

definition ck_word :: "nat \<Rightarrow> nat \<Rightarrow> nat \<Rightarrow> u8 list \<Rightarrow> nat \<Rightarrow> u16" where
  "ck_word o' hr eo b j = le16 (ck_byte o' eo b (hr + 2 * j)) (ck_byte o' eo b (hr + 2 * j + 1))"

definition csum :: "nat \<Rightarrow> nat \<Rightarrow> nat \<Rightarrow> u8 list \<Rightarrow> u16" where
  "csum o' hr eo b = (\<Sum>j < (eo - hr + 1) div 2. ck_word o' hr eo b j)"

definition checksum_layout :: "dynamic_layout \<Rightarrow> nat \<Rightarrow> nat \<Rightarrow> nat \<Rightarrow> bool" where
  "checksum_layout L hr o' q \<longleftrightarrow> get_headroom L = Inr hr \<and> int_member_at L ''checksum'' unsigned_short o' \<and>
     int_member_at L ''computed_total_len'' signed_int q \<and> q + 4 \<le> hr \<and> hr \<le> o' \<and> even (o' - hr)"

text \<open>A packet of \<open>n\<close> bytes on the wire, with room for the padding.\<close>

definition holds_packet :: "dynamic_layout \<Rightarrow> nat \<Rightarrow> nat \<Rightarrow> nat \<Rightarrow> u8 list \<Rightarrow> bool" where
  "holds_packet L hr o' n b \<longleftrightarrow> get_integer L ''computed_total_len'' b = Inr (of_nat n) \<and>
     hr + n + n mod 2 \<le> length b \<and> o' + 2 \<le> hr + n \<and> hr + n < 2 ^ 31"

lemma ull_to_int_nat: "n < 2 ^ 31 \<Longrightarrow> ull_to_int (of_nat n) = int n"
  by (simp add: ull_to_int_def unsigned_of_nat signed_of_nat take_bit_nat_eq_self signed_take_bit_int_eq_self)

lemma write_2:
  assumes "Suc (Suc off) \<le> length b"
  shows "buf_write 2 off v b = Inr (b[off := ucast v, Suc off := ucast (drop_bit 8 v)])"
proof -
  obtain b' where b': "buf_write 2 off v b = Inr b'"
    using assms buf_write_ok [of off 2 b v] by auto
  have "b' = b[off := ucast v, Suc off := ucast (drop_bit 8 v)]"
  proof (rule nth_equalityI)
    fix i assume "i < length b'"
    with length_buf_write [OF b'] have "i < length b" by simp
    with assms nth_buf_write [OF b' this] show "b' ! i = b[off := ucast v, Suc off := ucast (drop_bit 8 v)] ! i"
      by (cases "i = Suc off") (auto simp: nth_list_update less_Suc_eq)
  qed (use length_buf_write [OF b'] in simp)
  with b' show ?thesis by simp
qed

lemma buf_read_list_update:
  "off + n \<le> i \<Longrightarrow> buf_read n off (b[i := v]) = buf_read n off b"
  by (simp add: buf_read_def take_drop drop_update_swap take_update_cancel)

lemma le16_of_bytes: "le16 (ucast v) (ucast (drop_bit 8 v)) = ucast (v :: u64)"
  by (intro bit_word_eqI) (auto simp: bit_le16 bit_simps)

text \<open>What \<open>compute_checksum\<close> leaves in the buffer: a zero checksum and zero padding.\<close>

definition ck_clear :: "nat \<Rightarrow> nat \<Rightarrow> nat \<Rightarrow> u8 list \<Rightarrow> u8 list" where
  "ck_clear o' hr n b = (let b0 = b[o' := 0, Suc o' := 0] in if even n then b0 else b0[hr + n := 0])"

lemma length_ck_clear [simp]: "length (ck_clear o' hr n b) = length b"
  by (simp add: ck_clear_def Let_def)

lemma nth_ck_clear:
  assumes "i < hr + n + n mod 2" "hr + n + n mod 2 \<le> length b" "o' + 2 \<le> hr + n"
  shows "ck_clear o' hr n b ! i = ck_byte o' (hr + n) b i"
proof (cases "even n")
  case True
  with assms show ?thesis by (auto simp: ck_clear_def ck_byte_def nth_list_update)
next
  case False
  with assms have "i \<le> hr + n" "hr + n < length b" by (simp_all add: odd_iff_mod_2_eq_one)
  with False assms show ?thesis by (auto simp: ck_clear_def ck_byte_def nth_list_update)
qed

lemma ck_word_bound: "j < (n + 1) div 2 \<Longrightarrow> 2 * j + 1 < n + n mod (2::nat)"
  by presburger

lemma compute_checksum_ok:
  assumes L: "checksum_layout (net_packet E) hr o' q" and ct: "checksum_type (cfg E) = full_packet"
    and p: "p \<noteq> 0" "bufs s p = Some b" and b: "holds_packet (net_packet E) hr o' n b"
  shows "compute_checksum E p s =
    Inr (csum o' hr (hr + n) b, s\<lparr>bufs := (bufs s)(p \<mapsto> ck_clear o' hr n b)\<rparr>)"
proof -
  note L' = L [unfolded checksum_layout_def] and b' = b [unfolded holds_packet_def]
  let ?b0 = "b[o' := 0, Suc o' := 0]" and ?eo = "hr + n"
  let ?s0 = "s\<lparr>bufs := (bufs s)(p \<mapsto> ?b0)\<rparr>"
  have set: "pkt_set E ''checksum'' p 0 s = Inr ?s0"
    using L' p b' by (intro pkt_set_ok) (auto simp: int_member_set write_2)
  have "buf_read 4 q ?b0 = buf_read 4 q b"
    using L' by (simp add: buf_read_list_update)
  then have len: "pkt_get E ''computed_total_len'' p ?s0 = Inr (of_nat n)"
    using L' p b' by (auto simp: pkt_get_ok int_member_get)
  have eo: "checksum_end E p ?s0 = Inr (int ?eo)"
    using L' b' ct len ull_to_int_nat [of ?eo] by (simp add: checksum_end_def add.commute)
  have "(\<Sum>j < (n + 1) div 2. le16 (ck_clear o' hr n b ! (hr + 2 * j)) (ck_clear o' hr n b ! (hr + 2 * j + 1)))
      = csum o' hr ?eo b"
    unfolding csum_def ck_word_def
  proof (rule sum.cong)
    fix j assume "j \<in> {..<(hr + n - hr + 1) div 2}"
    then have "2 * j + 1 < n + n mod 2" using ck_word_bound [of j n] by simp
    with b' show "le16 (ck_clear o' hr n b ! (hr + 2 * j)) (ck_clear o' hr n b ! (hr + 2 * j + 1)) =
      le16 (ck_byte o' (hr + n) b (hr + 2 * j)) (ck_byte o' (hr + n) b (hr + 2 * j + 1))"
      by (simp add: nth_ck_clear)
  qed simp
  moreover have "2 * ((n + 1) div 2) = n + n mod 2"
    by presburger
  then have "hr + 2 * ((n + 1) div 2) \<le> length b"
    using b' by linarith
  ultimately have sum: "sum_words hr ((n + 1) div 2) 0 (ck_clear o' hr n b) = Inr (csum o' hr ?eo b)"
    by (subst sum_words_sum) simp_all
  show ?thesis
  proof (cases "even n")
    case True
    then have "(n + 1) div 2 = n div 2" by simp
    with True sum set eo L' p(1) show ?thesis
      by (simp add: compute_checksum_def ck_clear_def)
  next
    case False
    then have "hr + n < length b" using b' by (simp add: odd_iff_mod_2_eq_one)
    have "(int ?eo - int hr) mod 2 \<noteq> 0" using False by simp presburger
    moreover have "nat (int ?eo + 1 - int hr) div 2 = (n + 1) div 2"
      by (simp add: nat_add_distrib)
    moreover have "buf_updE p (\<lambda>b. arr_set b (nat (int ?eo)) 0) ?s0 =
        Inr (s\<lparr>bufs := (bufs s)(p \<mapsto> ck_clear o' hr n b)\<rparr>)"
      using \<open>hr + n < length b\<close> False p(1) by (simp add: buf_updE_def ck_clear_def nat_add_distrib)
    ultimately show ?thesis
      using sum set eo L' p(1) by (simp add: compute_checksum_def del: sum_words.simps of_nat_add nat_int)
  qed
qed

lemma checksum_send_ok:
  assumes L: "checksum_layout (net_packet E) hr o' q" and ct: "checksum_type (cfg E) = full_packet"
    and p: "p \<noteq> 0" "bufs s p = Some b" and b: "holds_packet (net_packet E) hr o' n b"
  defines "c \<equiv> ucast (csum o' hr (hr + n) b) :: u64"
  shows "checksum_hook_send E p s = Inr (HOOK_CONTINUE, s\<lparr>bufs := (bufs s)(p \<mapsto>
    (ck_clear o' hr n b)[o' := ucast c, Suc o' := ucast (drop_bit 8 c)])\<rparr>)"
proof -
  let ?s = "s\<lparr>bufs := (bufs s)(p \<mapsto> ck_clear o' hr n b)\<rparr>"
  have "pkt_set E ''checksum'' p c ?s =
      Inr (?s\<lparr>bufs := (bufs ?s)(p \<mapsto> (ck_clear o' hr n b)[o' := ucast c, Suc o' := ucast (drop_bit 8 c)])\<rparr>)"
    using L b p by (intro pkt_set_ok) (auto simp: checksum_layout_def holds_packet_def int_member_set write_2)
  then show ?thesis
    using compute_checksum_ok [OF L ct p b] by (simp add: checksum_hook_send_def c_def)
qed

lemma checksum_ingress_ok:
  assumes L: "checksum_layout (net_packet E) hr o' q" and ct: "checksum_type (cfg E) = full_packet"
    and p: "p \<noteq> 0" "bufs s p = Some b" and b: "holds_packet (net_packet E) hr o' n b"
  shows "\<exists>b'. checksum_hook_ingress E p s =
    Inr (if csum o' hr (hr + n) b = le16 (b ! o') (b ! Suc o') then HOOK_CONTINUE else HOOK_DROP,
      s\<lparr>bufs := (bufs s)(p \<mapsto> b')\<rparr>)"
proof -
  let ?s = "s\<lparr>bufs := (bufs s)(p \<mapsto> ck_clear o' hr n b)\<rparr>" and ?v = "le_word [b ! o', b ! Suc o']"
  have "pkt_get E ''checksum'' p s = Inr ?v"
    using L b p by (auto simp: checksum_layout_def holds_packet_def pkt_get_ok int_member_get buf_read_2 T_to_ull_def
        simp del: le_word.simps)
  moreover have "\<exists>b'. pkt_set E ''checksum'' p (ucast (ucast ?v :: u16)) ?s =
      Inr (?s\<lparr>bufs := (bufs ?s)(p \<mapsto> b')\<rparr>)"
    using L b p by (intro exI pkt_set_ok) (auto simp: checksum_layout_def holds_packet_def int_member_set write_2)
  ultimately show ?thesis
    using compute_checksum_ok [OF L ct p b] by (auto simp: checksum_hook_ingress_def le16_def)
qed

lemma csum_cong:
  "(\<And>i. hr \<le> i \<Longrightarrow> i < eo \<Longrightarrow> i \<noteq> o' \<Longrightarrow> i \<noteq> o' + 1 \<Longrightarrow> b' ! i = b ! i) \<Longrightarrow> csum o' hr eo b' = csum o' hr eo b"
  unfolding csum_def ck_word_def ck_byte_def
  by (intro sum.cong refl arg_cong2 [of _ _ _ _ le16]) auto

text \<open>A change confined to word \<open>j\<close>, which is not that of the checksum, changes the sum.\<close>

lemma csum_single_word:
  assumes same: "\<And>i. hr \<le> i \<Longrightarrow> i < eo \<Longrightarrow> i \<noteq> hr + 2 * j \<Longrightarrow> i \<noteq> hr + 2 * j + 1 \<Longrightarrow> b' ! i = b ! i"
    and j: "hr + 2 * j \<noteq> o'" "even (o' - hr)" "hr \<le> o'"
  shows "csum o' hr eo b' = csum o' hr eo b \<longleftrightarrow> (\<forall>i. hr \<le> i \<and> i < eo \<longrightarrow> b' ! i = b ! i)"
proof
  assume "\<forall>i. hr \<le> i \<and> i < eo \<longrightarrow> b' ! i = b ! i"
  then show "csum o' hr eo b' = csum o' hr eo b" by (intro csum_cong) auto
next
  let ?k = "(eo - hr + 1) div 2"
  have out: "hr + 2 * j \<noteq> o' + 1" "hr + 2 * j + 1 \<noteq> o'"
    using j(2,3) by presburger+
  assume eq: "csum o' hr eo b' = csum o' hr eo b"
  have words: "ck_word o' hr eo b' i = ck_word o' hr eo b i" if "i \<noteq> j" for i
  proof -
    have "hr + 2 * i \<noteq> hr + 2 * j" "hr + 2 * i \<noteq> hr + 2 * j + 1"
      "hr + 2 * i + 1 \<noteq> hr + 2 * j" "hr + 2 * i + 1 \<noteq> hr + 2 * j + 1"
      using that by presburger+
    then show ?thesis
      using same [of "hr + 2 * i"] same [of "hr + 2 * i + 1"] by (simp add: ck_word_def ck_byte_def)
  qed
  have "b' ! i = b ! i" if i: "hr \<le> i" "i < eo" "i = hr + 2 * j \<or> i = hr + 2 * j + 1" for i
  proof -
    have k: "j \<in> {..<?k}" using i by auto
    have "ck_word o' hr eo b' j = ck_word o' hr eo b j"
      using eq words unfolding csum_def sum.remove [OF finite_lessThan k] by simp
    with out j(1) i show ?thesis
      by (auto simp: ck_word_def le16_inject ck_byte_def)
  qed
  then show "\<forall>i. hr \<le> i \<and> i < eo \<longrightarrow> b' ! i = b ! i" using same by blast
qed


end
