(* ===== verification/Conn_Table.thy ===== *)
theory Conn_Table
  imports NB_State
begin

text \<open>
  The table of active connections of the identifier module
  (\<open>src/modules/identifier_module.cpp\<close>): four parallel arrays of 512 entries with a count.
  The lemmas relate the arrays to the list of entries: adding appends, looking up finds the first
  match, deleting moves the last entry into the gap.
\<close>

section \<open>The operations\<close>

definition add_connection ::
  "('t, 'a) nb_env \<Rightarrow> u64 \<Rightarrow> u32 \<Rightarrow> u32 \<Rightarrow> u64 \<Rightarrow> ('t, 'a) nb_state \<Rightarrow> ('t, 'a) nb_state res" where
  "add_connection E c appid src_app_id src_host_id s =
     (let idx = num_conn s; s = s\<lparr>num_conn := idx + 1\<rparr> in
      bindE (arr_set (active_local_app_ids s) idx appid) (\<lambda>xs. let s = s\<lparr>active_local_app_ids := xs\<rparr> in
      bindE (arr_set (active_connections s) idx c) (\<lambda>xs. let s = s\<lparr>active_connections := xs\<rparr> in
      if flow_identifier (cfg E) = src_dst_identifier then
        bindE (arr_set (active_remote_app_ids s) idx src_app_id) (\<lambda>xs. let s = s\<lparr>active_remote_app_ids := xs\<rparr> in
        bindE (arr_set (active_remote_host_ids s) idx src_host_id) (\<lambda>xs.
        Inr (s\<lparr>active_remote_host_ids := xs\<rparr>)))
      else Inr s)))"

definition match_connection ::
  "('t, 'a) nb_env \<Rightarrow> u32 \<Rightarrow> u32 \<Rightarrow> u64 \<Rightarrow> ('t, 'a) nb_state \<Rightarrow> nat \<Rightarrow> bool res" where
  "match_connection E dst_app_id src_app_id src_host_id s index =
     (if flow_identifier (cfg E) = src_dst_identifier then
        bindE (arr_get (active_local_app_ids s) index) (\<lambda>a.
        if a \<noteq> dst_app_id then Inr False else
        bindE (arr_get (active_remote_app_ids s) index) (\<lambda>r.
        if r \<noteq> src_app_id then Inr False else
        bindE (arr_get (active_remote_host_ids s) index) (\<lambda>h. Inr (h = src_host_id))))
      else bindE (arr_get (active_local_app_ids s) index) (\<lambda>a. Inr (a = dst_app_id)))"

text \<open>A loop over indices that stops at the first match.\<close>

fun first_match :: "(nat \<Rightarrow> bool res) \<Rightarrow> nat list \<Rightarrow> nat option res" where
  "first_match P [] = Inr None"
| "first_match P (i # is) = bindE (P i) (\<lambda>b. if b then Inr (Some i) else first_match P is)"

definition retrieve_connection ::
  "('t, 'a) nb_env \<Rightarrow> u32 \<Rightarrow> u32 \<Rightarrow> u64 \<Rightarrow> ('t, 'a) nb_state \<Rightarrow> u64 res" where
  "retrieve_connection E appid src_app_id src_host_id s =
     bindE (first_match (match_connection E appid src_app_id src_host_id s) [0..<num_conn s]) (\<lambda>r.
     case r of None \<Rightarrow> Inr 0 | Some i \<Rightarrow> arr_get (active_connections s) i)"

definition match_wildcard :: "u32 \<Rightarrow> ('t, 'a) nb_state \<Rightarrow> nat \<Rightarrow> bool res" where
  "match_wildcard appid s i =
     bindE (arr_get (active_local_app_ids s) i) (\<lambda>a.
     if a \<noteq> appid then Inr False else
     bindE (arr_get (active_remote_app_ids s) i) (\<lambda>r.
     if r \<noteq> WILDCARD_APP_ID then Inr False else
     bindE (arr_get (active_remote_host_ids s) i) (\<lambda>h. Inr (h = nb__wildcard_host_identifier))))"

definition retrieve_wildcard_connection :: "u32 \<Rightarrow> ('t, 'a) nb_state \<Rightarrow> u64 res" where
  "retrieve_wildcard_connection appid s =
     bindE (first_match (match_wildcard appid s) [0..<num_conn s]) (\<lambda>r.
     case r of None \<Rightarrow> Inr 0 | Some i \<Rightarrow> arr_get (active_connections s) i)"

text \<open>
  \<open>delete_connection\<close>: the last entry moves to the place of the deleted one, except for the
  remote host, where the source has the two sides of the assignment exchanged.
\<close>

definition delete_connection ::
  "('t, 'a) nb_env \<Rightarrow> u32 \<Rightarrow> u32 \<Rightarrow> u64 \<Rightarrow> ('t, 'a) nb_state \<Rightarrow> ('t, 'a) nb_state res" where
  "delete_connection E appid src_app_id src_host_id s =
     bindE (first_match (match_connection E appid src_app_id src_host_id s) [0..<num_conn s]) (\<lambda>r.
     case r of
       None \<Rightarrow> Inr s
     | Some i \<Rightarrow>
         let total = num_conn s - 1; s = s\<lparr>num_conn := total\<rparr> in
         bindE (arr_get (active_local_app_ids s) total) (\<lambda>a.
         bindE (arr_set (active_local_app_ids s) i a) (\<lambda>xs. let s = s\<lparr>active_local_app_ids := xs\<rparr> in
         bindE (arr_get (active_connections s) total) (\<lambda>c.
         bindE (arr_set (active_connections s) i c) (\<lambda>xs. let s = s\<lparr>active_connections := xs\<rparr> in
         if flow_identifier (cfg E) = src_dst_identifier then
           bindE (arr_get (active_remote_app_ids s) total) (\<lambda>r.
           bindE (arr_set (active_remote_app_ids s) i r) (\<lambda>xs. let s = s\<lparr>active_remote_app_ids := xs\<rparr> in
           bindE (arr_get (active_remote_host_ids s) i) (\<lambda>h.
           bindE (arr_set (active_remote_host_ids s) total h) (\<lambda>xs.
           Inr (s\<lparr>active_remote_host_ids := xs\<rparr>)))))
         else Inr s)))))"

section \<open>The table as a list\<close>

text \<open>An entry: local application, remote application, remote host, connection.\<close>

type_synonym ct_entry = "u32 \<times> u32 \<times> u64 \<times> u64"

definition ct_list :: "('t, 'a) nb_state \<Rightarrow> ct_entry list" where
  "ct_list s = map (\<lambda>i. (active_local_app_ids s ! i, active_remote_app_ids s ! i,
     active_remote_host_ids s ! i, active_connections s ! i)) [0..<num_conn s]"

definition ct_inv :: "('t, 'a) nb_state \<Rightarrow> bool" where
  "ct_inv s \<longleftrightarrow> length (active_local_app_ids s) = MAX_ACTIVE_CONNECTIONS \<and>
     length (active_remote_app_ids s) = MAX_ACTIVE_CONNECTIONS \<and>
     length (active_remote_host_ids s) = MAX_ACTIVE_CONNECTIONS \<and>
     length (active_connections s) = MAX_ACTIVE_CONNECTIONS \<and> num_conn s \<le> MAX_ACTIVE_CONNECTIONS"

definition ct_matches :: "('t, 'a) nb_env \<Rightarrow> u32 \<Rightarrow> u32 \<Rightarrow> u64 \<Rightarrow> ct_entry \<Rightarrow> bool" where
  "ct_matches E a r h e \<longleftrightarrow>
     (if flow_identifier (cfg E) = src_dst_identifier
      then fst e = a \<and> fst (snd e) = r \<and> fst (snd (snd e)) = h else fst e = a)"

definition ct_conn :: "ct_entry \<Rightarrow> u64" where "ct_conn e = snd (snd (snd e))"

text \<open>The specification of a lookup: the connection of the first entry that matches, or null.\<close>

definition ct_lookup :: "(ct_entry \<Rightarrow> bool) \<Rightarrow> ct_entry list \<Rightarrow> u64" where
  "ct_lookup P es = (case find P es of None \<Rightarrow> 0 | Some e \<Rightarrow> ct_conn e)"

lemma length_ct_list [simp]: "length (ct_list s) = num_conn s"
  by (simp add: ct_list_def)

lemma first_match_find:
  assumes "\<And>i. i < length xs \<Longrightarrow> P i = Inr (Q (xs ! i))"
  shows "first_match P [0..<length xs] = Inr (find (\<lambda>i. Q (xs ! i)) [0..<length xs])"
proof -
  have "first_match P is = Inr (find (\<lambda>i. Q (xs ! i)) is)"
    if "\<And>i. i \<in> set is \<Longrightarrow> P i = Inr (Q (xs ! i))" for "is"
    using that by (induction "is") auto
  from this [of "[0..<length xs]"] assms show ?thesis by simp
qed

lemma find_nth_upt: "find (\<lambda>i. Q (xs ! i)) [0..<length xs] = None \<longleftrightarrow> find Q xs = None"
  by (auto simp: find_None_iff in_set_conv_nth)

lemma find_nth_upt_Some:
  "find (\<lambda>i. Q (xs ! i)) [0..<length xs] = Some i \<Longrightarrow> i < length xs \<and> Q (xs ! i) \<and> find Q xs = Some (xs ! i)"
  by (auto simp: find_Some_iff)

lemma match_connection_list:
  "ct_inv s \<Longrightarrow> i < num_conn s \<Longrightarrow> match_connection E a r h s i = Inr (ct_matches E a r h (ct_list s ! i))"
  by (auto simp: match_connection_def ct_inv_def ct_list_def ct_matches_def)

lemma match_wildcard_list:
  "ct_inv s \<Longrightarrow> i < num_conn s \<Longrightarrow>
   match_wildcard a s i = Inr (fst (ct_list s ! i) = a \<and> fst (snd (ct_list s ! i)) = WILDCARD_APP_ID \<and>
     fst (snd (snd (ct_list s ! i))) = nb__wildcard_host_identifier)"
  by (auto simp: match_wildcard_def ct_inv_def ct_list_def)

lemma arr_get_connection: "ct_inv s \<Longrightarrow> i < num_conn s \<Longrightarrow> arr_get (active_connections s) i = Inr (ct_conn (ct_list s ! i))"
  by (simp add: ct_inv_def ct_list_def ct_conn_def)

lemma lookup_loop:
  assumes inv: "ct_inv s" and P: "\<And>i. i < num_conn s \<Longrightarrow> P i = Inr (Q (ct_list s ! i))"
  shows "bindE (first_match P [0..<num_conn s]) (\<lambda>r.
     case r of None \<Rightarrow> Inr 0 | Some i \<Rightarrow> arr_get (active_connections s) i) = Inr (ct_lookup Q (ct_list s))"
proof -
  have fm: "first_match P [0..<num_conn s] = Inr (find (\<lambda>i. Q (ct_list s ! i)) [0..<length (ct_list s)])"
    using first_match_find [of "ct_list s" P Q] P by simp
  show ?thesis
  proof (cases "find (\<lambda>i. Q (ct_list s ! i)) [0..<length (ct_list s)]")
    case None
    with fm find_nth_upt [of Q "ct_list s"] show ?thesis by (simp add: ct_lookup_def)
  next
    case (Some i)
    from find_nth_upt_Some [OF this] have "i < num_conn s" "find Q (ct_list s) = Some (ct_list s ! i)" by auto
    with fm Some inv show ?thesis by (simp add: ct_lookup_def arr_get_connection)
  qed
qed

lemma retrieve_connection_list:
  "ct_inv s \<Longrightarrow> retrieve_connection E a r h s = Inr (ct_lookup (ct_matches E a r h) (ct_list s))"
  unfolding retrieve_connection_def by (rule lookup_loop) (auto simp: match_connection_list)

lemma retrieve_wildcard_list:
  "ct_inv s \<Longrightarrow> retrieve_wildcard_connection a s =
     Inr (ct_lookup (\<lambda>e. fst e = a \<and> fst (snd e) = WILDCARD_APP_ID \<and> fst (snd (snd e)) = nb__wildcard_host_identifier)
       (ct_list s))"
  unfolding retrieve_wildcard_connection_def by (rule lookup_loop) (auto simp: match_wildcard_list)

lemma add_connection_list:
  assumes "ct_inv s" "num_conn s < MAX_ACTIVE_CONNECTIONS" "flow_identifier (cfg E) = src_dst_identifier"
  shows "\<exists>s'. add_connection E c a r h s = Inr s' \<and> ct_inv s' \<and> ct_list s' = ct_list s @ [(a, r, h, c)] \<and>
    conns s' = conns s \<and> bufs s' = bufs s \<and> timers s' = timers s"
  using assms by (auto simp: add_connection_def Let_def ct_inv_def ct_list_def)

lemma add_connection_full:
  "ct_inv s \<Longrightarrow> num_conn s = MAX_ACTIVE_CONNECTIONS \<Longrightarrow> add_connection E c a r h s = Inl Out_Of_Bounds"
  by (simp add: add_connection_def Let_def ct_inv_def arr_set_def)

text \<open>
  The entry that \<open>delete_connection\<close> leaves at place \<open>i\<close>: the last entry, with the
  remote host of the deleted one.
\<close>

definition moved_entry :: "ct_entry \<Rightarrow> ct_entry \<Rightarrow> ct_entry" where
  "moved_entry lst deleted = (fst lst, fst (snd lst), fst (snd (snd deleted)), ct_conn lst)"

lemma delete_connection_list:
  assumes inv: "ct_inv s" and E: "flow_identifier (cfg E) = src_dst_identifier"
    and i: "find (\<lambda>i. ct_matches E a r h (ct_list s ! i)) [0..<num_conn s] = Some i"
  shows "\<exists>s'. delete_connection E a r h s = Inr s' \<and> ct_inv s' \<and>
    ct_list s' = butlast ((ct_list s)[i := moved_entry (last (ct_list s)) (ct_list s ! i)]) \<and>
    conns s' = conns s \<and> bufs s' = bufs s"
proof -
  have fm: "first_match (match_connection E a r h s) [0..<num_conn s] = Inr (Some i)"
    using first_match_find [of "ct_list s" "match_connection E a r h s" "ct_matches E a r h"]
      match_connection_list [OF inv] i by simp
  have "i < num_conn s" using find_nth_upt_Some [of "ct_matches E a r h" "ct_list s" i] i by simp
  then obtain n where n: "num_conn s = Suc n" "i \<le> n" by (cases "num_conn s") auto
  let ?s = "s\<lparr>num_conn := n, active_local_app_ids := (active_local_app_ids s)[i := active_local_app_ids s ! n],
    active_connections := (active_connections s)[i := active_connections s ! n],
    active_remote_app_ids := (active_remote_app_ids s)[i := active_remote_app_ids s ! n],
    active_remote_host_ids := (active_remote_host_ids s)[n := active_remote_host_ids s ! i]\<rparr>"
  have "delete_connection E a r h s = Inr ?s" "ct_inv ?s"
    using n E fm inv by (simp_all add: delete_connection_def ct_inv_def Let_def)
  moreover have "ct_list ?s = butlast ((ct_list s)[i := moved_entry (last (ct_list s)) (ct_list s ! i)])"
    using n inv
    by (intro nth_equalityI)
      (auto simp: ct_list_def nth_butlast nth_list_update last_map ct_inv_def nth_append moved_entry_def ct_conn_def)
  ultimately show ?thesis by auto
qed


section \<open>What the table guarantees\<close>

definition ct_key :: "ct_entry \<Rightarrow> u32 \<times> u32 \<times> u64" where
  "ct_key e = (fst e, fst (snd e), fst (snd (snd e)))"

lemma ct_entry_simps [simp]: "ct_key (a, r, h, c) = (a, r, h)" "ct_conn (a, r, h, c) = c"
  by (simp_all add: ct_key_def ct_conn_def)

definition ct_find :: "u32 \<times> u32 \<times> u64 \<Rightarrow> ct_entry list \<Rightarrow> u64" where
  "ct_find k es = ct_lookup (\<lambda>e. ct_key e = k) es"

lemma ct_matches_key:
  "flow_identifier (cfg E) = src_dst_identifier \<Longrightarrow> ct_matches E a r h = (\<lambda>e. ct_key e = (a, r, h))"
  by (auto simp: ct_matches_def ct_key_def)

lemma retrieve_connection_key:
  "ct_inv s \<Longrightarrow> flow_identifier (cfg E) = src_dst_identifier \<Longrightarrow>
   retrieve_connection E a r h s = Inr (ct_find (a, r, h) (ct_list s))"
  by (simp add: retrieve_connection_list ct_matches_key ct_find_def)

lemma ct_find_simps [simp]:
  "ct_find k [] = 0"
  "ct_find k (e # es) = (if ct_key e = k then ct_conn e else ct_find k es)"
  by (simp_all add: ct_find_def ct_lookup_def)

lemma ct_find_append:
  "ct_find k (xs @ ys) = (if \<exists>x \<in> set xs. ct_key x = k then ct_find k xs else ct_find k ys)"
  by (induction xs) auto

lemma ct_find_None: "(\<And>e. e \<in> set es \<Longrightarrow> ct_key e \<noteq> k) \<Longrightarrow> ct_find k es = 0"
  by (induction es) auto

text \<open>With distinct keys a lookup does not depend on the order of the entries.\<close>

lemma find_key:
  "distinct (map ct_key es) \<Longrightarrow> find (\<lambda>e. ct_key e = k) es = Some e \<longleftrightarrow> e \<in> set es \<and> ct_key e = k"
  by (induction es) (auto simp: image_iff)

lemma ct_find_set:
  assumes "distinct (map ct_key es)" "distinct (map ct_key es')" "\<And>e. ct_key e = k \<Longrightarrow> e \<in> set es \<longleftrightarrow> e \<in> set es'"
  shows "ct_find k es = ct_find k es'"
proof -
  have "find (\<lambda>e. ct_key e = k) es = find (\<lambda>e. ct_key e = k) es'"
    using find_key [OF assms(1), of k] find_key [OF assms(2), of k] assms(3)
    by (metis not_Some_eq)
  then show ?thesis by (simp add: ct_find_def ct_lookup_def)
qed

text \<open>
  C17. A connection that is added is found under its identifiers when no entry had them before,
  every other lookup gives the same result as before, and adding to a full table writes outside
  the arrays.
\<close>

theorem add_connection_found:
  assumes inv: "ct_inv s" and E: "flow_identifier (cfg E) = src_dst_identifier"
    and new: "\<And>e. e \<in> set (ct_list s) \<Longrightarrow> ct_key e \<noteq> (a, r, h)"
  shows "if num_conn s < MAX_ACTIVE_CONNECTIONS
    then (\<exists>s'. add_connection E c a r h s = Inr s' \<and> ct_inv s' \<and> retrieve_connection E a r h s' = Inr c \<and>
      (\<forall>a' r' h'. (a', r', h') \<noteq> (a, r, h) \<longrightarrow>
         retrieve_connection E a' r' h' s' = retrieve_connection E a' r' h' s))
    else add_connection E c a r h s = Inl Out_Of_Bounds"
proof (cases "num_conn s < MAX_ACTIVE_CONNECTIONS")
  case False
  with inv have "num_conn s = MAX_ACTIVE_CONNECTIONS" by (simp add: ct_inv_def)
  with False inv show ?thesis by (simp add: add_connection_full)
next
  case True
  obtain s' where s': "add_connection E c a r h s = Inr s'" "ct_inv s'" "ct_list s' = ct_list s @ [(a, r, h, c)]"
    using add_connection_list [OF inv True E] by blast
  then show ?thesis
    using True inv E new by (auto simp: retrieve_connection_key ct_find_append ct_find_None)
qed

text \<open>
  C18. When all entries have the same remote host and distinct identifiers, deleting a connection
  removes exactly that connection: its identifiers are no longer found and every other lookup gives
  the same result as before.
\<close>

theorem delete_connection_same_host:
  assumes inv: "ct_inv s" and E: "flow_identifier (cfg E) = src_dst_identifier"
    and host: "\<And>e. e \<in> set (ct_list s) \<Longrightarrow> fst (snd (snd e)) = h"
    and dist: "distinct (map ct_key (ct_list s))"
    and e: "e \<in> set (ct_list s)" "ct_key e = (a, r, h)"
  shows "\<exists>s'. delete_connection E a r h s = Inr s' \<and> ct_inv s' \<and> num_conn s' = num_conn s - 1 \<and>
    retrieve_connection E a r h s' = Inr 0 \<and>
    (\<forall>a' r' h'. (a', r', h') \<noteq> (a, r, h) \<longrightarrow>
       retrieve_connection E a' r' h' s' = retrieve_connection E a' r' h' s)"
proof -
  let ?es = "ct_list s"
  have "find (ct_matches E a r h) ?es \<noteq> None"
    unfolding find_None_iff ct_matches_key [OF E] using e by blast
  then obtain i where i: "find (\<lambda>i. ct_matches E a r h (?es ! i)) [0..<num_conn s] = Some i"
    using find_nth_upt [of "ct_matches E a r h" ?es] by auto
  then have i': "i < num_conn s" "ct_key (?es ! i) = (a, r, h)"
    using find_nth_upt_Some [of "ct_matches E a r h" ?es i] ct_matches_key [OF E] by auto
  then have ne: "?es \<noteq> []" by (metis length_ct_list list.size(3) not_less0)
  have "moved_entry (last ?es) (?es ! i) = last ?es"
    using host [of "last ?es"] host [of "?es ! i"] i' ne
    by (auto simp: moved_entry_def ct_conn_def prod_eq_iff)
  then obtain s' where s': "delete_connection E a r h s = Inr s'" "ct_inv s'"
    "ct_list s' = butlast (?es[i := last ?es])"
    using delete_connection_list [OF inv E i] by auto
  then have ms: "mset (ct_list s') = mset ?es - {#?es ! i#}"
    using i' by (simp add: mset_swap_remove)
  have len: "i < length ?es" using i'(1) by simp
  have set: "set (ct_list s') = set ?es - {?es ! i}"
    using dist len ms by (rule distinct_swap_remove(1))
  have dist': "distinct (map ct_key (ct_list s'))"
    using dist len ms by (rule distinct_swap_remove(2))
  have "find (\<lambda>e. ct_key e = (a, r, h)) ?es = Some (?es ! i)"
    using find_key [OF dist] i' by simp
  then have only: "e \<in> set ?es \<Longrightarrow> ct_key e = (a, r, h) \<Longrightarrow> e = ?es ! i" for e
    using find_key [OF dist, of "(a, r, h)" e] by simp
  have "retrieve_connection E a r h s' = Inr 0"
    unfolding retrieve_connection_key [OF s'(2) E] using only set by (auto intro!: ct_find_None)
  moreover have "retrieve_connection E a' r' h' s' = retrieve_connection E a' r' h' s"
    if other: "(a', r', h') \<noteq> (a, r, h)" for a' r' h'
  proof -
    have "e \<in> set (ct_list s') \<longleftrightarrow> e \<in> set ?es" if "ct_key e = (a', r', h')" for e
      using i'(2) other that unfolding set by (cases "e = ?es ! i") simp_all
    with dist' dist have "ct_find (a', r', h') (ct_list s') = ct_find (a', r', h') ?es"
      by (rule ct_find_set)
    then show ?thesis by (simp only: retrieve_connection_key [OF s'(2) E] retrieve_connection_key [OF inv E])
  qed
  moreover have "num_conn s' = num_conn s - 1"
    using s'(3) by (metis length_butlast length_ct_list length_list_update)
  ultimately show ?thesis
    using s' by blast
qed

text \<open>
  C35. With several remote hosts the deletion corrupts the table: the last entry is moved with the
  remote host of the deleted one, so that its connection is found under a host it does not belong
  to and no longer under its own.
\<close>

theorem delete_connection_wrong_host:
  assumes inv: "ct_inv s" and E: "flow_identifier (cfg E) = src_dst_identifier"
    and es: "ct_list s = pre @ (a, r, h, c) # mid @ [(a', r', h', c')]" and ne: "h \<noteq> h'"
    and uniq: "\<And>e. e \<in> set (pre @ mid) \<Longrightarrow> ct_key e \<noteq> (a, r, h) \<and> (fst e, fst (snd e)) \<noteq> (a', r')"
  shows "\<exists>s'. delete_connection E a r h s = Inr s' \<and> retrieve_connection E a' r' h s' = Inr c' \<and>
    retrieve_connection E a' r' h' s' = Inr 0"
proof -
  let ?i = "length pre"
  have n: "num_conn s = length (ct_list s)" by simp
  have i: "find (\<lambda>i. ct_matches E a r h (ct_list s ! i)) [0..<num_conn s] = Some ?i"
    unfolding n find_Some_iff ct_matches_key [OF E] es
    using uniq by (intro exI [of _ ?i]) (auto simp: nth_append ct_key_def)
  obtain s' where s': "delete_connection E a r h s = Inr s'" "ct_inv s'"
    "ct_list s' = butlast ((ct_list s)[?i := moved_entry (last (ct_list s)) (ct_list s ! ?i)])"
    using delete_connection_list [OF inv E i] by blast
  have "ct_list s' = pre @ (a', r', h, c') # mid"
    unfolding s'(3) es by (simp add: moved_entry_def ct_conn_def list_update_append butlast_append)
  moreover have "ct_key e \<noteq> (a', r', x)" if "e \<in> set (pre @ mid)" for e x
    using uniq [OF that] by (auto simp: ct_key_def)
  ultimately show ?thesis
    using s'(1,2) ne E by (auto simp: retrieve_connection_key ct_find_append ct_find_None)
qed

end
