(* ===== verification/Identifier_Module.thy ===== *)
theory Identifier_Module
  imports Conn_Table
begin

unbundle bit_operations_syntax

text \<open>
  The identifier module (\<open>src/modules/identifier_module.cpp\<close>): its hooks on the establish,
  destablish, send, ingress and initialisation paths, and the routing table lookup of
  \<open>runtime/nb_runtime.c\<close> they use.
\<close>

section \<open>The hooks\<close>

text \<open>
  \<open>nb__routing_table_lookup_from_global\<close>. The loop compares \<open>entries[i].local_id\<close>
  with the argument and returns \<open>entries[i].global_id\<close>.
\<close>

definition nb__routing_table_lookup_from_global ::
  "u32 \<Rightarrow> routing_table_entry list option \<Rightarrow> nat \<Rightarrow> u64 res" where
  "nb__routing_table_lookup_from_global lid entries routing_table_size =
     (case entries of
        None \<Rightarrow> Inr (ucast lid)
      | Some es \<Rightarrow>
          bindE (first_match (\<lambda>i. bindE (arr_get es i) (\<lambda>e. Inr (local_id e = ucast lid))) [0..<routing_table_size]) (\<lambda>r.
          case r of
            None \<Rightarrow> Inr (ucast lid)
          | Some i \<Rightarrow> bindE (arr_get es i) (\<lambda>e. Inr (ucast (global_id e)))))"

definition identifier_hook_net_init :: "('t, 'a) nb_state \<Rightarrow> ('t, 'a) nb_state res" where
  "identifier_hook_net_init s =
     (let s = s\<lparr>num_conn := 0, routing_table := None, routing_table_len := 0\<rparr> in
      bindE (nb__routing_table_lookup_from_global (nb__my_host_id s) (routing_table s) (routing_table_len s)) (\<lambda>h.
      Inr (s\<lparr>nb__my_local_host_id := h\<rparr>)))"

definition identifier_hook_establish ::
  "('t, 'a) nb_env \<Rightarrow> u64 \<Rightarrow> u32 \<Rightarrow> u32 \<Rightarrow> u32 \<Rightarrow> ('t, 'a) nb_state \<Rightarrow> (hook_status \<times> ('t, 'a) nb_state) res" where
  "identifier_hook_establish E c h a sa s =
     bindE (nb__routing_table_lookup_from_global h (routing_table s) (routing_table_len s)) (\<lambda>host_local_id.
     bindE (conn_upd c (\<lambda>x. x\<lparr>remote_host_id := host_local_id, remote_app_id := a, local_app_id := sa,
       input_queue := nb__new_data_queue (input_queue x),
       accept_queue := nb__new_accept_queue (accept_queue x)\<rparr>) s) (\<lambda>s.
     bindE (add_connection E c sa a host_local_id s) (\<lambda>s.
     Inr (HOOK_CONTINUE, s))))"

text \<open>The queues are freed with the connection.\<close>

definition identifier_hook_destablish ::
  "('t, 'a) nb_env \<Rightarrow> u64 \<Rightarrow> ('t, 'a) nb_state \<Rightarrow> (hook_status \<times> ('t, 'a) nb_state) res" where
  "identifier_hook_destablish E c s =
     bindE (conn_get s c) (\<lambda>x.
     bindE (delete_connection E (local_app_id x) (remote_app_id x) (remote_host_id x) s) (\<lambda>s.
     Inr (HOOK_CONTINUE, s)))"

definition identifier_hook_send ::
  "('t, 'a) nb_env \<Rightarrow> u64 \<Rightarrow> u64 \<Rightarrow> ('t, 'a) nb_state \<Rightarrow> (hook_status \<times> ('t, 'a) nb_state) res" where
  "identifier_hook_send E c p s =
     bindE (conn_get s c) (\<lambda>x.
     bindE (pkt_set E ''dst_host_id'' p (remote_host_id x) s) (\<lambda>s.
     bindE (pkt_set E ''dst_app_id'' p (ucast (remote_app_id x)) s) (\<lambda>s.
     bindE (pkt_set E ''src_host_id'' p (nb__my_local_host_id s) s) (\<lambda>s.
     bindE (pkt_set E ''src_app_id'' p (ucast (local_app_id x)) s) (\<lambda>s.
     bindE (if isEthCompat (compat_level (cfg E))
            then pkt_set E ''protocol_identifier'' p (ucast (htons 0x0800)) s else Inr s) (\<lambda>s.
     Inr (HOOK_CONTINUE, s)))))))"

definition identifier_hook_ingress ::
  "('t, 'a) nb_env \<Rightarrow> u64 \<Rightarrow> ('t, 'a) nb_state \<Rightarrow> (hook_status \<times> ('t, 'a) nb_state) res" where
  "identifier_hook_ingress E p s =
     bindE (pkt_get E ''dst_host_id'' p s) (\<lambda>dst_host.
     if dst_host \<noteq> nb__my_local_host_id s then Inr (HOOK_DROP, s) else
     bindE (pkt_get E ''dst_app_id'' p s) (\<lambda>w. let dst_app_id = ucast w :: u32 in
     bindE (pkt_get E ''src_app_id'' p s) (\<lambda>w. let src_app_id = ucast w :: u32 in
     bindE (pkt_get E ''src_host_id'' p s) (\<lambda>src_host_id.
     bindE (retrieve_connection E dst_app_id src_app_id src_host_id s) (\<lambda>c.
     if c \<noteq> 0 then
       bindE (pkt_set E ''flow_identifier'' p c s) (\<lambda>s. Inr (HOOK_CONTINUE, s))
     else if flow_identifier (cfg E) \<noteq> src_dst_identifier then Inr (HOOK_DROP, s)
     else
       bindE (retrieve_wildcard_connection dst_app_id s) (\<lambda>c.
       if c \<noteq> 0 then
         bindE (conn_updE c (\<lambda>x. bindE (nb__insert_accept_queue src_app_id src_host_id p (accept_queue x)) (\<lambda>q.
                  Inr (x\<lparr>accept_queue := q\<rparr>))) s) (\<lambda>s.
         bindE (conn_get s c) (\<lambda>x.
         bindE (run_callback E (callback_f x) QUEUE_EVENT_ACCEPT_READY c s) (\<lambda>s.
         Inr (HOOK_DROP, s))))
       else
         bindE (guardE False (Assert_Fail ''Failed to lookup connection'')) (\<lambda>_.
         Inr (HOOK_DROP, s))))))))"

end
