(* ===== verification/Routing_Module.thy ===== *)
theory Routing_Module
  imports NB_State
begin

unbundle bit_operations_syntax

text \<open>
  The routing module (\<open>src/modules/routing_module.cpp\<close>) and the header checksum of the
  Internet protocol that it fills in (\<open>nb__do_ip_checksum\<close> of
  \<open>runtime/nb_runtime.c\<close>).
\<close>

section \<open>The header checksum\<close>

text \<open>\<open>len\<close> bytes from offset \<open>off\<close>, as \<open>len / 2\<close> words in network order.\<close>

definition ip_word_sum :: "u8 list \<Rightarrow> nat \<Rightarrow> nat \<Rightarrow> u32 res" where
  "ip_word_sum b off len =
     foldE (\<lambda>checksum i. bindE (buf_read 2 (off + 2 * i) b) (\<lambda>w. Inr (checksum + ucast (ntohs (ucast w)))))
       0 [0..<len div 2]"

definition nb__do_ip_checksum :: "u8 list \<Rightarrow> nat \<Rightarrow> nat \<Rightarrow> u16 res" where
  "nb__do_ip_checksum b off len =
     bindE (ip_word_sum b off len) (\<lambda>checksum.
     let lower = checksum AND 0xffff;
         upper = drop_bit 16 checksum AND 0xffff;
         checksum = lower + upper;
         lower = checksum AND 0xffff;
         upper = drop_bit 16 checksum AND 0xffff;
         checksum = lower + upper;
         lower = checksum AND 0xffff;
         lower = lower XOR 0xffff
     in Inr (htons (ucast lower)))"

section \<open>The hooks\<close>

definition routing_hook_establish ::
  "u64 \<Rightarrow> u32 \<Rightarrow> u32 \<Rightarrow> u32 \<Rightarrow> ('t, 'a) nb_state \<Rightarrow> (hook_status \<times> ('t, 'a) nb_state) res" where
  "routing_hook_establish c h a sa s =
     bindE (conn_upd c (\<lambda>x. x\<lparr>conn_dst_global_id := sa\<rparr>) s) (\<lambda>s. Inr (HOOK_CONTINUE, s))"

definition routing_hook_send ::
  "('t, 'a) nb_env \<Rightarrow> u64 \<Rightarrow> u64 \<Rightarrow> u32 \<Rightarrow> ('t, 'a) nb_state \<Rightarrow> (hook_status \<times> ('t, 'a) nb_state) res" where
  "routing_hook_send E c p len s =
     bindE (conn_get s c) (\<lambda>x.
     bindE (pkt_set E ''dst_global_id'' p (ucast (conn_dst_global_id x)) s) (\<lambda>s.
     bindE (pkt_set E ''src_global_id'' p (ucast (nb__my_host_id s)) s) (\<lambda>s.
     bindE
       (if isIPCompat (compat_level (cfg E)) then
          bindE (pkt_set E ''ip_VIDE'' p 0x0045 s) (\<lambda>s.
          bindE (pkt_set E ''ip_IFF'' p 0x0040724a s) (\<lambda>s.
          bindE (pkt_set E ''ip_ttl'' p 0x40 s) (\<lambda>s.
          bindE (pkt_set E ''ip_protocol'' p 0x11 s) (\<lambda>s.
          bindE (pkt_set E ''ip_header_checksum'' p 0 s) (\<lambda>s.
          let ip_len = htons (ucast (len + 28)) in
          bindE (pkt_set E ''ip_total_len'' p (ucast ip_len) s) (\<lambda>s.
          bindE (get_addr (net_packet E) ''ip_VIDE'') (\<lambda>header_addr.
          bindE (buf_get s p) (\<lambda>b.
          bindE (nb__do_ip_checksum b header_addr 20) (\<lambda>ck.
          pkt_set E ''ip_header_checksum'' p (ucast ck) s)))))))))
        else Inr s) (\<lambda>s.
     Inr (HOOK_CONTINUE, s)))))"

definition routing_hook_ingress ::
  "('t, 'a) nb_env \<Rightarrow> u64 \<Rightarrow> ('t, 'a) nb_state \<Rightarrow> (hook_status \<times> ('t, 'a) nb_state) res" where
  "routing_hook_ingress E p s =
     (if isIPCompat (compat_level (cfg E)) then
        bindE (pkt_get E ''ip_total_len'' p s) (\<lambda>w.
        let total_len = ntohs (ucast w) + 14 in
        bindE (pkt_set E ''computed_total_len'' p (ucast total_len) s) (\<lambda>s.
        Inr (HOOK_CONTINUE, s)))
      else Inr (HOOK_CONTINUE, s))"

end
