(* ===== verification/Basic_Modules.thy ===== *)
theory Basic_Modules
  imports NB_State
begin

text \<open>
  The payload, network and signaling modules (\<open>src/modules/payload_module.cpp\<close>,
  \<open>network_module.cpp\<close>, \<open>signaling_module.cpp\<close>).
\<close>

text \<open>
  The size of the headers on the wire, \<open>get_total_size() - get_headroom() - 1\<close>: the
  payload member counts for one byte.
\<close>

definition header_size :: "('t, 'a) nb_env \<Rightarrow> int res" where
  "header_size E =
     bindE (get_total_size (net_packet E)) (\<lambda>ts.
     bindE (get_headroom (net_packet E)) (\<lambda>hr. Inr (int ts - int hr - 1)))"

section \<open>Payload\<close>

text \<open>\<open>buff\<close> are the bytes at the pointer of the caller; the result has \<open>ret_len[0]\<close>.\<close>

definition payload_hook_send ::
  "('t, 'a) nb_env \<Rightarrow> u64 \<Rightarrow> u8 list \<Rightarrow> u32 \<Rightarrow> ('t, 'a) nb_state \<Rightarrow> (hook_status \<times> ('t, 'a) nb_state \<times> int) res" where
  "payload_hook_send E p buff len s =
     bindE (header_size E) (\<lambda>hs.
     let total = ucast (word_of_int hs + len :: u32) in
     bindE (if \<not> isIPCompat (compat_level (cfg E)) then pkt_set E ''total_len'' p total s else Inr s) (\<lambda>s.
     bindE (pkt_set E ''computed_total_len'' p total s) (\<lambda>s.
     bindE (get_addr (net_packet E) ''payload'') (\<lambda>addr.
     bindE (buf_updE p (mem_copy addr buff (unat len)) s) (\<lambda>s.
     Inr (HOOK_CONTINUE, s, sint len))))))"

definition payload_hook_ingress ::
  "('t, 'a) nb_env \<Rightarrow> u64 \<Rightarrow> ('t, 'a) nb_state \<Rightarrow> (hook_status \<times> ('t, 'a) nb_state) res" where
  "payload_hook_ingress E p s =
     bindE (if \<not> isIPCompat (compat_level (cfg E))
            then bindE (pkt_get E ''total_len'' p s) (\<lambda>n. pkt_set E ''computed_total_len'' p n s)
            else Inr s) (\<lambda>s.
     Inr (HOOK_CONTINUE, s))"

section \<open>Network\<close>

definition send_from_headroom :: "('t, 'a) nb_env \<Rightarrow> u64 \<Rightarrow> ('t, 'a) nb_state \<Rightarrow> ('t, 'a) nb_state res" where
  "send_from_headroom E p s =
     bindE (pkt_get E ''computed_total_len'' p s) (\<lambda>n. let size = ull_to_int n in
     bindE (get_headroom (net_packet E)) (\<lambda>hr.
     bindE (buf_get s p) (\<lambda>b.
     bindE (buf_slice hr size b) (\<lambda>bytes.
     bindE (send_packet E bytes s) (\<lambda>(ret, s). Inr s)))))"

definition network_hook_send ::
  "('t, 'a) nb_env \<Rightarrow> u64 \<Rightarrow> ('t, 'a) nb_state \<Rightarrow> (hook_status \<times> ('t, 'a) nb_state) res" where
  "network_hook_send E p s = bindE (send_from_headroom E p s) (\<lambda>s. Inr (HOOK_CONTINUE, s))"

definition network_hook_ingress ::
  "('t, 'a) nb_env \<Rightarrow> u64 \<Rightarrow> ('t, 'a) nb_state \<Rightarrow> (hook_status \<times> ('t, 'a) nb_state) res" where
  "network_hook_ingress E p s =
     bindE (if \<not> isIPCompat (compat_level (cfg E))
            then bindE (pkt_get E ''total_len'' p s) (\<lambda>n. pkt_set E ''computed_total_len'' p n s)
            else Inr s) (\<lambda>s.
     Inr (HOOK_CONTINUE, s))"

section \<open>Signaling\<close>

text \<open>
  \<open>send_after c p buff len\<close> runs the send hooks of the modules registered after the
  signaling module.
\<close>

definition signaling_after_hook_establish ::
  "('t, 'a) nb_env \<Rightarrow> (u64 \<Rightarrow> u64 \<Rightarrow> u8 list \<Rightarrow> u32 \<Rightarrow> ('t, 'a) nb_state \<Rightarrow> ('t, 'a) nb_state res) \<Rightarrow>
   u64 \<Rightarrow> u32 \<Rightarrow> u32 \<Rightarrow> u32 \<Rightarrow> ('t, 'a) nb_state \<Rightarrow> (hook_status \<times> ('t, 'a) nb_state) res" where
  "signaling_after_hook_establish E send_after c h a sa s =
     (if ucast h = nb__wildcard_host_identifier \<or> a = 0 then
        bindE (conn_upd c (\<lambda>x. x\<lparr>signaling_state := SIGNAL_NA\<rparr>) s) (\<lambda>s. Inr (HOOK_CONTINUE, s))
      else if \<not> signaling_is_enabled (cfg E) then
        bindE (conn_upd c (\<lambda>x. x\<lparr>signaling_state := SIGNALED\<rparr>) s) (\<lambda>s. Inr (HOOK_CONTINUE, s))
      else
        bindE (request_send_buffer E s) (\<lambda>(p_sig, s).
        bindE (conn_upd c (\<lambda>x. x\<lparr>signaling_state := WAITING_FOR_SIGNAL\<rparr>) s) (\<lambda>s.
        bindE (header_size E) (\<lambda>hs.
        bindE (if \<not> isIPCompat (compat_level (cfg E)) then pkt_set E ''total_len'' p_sig (word_of_int hs) s
               else Inr s) (\<lambda>s.
        bindE (pkt_set E ''computed_total_len'' p_sig (word_of_int hs) s) (\<lambda>s.
        bindE (send_after c p_sig [0] 0 s) (\<lambda>s.
        Inr (HOOK_CONTINUE, s))))))))"

definition signaling_hook_ingress ::
  "('t, 'a) nb_env \<Rightarrow> u64 \<Rightarrow> ('t, 'a) nb_state \<Rightarrow> (hook_status \<times> ('t, 'a) nb_state) res" where
  "signaling_hook_ingress E p s =
     bindE (pkt_get E ''flow_identifier'' p s) (\<lambda>c.
     bindE (conn_get s c) (\<lambda>x.
     bindE (if signaling_state x = WAITING_FOR_SIGNAL
            then conn_upd c (\<lambda>x. x\<lparr>signaling_state := SIGNALED\<rparr>) s else Inr s) (\<lambda>s.
     Inr (HOOK_CONTINUE, s))))"

end
