(* ===== verification/Inorder_Module.thy ===== *)
theory Inorder_Module
  imports Basic_Modules
begin

text \<open>
  The in-order module (\<open>src/modules/inorder_module.cpp\<close>): sequence numbers on the send path
  and the three delivery strategies on the ingress path. With \<open>hold_forever\<close> packets that
  arrive early wait in a buffer of 32 slots, indexed by the sequence number modulo 32.
\<close>

section \<open>The hooks\<close>

definition inorder_hook_establish ::
  "('t, 'a) nb_env \<Rightarrow> u64 \<Rightarrow> ('t, 'a) nb_state \<Rightarrow> (hook_status \<times> ('t, 'a) nb_state) res" where
  "inorder_hook_establish E c s =
     bindE (conn_upd c (\<lambda>x. x\<lparr>last_sent_sequence := 1010, last_recv_sequence := 0\<rparr>) s) (\<lambda>s.
     bindE
       (if inorder_strategy (cfg E) = hold_forever then
          conn_updE c (\<lambda>x.
            bindE (foldE (\<lambda>xs i. arr_set xs i 0) (inorder_buffer x) [0..<INORDER_BUFFER_SIZE]) (\<lambda>xs.
            Inr (x\<lparr>inorder_buffer := xs, max_ooo_sequence := 0\<rparr>))) s
        else Inr s) (\<lambda>s.
     Inr (HOOK_CONTINUE, s)))"

definition inorder_hook_send ::
  "('t, 'a) nb_env \<Rightarrow> u64 \<Rightarrow> u64 \<Rightarrow> ('t, 'a) nb_state \<Rightarrow> (hook_status \<times> ('t, 'a) nb_state) res" where
  "inorder_hook_send E c p s =
     bindE (conn_get s c) (\<lambda>x. let sq = last_sent_sequence x + 1 in
     bindE (conn_upd c (\<lambda>x. x\<lparr>last_sent_sequence := sq\<rparr>) s) (\<lambda>s.
     bindE (if inorder_strategy (cfg E) \<noteq> no_inorder \<or> reliable_is_enabled (cfg E)
            then pkt_set E ''sequence_number'' p (ucast sq) s else Inr s) (\<lambda>s.
     Inr (HOOK_CONTINUE, s))))"

text \<open>The length of the payload, and its insertion in the input queue when it is not empty.\<close>

definition payload_length :: "('t, 'a) nb_env \<Rightarrow> u64 \<Rightarrow> ('t, 'a) nb_state \<Rightarrow> int res" where
  "payload_length E p s =
     bindE (pkt_get E ''computed_total_len'' p s) (\<lambda>n.
     bindE (header_size E) (\<lambda>hs. Inr (ull_to_int (n - word_of_int hs))))"

definition deliver_payload ::
  "('t, 'a) nb_env \<Rightarrow> u64 \<Rightarrow> u64 \<Rightarrow> ('t, 'a) nb_state \<Rightarrow> ('t, 'a) nb_state res" where
  "deliver_payload E c p s =
     bindE (payload_length E p s) (\<lambda>payload_len.
     if payload_len \<noteq> 0 then
       bindE (get_addr (net_packet E) ''payload'') (\<lambda>addr.
       conn_updE c (\<lambda>x. bindE (nb__insert_data_queue (p, addr) payload_len (input_queue x)) (\<lambda>q.
         Inr (x\<lparr>input_queue := q\<rparr>))) s)
     else Inr s)"

text \<open>The delivery of one packet under \<open>hold_forever\<close>.\<close>

definition hold_deliver ::
  "('t, 'a) nb_env \<Rightarrow> u64 \<Rightarrow> u64 \<Rightarrow> ('t, 'a) nb_state \<Rightarrow> ('t, 'a) nb_state res" where
  "hold_deliver E c p s =
     bindE (pkt_get E ''total_len'' p s) (\<lambda>n.
     bindE (pkt_set E ''computed_total_len'' p n s) (\<lambda>s.
     deliver_payload E c p s))"

text \<open>
  One iteration of the loop over \<open>i\<close>: \<open>None\<close> when the slot is empty, else the
  packet of the slot is delivered and the slot cleared.
\<close>

definition drain_step ::
  "('t, 'a) nb_env \<Rightarrow> u64 \<Rightarrow> u32 \<Rightarrow> ('t, 'a) nb_state \<Rightarrow> ('t, 'a) nb_state option res" where
  "drain_step E c i s =
     bindE (conn_get s c) (\<lambda>x. let index = unat i mod INORDER_BUFFER_SIZE in
     bindE (arr_get (inorder_buffer x) index) (\<lambda>p.
     if p \<noteq> 0 then
       bindE (hold_deliver E c p s) (\<lambda>s.
       bindE (conn_updE c (\<lambda>x. bindE (arr_set (inorder_buffer x) index 0) (\<lambda>xs.
                Inr (x\<lparr>last_recv_sequence := i, inorder_buffer := xs\<rparr>))) s) (\<lambda>s.
       Inr (Some s)))
     else Inr None))"

text \<open>The loop; \<open>None\<close> is a loop that does not end.\<close>

partial_function (option) inorder_drain ::
  "('t, 'a) nb_env \<Rightarrow> u64 \<Rightarrow> u32 \<Rightarrow> ('t, 'a) nb_state \<Rightarrow> ('t, 'a) nb_state res option" where [code]:
  "inorder_drain E c i s =
     (case conn_get s c of
        Inl e \<Rightarrow> Some (Inl e)
      | Inr x \<Rightarrow>
          if i \<le> max_ooo_sequence x then
            (case drain_step E c i s of
               Inl e \<Rightarrow> Some (Inl e)
             | Inr None \<Rightarrow> Some (Inr s)
             | Inr (Some s') \<Rightarrow> inorder_drain E c (i + 1) s')
          else Some (Inr s))"

definition inorder_hook_ingress ::
  "('t, 'a) nb_env \<Rightarrow> u64 \<Rightarrow> ('t, 'a) nb_state \<Rightarrow> (hook_status \<times> ('t, 'a) nb_state) res" where
  "inorder_hook_ingress E p s =
     bindE (pkt_get E ''flow_identifier'' p s) (\<lambda>c.
     bindE (conn_get s c) (\<lambda>x. let last_seq = last_recv_sequence x in
     case inorder_strategy (cfg E) of
       drop_out_of_order \<Rightarrow>
         bindE (pkt_get E ''sequence_number'' p s) (\<lambda>w. let packet_seq = ucast w :: u32 in
         if last_seq < packet_seq then
           bindE (conn_upd c (\<lambda>x. x\<lparr>last_recv_sequence := packet_seq\<rparr>) s) (\<lambda>s.
           bindE (deliver_payload E c p s) (\<lambda>s.
           Inr (HOOK_CONTINUE, s)))
         else Inr (HOOK_DROP, s))
     | hold_forever \<Rightarrow>
         bindE (pkt_get E ''sequence_number'' p s) (\<lambda>w. let packet_seq = ucast w :: u32 in
         if last_seq = 0 \<or> packet_seq = last_seq + 1 then
           bindE (hold_deliver E c p s) (\<lambda>s.
           bindE (conn_upd c (\<lambda>x. x\<lparr>last_recv_sequence := packet_seq\<rparr>) s) (\<lambda>s.
           bindE (case inorder_drain E c (packet_seq + 1) s of None \<Rightarrow> Inl Diverges | Some r \<Rightarrow> r) (\<lambda>s.
           Inr (HOOK_CONTINUE, s))))
         else
           let index = unat packet_seq mod INORDER_BUFFER_SIZE in
           bindE (conn_updE c (\<lambda>x. bindE (arr_set (inorder_buffer x) index p) (\<lambda>xs.
                    Inr (if max_ooo_sequence x < packet_seq
                         then x\<lparr>inorder_buffer := xs, max_ooo_sequence := packet_seq\<rparr>
                         else x\<lparr>inorder_buffer := xs\<rparr>))) s) (\<lambda>s.
           Inr (HOOK_DROP, s)))
     | no_inorder \<Rightarrow>
         bindE (deliver_payload E c p s) (\<lambda>s.
         Inr (HOOK_CONTINUE, s))))"

section \<open>The loop ends\<close>

definition held_slots :: "u64 list \<Rightarrow> nat" where
  "held_slots xs = length (filter (\<lambda>p. p \<noteq> 0) xs)"

lemma held_slots_clear: "i < length xs \<Longrightarrow> xs ! i \<noteq> 0 \<Longrightarrow> held_slots (xs[i := 0]) < held_slots xs"
proof (induction xs arbitrary: i)
  case (Cons x xs)
  then show ?case by (cases i) (auto simp: held_slots_def)
qed simp

text \<open>Delivering a packet changes the input queue of the connection and nothing else of it.\<close>

lemma deliver_payload_conn:
  assumes "deliver_payload E c p s = Inr s'" "conns s c = Some x"
  shows "\<exists>q. conns s' c = Some (x\<lparr>input_queue := q\<rparr>)"
proof (cases "payload_length E p s = Inr 0")
  case True
  with assms show ?thesis
    by (intro exI [of _ "input_queue x"]) (simp add: deliver_payload_def)
next
  case False
  with assms show ?thesis
    by (auto simp: deliver_payload_def stateE split: if_splits)
qed

lemma hold_deliver_conn:
  assumes "hold_deliver E c p s = Inr s'" "conns s c = Some x"
  shows "\<exists>q. conns s' c = Some (x\<lparr>input_queue := q\<rparr>)"
proof -
  from assms(1) obtain b' where "deliver_payload E c p (s\<lparr>bufs := (bufs s)(p \<mapsto> b')\<rparr>) = Inr s'"
    by (auto simp: hold_deliver_def stateE)
  then show ?thesis by (rule deliver_payload_conn) (simp add: assms(2))
qed

lemma drain_step_conn:
  assumes "drain_step E c i s = Inr (Some s')"
  defines "k \<equiv> unat i mod INORDER_BUFFER_SIZE"
  shows "\<exists>x q. conns s c = Some x \<and> k < length (inorder_buffer x) \<and> inorder_buffer x ! k \<noteq> 0 \<and>
    conns s' c = Some (x\<lparr>input_queue := q, last_recv_sequence := i, inorder_buffer := (inorder_buffer x)[k := 0]\<rparr>)"
proof -
  from assms obtain x s1 x1 where x: "conns s c = Some x" "k < length (inorder_buffer x)"
    "inorder_buffer x ! k \<noteq> 0" "hold_deliver E c (inorder_buffer x ! k) s = Inr s1" "conns s1 c = Some x1"
    "s' = s1\<lparr>conns := (conns s1)(c \<mapsto> x1\<lparr>last_recv_sequence := i, inorder_buffer := (inorder_buffer x1)[k := 0]\<rparr>)\<rparr>"
    by (auto simp: drain_step_def Let_def stateE split: if_splits)
  obtain q where "conns s1 c = Some (x\<lparr>input_queue := q\<rparr>)"
    using hold_deliver_conn [OF x(4,1)] by blast
  with x show ?thesis by (intro exI [of _ x] exI [of _ q]) auto
qed

lemma inorder_drain_returns: "\<exists>r. inorder_drain E c i s = Some r"
proof (induction "case conns s c of None \<Rightarrow> 0 | Some x \<Rightarrow> held_slots (inorder_buffer x)" arbitrary: i s rule: less_induct)
  case less
  show ?case
  proof (cases "\<exists>s'. drain_step E c i s = Inr (Some s')")
    case True
    then obtain s' where s': "drain_step E c i s = Inr (Some s')" by blast
    from drain_step_conn [OF this] obtain x q where x: "conns s c = Some x"
      "unat i mod INORDER_BUFFER_SIZE < length (inorder_buffer x)"
      "inorder_buffer x ! (unat i mod INORDER_BUFFER_SIZE) \<noteq> 0"
      "conns s' c = Some (x\<lparr>input_queue := q, last_recv_sequence := i,
         inorder_buffer := (inorder_buffer x)[unat i mod INORDER_BUFFER_SIZE := 0]\<rparr>)"
      by blast
    then have "\<exists>r. inorder_drain E c (i + 1) s' = Some r"
      by (intro less) (simp add: held_slots_clear)
    with s' show ?thesis
      by (subst inorder_drain.simps) (auto split: sum.split)
  next
    case False
    then show ?thesis
      by (subst inorder_drain.simps) (auto split: sum.split option.split)
  qed
qed

section \<open>In-order delivery within the window\<close>

text \<open>
  The layout facts that delivery uses: the two length members are separate, the payload is at byte
  \<open>addr\<close>, the headers on the wire have \<open>hs\<close> bytes.
\<close>

definition inorder_env :: "('t, 'a) nb_env \<Rightarrow> nat \<Rightarrow> nat \<Rightarrow> nat \<Rightarrow> int \<Rightarrow> bool" where
  "inorder_env E q t addr hs \<longleftrightarrow>
     int_member_at (net_packet E) ''computed_total_len'' signed_int q \<and>
     int_member_at (net_packet E) ''total_len'' signed_int t \<and> (q + 4 \<le> t \<or> t + 4 \<le> q) \<and>
     get_addr (net_packet E) ''payload'' = Inr addr \<and> header_size E = Inr hs"

text \<open>A packet in memory with total length \<open>n\<close>.\<close>

definition pkt_ok :: "('t, 'a) nb_env \<Rightarrow> nat \<Rightarrow> nat \<Rightarrow> ('t, 'a) nb_state \<Rightarrow> u64 \<Rightarrow> u64 \<Rightarrow> bool" where
  "pkt_ok E q t s p n \<longleftrightarrow> p \<noteq> 0 \<and>
     (case bufs s p of
        None \<Rightarrow> False
      | Some b \<Rightarrow> q + 4 \<le> length b \<and> t + 4 \<le> length b \<and> get_integer (net_packet E) ''total_len'' b = Inr n)"

text \<open>What a delivered packet adds to the input queue.\<close>

definition queue_entry :: "nat \<Rightarrow> int \<Rightarrow> u64 \<Rightarrow> u64 \<Rightarrow> (payload_ptr \<times> int) list" where
  "queue_entry addr hs p n =
     (let len = ull_to_int (n - word_of_int hs) in if len \<noteq> 0 then [((p, addr), len)] else [])"

lemma hold_deliver_ok:
  assumes E: "inorder_env E q t addr hs" and p: "pkt_ok E q t s p n"
    and c: "c \<noteq> 0" "conns s c = Some x" "dq_inv (input_queue x)" "dq_current_elems (input_queue x) < MAX_DATA_QUEUE_ELEMS"
  shows "\<exists>b' dq. hold_deliver E c p s = Inr (s\<lparr>bufs := (bufs s)(p \<mapsto> b'), conns := (conns s)(c \<mapsto> x\<lparr>input_queue := dq\<rparr>)\<rparr>) \<and>
    dq_inv dq \<and> dq_list dq = dq_list (input_queue x) @ queue_entry addr hs p n \<and>
    (\<forall>p' n'. pkt_ok E q t s p' n' \<longrightarrow>
       pkt_ok E q t (s\<lparr>bufs := (bufs s)(p \<mapsto> b'), conns := (conns s)(c \<mapsto> x\<lparr>input_queue := dq\<rparr>)\<rparr>) p' n')"
proof -
  note E' = E [unfolded inorder_env_def]
  from p obtain b where b: "p \<noteq> 0" "bufs s p = Some b" "q + 4 \<le> length b" "t + 4 \<le> length b"
    "get_integer (net_packet E) ''total_len'' b = Inr n"
    by (auto simp: pkt_ok_def split: option.splits)
  have fits: "fits_T signed_int n"
    using E' b(5) by (intro int_member_get_fits) auto
  obtain b' where b': "set_integer (net_packet E) ''computed_total_len'' n b = Inr b'" "length b' = length b"
    "get_integer (net_packet E) ''computed_total_len'' b' = Inr n"
    "\<And>i. i < length b \<Longrightarrow> i < q \<or> q + 4 \<le> i \<Longrightarrow> b' ! i = b ! i"
    using int_member_put [of "net_packet E" "''computed_total_len''" signed_int q b n] E' b(3) fits
    by (auto simp: fits_T_def)
  have "get_integer (net_packet E) ''total_len'' b' = get_integer (net_packet E) ''total_len'' b"
    using E' b b' by (intro int_member_get_cong [of _ _ signed_int t]) auto
  then have keep: "pkt_ok E q t (s\<lparr>bufs := (bufs s)(p \<mapsto> b'), conns := f\<rparr>) p' n'" if "pkt_ok E q t s p' n'" for f p' n'
    using that b b' by (auto simp: pkt_ok_def)
  let ?s = "s\<lparr>bufs := (bufs s)(p \<mapsto> b')\<rparr>"
  have set: "pkt_set E ''computed_total_len'' p n s = Inr ?s"
    using b b' by (intro pkt_set_ok) auto
  have len: "payload_length E p ?s = Inr (ull_to_int (n - word_of_int hs))"
    using E' b b' by (simp add: payload_length_def pkt_get_def)
  have get: "pkt_get E ''total_len'' p s = Inr n"
    using b by (simp add: pkt_get_def)
  show ?thesis
  proof (cases "ull_to_int (n - word_of_int hs) = 0")
    case True
    then show ?thesis
      using get set len c keep [of _ _ "(conns s)(c \<mapsto> x)"]
      by (intro exI [of _ b'] exI [of _ "input_queue x"])
        (auto simp: hold_deliver_def deliver_payload_def queue_entry_def fun_upd_idem)
  next
    case False
    obtain dq where dq: "nb__insert_data_queue (p, addr) (ull_to_int (n - word_of_int hs)) (input_queue x) = Inr dq"
      "dq_inv dq" "dq_list dq = dq_list (input_queue x) @ [((p, addr), ull_to_int (n - word_of_int hs))]"
      using dq_insert_ok [OF c(3), of "(p, addr)"] c(4) by auto
    then show ?thesis
      using False get set len c E' keep
      by (intro exI [of _ b'] exI [of _ dq])
        (auto simp: hold_deliver_def deliver_payload_def queue_entry_def conn_updE_def)
  qed
qed

text \<open>
  \<open>window_inv x n held\<close>: \<open>n\<close> is the last sequence number that was delivered,
  and the buffer holds exactly the packets \<open>held\<close> with numbers up to \<open>n + 32\<close>.
\<close>

definition window_inv :: "nb__connection_t \<Rightarrow> nat \<Rightarrow> (nat \<Rightarrow> u64 option) \<Rightarrow> bool" where
  "window_inv x n held \<longleftrightarrow> unat (last_recv_sequence x) = n \<and> length (inorder_buffer x) = INORDER_BUFFER_SIZE \<and>
     (\<forall>k p. n < k \<and> held k = Some p \<longrightarrow> p \<noteq> 0 \<and> k \<le> n + 32 \<and> k \<le> unat (max_ooo_sequence x)) \<and>
     (\<forall>k. n < k \<and> k \<le> n + 32 \<longrightarrow> inorder_buffer x ! (k mod 32) = (case held k of None \<Rightarrow> 0 | Some p \<Rightarrow> p))"

lemma unat_of_nat_u32: "k < 2 ^ 32 \<Longrightarrow> unat (of_nat k :: u32) = k"
  by (simp add: unsigned_of_nat take_bit_nat_eq_self)

lemma mod_window:
  assumes "n < k" "k \<le> n + 32" "n < j" "j \<le> n + (32::nat)" "k mod 32 = j mod 32"
  shows "k = j"
  using assms mod_neq_near [of k j 32] mod_neq_near [of j k 32] by (cases k j rule: linorder_cases) auto

lemma window_invI:
  assumes "unat (last_recv_sequence x) = n" "length (inorder_buffer x) = 32"
    "\<And>k p. n < k \<Longrightarrow> held k = Some p \<Longrightarrow> p \<noteq> 0 \<and> k \<le> n + 32 \<and> k \<le> unat (max_ooo_sequence x)"
    "\<And>k. n < k \<Longrightarrow> k \<le> n + 32 \<Longrightarrow> inorder_buffer x ! (k mod 32) = (case held k of None \<Rightarrow> 0 | Some p \<Rightarrow> p)"
  shows "window_inv x n held"
  unfolding window_inv_def INORDER_BUFFER_SIZE_def using assms by blast

lemma window_invD:
  assumes "window_inv x n held"
  shows "unat (last_recv_sequence x) = n" "length (inorder_buffer x) = 32"
    "\<And>k p. n < k \<Longrightarrow> held k = Some p \<Longrightarrow> p \<noteq> 0 \<and> k \<le> n + 32 \<and> k \<le> unat (max_ooo_sequence x)"
    "\<And>k. n < k \<Longrightarrow> k \<le> n + 32 \<Longrightarrow> inorder_buffer x ! (k mod 32) = (case held k of None \<Rightarrow> 0 | Some p \<Rightarrow> p)"
  using assms by (simp_all add: window_inv_def INORDER_BUFFER_SIZE_def)

lemma window_inv_step:
  assumes w: "window_inv x n held" and b: "n + 1 < 2 ^ 32"
  shows "window_inv (x\<lparr>input_queue := dq, last_recv_sequence := of_nat (n + 1),
    inorder_buffer := (inorder_buffer x)[(n + 1) mod 32 := 0]\<rparr>) (n + 1) held"
proof -
  note w' = window_invD [OF w]
  have "(inorder_buffer x)[(n + 1) mod 32 := 0] ! (k mod 32) = (case held k of None \<Rightarrow> 0 | Some p \<Rightarrow> p)"
    if k: "n + 1 < k" "k \<le> n + 1 + 32" for k
  proof (cases "k = n + 1 + 32")
    case True
    have "held k = None"
      using w'(3) [of k] True by (cases "held k") auto
    moreover have "k mod 32 = (n + 1) mod 32" unfolding True by (rule mod_add_self2)
    ultimately show ?thesis using w'(2) by simp
  next
    case False
    with k have "k mod 32 \<noteq> (n + 1) mod 32" using mod_window [of n k "n + 1"] by auto
    with k False w'(2,4) show ?thesis by simp
  qed
  moreover have "unat (of_nat (n + 1) :: u32) = n + 1"
    using b by (rule unat_of_nat_u32)
  moreover have "p \<noteq> 0 \<and> k \<le> n + 1 + 32 \<and> k \<le> unat (max_ooo_sequence x)" if "n + 1 < k" "held k = Some p" for k p
    using w'(3) [of k p] that by simp
  ultimately show ?thesis using w'(2) by (intro window_invI) auto
qed

definition queue_entries :: "nat \<Rightarrow> int \<Rightarrow> (u64 \<Rightarrow> u64) \<Rightarrow> (nat \<Rightarrow> u64 option) \<Rightarrow> nat \<Rightarrow> nat \<Rightarrow> (payload_ptr \<times> int) list" where
  "queue_entries addr hs tlen held n n' =
     concat (map (\<lambda>k. queue_entry addr hs (the (held k)) (tlen (the (held k)))) [n + 1..<n' + 1])"

lemma queue_entries_Cons:
  "n < n' \<Longrightarrow> queue_entries addr hs tlen held n n' =
     queue_entry addr hs (the (held (n + 1))) (tlen (the (held (n + 1)))) @ queue_entries addr hs tlen held (n + 1) n'"
  using upt_conv_Cons [of "n + 1" "n' + 1"] by (simp add: queue_entries_def del: upt_Suc)

lemma queue_entry_length: "length (queue_entry addr hs p n) \<le> 1"
  by (simp add: queue_entry_def Let_def)

text \<open>The loop from \<open>n + 1\<close> delivers the packets that follow without a gap, and stops before the gap.\<close>

lemma inorder_drain_ok:
  assumes E: "inorder_env E q t addr hs" and c: "c \<noteq> 0" "conns s c = Some x" and w: "window_inv x n held"
    and pk: "\<And>k p. n < k \<Longrightarrow> held k = Some p \<Longrightarrow> k \<le> N \<and> pkt_ok E q t s p (tlen p)"
    and N: "n \<le> N" "N + 1 < 2 ^ 32"
    and dq: "dq_inv (input_queue x)" "dq_current_elems (input_queue x) + (N - n) \<le> MAX_DATA_QUEUE_ELEMS"
  shows "\<exists>s' x' n'. inorder_drain E c (of_nat (n + 1)) s = Some (Inr s') \<and> conns s' c = Some x' \<and>
    n \<le> n' \<and> (\<forall>j. n < j \<and> j \<le> n' \<longrightarrow> held j \<noteq> None) \<and> held (n' + 1) = None \<and> window_inv x' n' held \<and>
    dq_inv (input_queue x') \<and> dq_list (input_queue x') = dq_list (input_queue x) @ queue_entries addr hs tlen held n n' \<and>
    (\<forall>p m. pkt_ok E q t s p m \<longrightarrow> pkt_ok E q t s' p m)"
  using c w pk N dq
proof (induction "N - n" arbitrary: n s x rule: less_induct)
  case less
  note w' = window_invD [OF less.prems(3)]
  let ?i = "of_nat (n + 1) :: u32" and ?k = "(n + 1) mod 32"
  have i: "unat ?i = n + 1"
    using less.prems(5,6) by (intro unat_of_nat_u32) simp
  have slot: "inorder_buffer x ! ?k = (case held (n + 1) of None \<Rightarrow> 0 | Some p \<Rightarrow> p)"
    by (rule w'(4)) simp_all
  show ?case
  proof (cases "held (n + 1)")
    case None
    have "drain_step E c ?i s = Inr None"
      using less.prems(1,2) None slot w'(2) i by (simp add: drain_step_def Let_def INORDER_BUFFER_SIZE_def)
    then have "inorder_drain E c ?i s = Some (Inr s)"
      using less.prems(1,2) by (subst inorder_drain.simps) simp
    then show ?thesis
      using less.prems None by (intro exI [of _ s] exI [of _ x] exI [of _ n]) (auto simp: queue_entries_def)
  next
    case (Some p)
    have p: "n + 1 \<le> N" "pkt_ok E q t s p (tlen p)" "p \<noteq> 0" "n + 1 \<le> unat (max_ooo_sequence x)"
      using less.prems(4) [of "n + 1" p] w'(3) [of "n + 1" p] Some by auto
    have room: "dq_current_elems (input_queue x) < MAX_DATA_QUEUE_ELEMS"
      using p(1) less.prems(8) by linarith
    obtain b dq where d: "hold_deliver E c p s =
        Inr (s\<lparr>bufs := (bufs s)(p \<mapsto> b), conns := (conns s)(c \<mapsto> x\<lparr>input_queue := dq\<rparr>)\<rparr>)"
      "dq_inv dq" "dq_list dq = dq_list (input_queue x) @ queue_entry addr hs p (tlen p)"
      "\<And>p' n'. pkt_ok E q t s p' n' \<Longrightarrow>
         pkt_ok E q t (s\<lparr>bufs := (bufs s)(p \<mapsto> b), conns := (conns s)(c \<mapsto> x\<lparr>input_queue := dq\<rparr>)\<rparr>) p' n'"
      using hold_deliver_ok [OF E p(2) less.prems(1,2,7) room] by blast
    let ?x = "x\<lparr>input_queue := dq, last_recv_sequence := ?i, inorder_buffer := (inorder_buffer x)[?k := 0]\<rparr>"
    let ?s = "s\<lparr>bufs := (bufs s)(p \<mapsto> b), conns := (conns s)(c \<mapsto> ?x)\<rparr>"
    have "drain_step E c ?i s = Inr (Some ?s)"
      using less.prems(1,2) Some slot w'(2) i p(3) d(1)
      by (simp add: drain_step_def Let_def INORDER_BUFFER_SIZE_def conn_updE_def)
    moreover have "?i \<le> max_ooo_sequence x"
      using p(4) i by (simp add: word_le_nat_alt)
    ultimately have step: "inorder_drain E c ?i s = inorder_drain E c (of_nat (n + 1 + 1)) ?s"
      using less.prems(1,2) by (subst inorder_drain.simps) (simp add: add.commute)
    have ok: "pkt_ok E q t ?s p' m" if "pkt_ok E q t s p' m" for p' m
      using d(4) [OF that] by (simp add: pkt_ok_def)
    have "length (dq_list dq) \<le> length (dq_list (input_queue x)) + 1"
      using d(3) queue_entry_length [of addr hs p "tlen p"] by simp
    then have len: "dq_current_elems dq + (N - (n + 1)) \<le> MAX_DATA_QUEUE_ELEMS"
      using d(2) less.prems(7,8) p(1) by simp
    have "\<exists>s' x' n'. inorder_drain E c (of_nat (n + 1 + 1)) ?s = Some (Inr s') \<and> conns s' c = Some x' \<and>
      n + 1 \<le> n' \<and> (\<forall>j. n + 1 < j \<and> j \<le> n' \<longrightarrow> held j \<noteq> None) \<and> held (n' + 1) = None \<and> window_inv x' n' held \<and>
      dq_inv (input_queue x') \<and>
      dq_list (input_queue x') = dq_list (input_queue ?x) @ queue_entries addr hs tlen held (n + 1) n' \<and>
      (\<forall>p m. pkt_ok E q t ?s p m \<longrightarrow> pkt_ok E q t s' p m)"
    proof (rule less.hyps)
      show "window_inv ?x (n + 1) held"
        using less.prems(3,5,6) by (intro window_inv_step) auto
      show "k \<le> N \<and> pkt_ok E q t ?s p (tlen p)" if "n + 1 < k" "held k = Some p" for k p
        using less.prems(4) [of k p] that ok by auto
    qed (use less.prems p(1) d(2) len in auto)
    then obtain s' x' n' where r: "inorder_drain E c (of_nat (n + 1 + 1)) ?s = Some (Inr s')" "conns s' c = Some x'"
      "n + 1 \<le> n'" "\<forall>j. n + 1 < j \<and> j \<le> n' \<longrightarrow> held j \<noteq> None" "held (n' + 1) = None" "window_inv x' n' held"
      "dq_inv (input_queue x')"
      "dq_list (input_queue x') = dq_list (input_queue ?x) @ queue_entries addr hs tlen held (n + 1) n'"
      "\<forall>p m. pkt_ok E q t ?s p m \<longrightarrow> pkt_ok E q t s' p m"
      by blast
    have "held j \<noteq> None" if "n < j" "j \<le> n'" for j
      using r(4) Some that by (cases "j = n + 1") auto
    moreover have "dq_list (input_queue x') = dq_list (input_queue x) @ queue_entries addr hs tlen held n n'"
      using r(3,8) d(3) Some by (simp add: queue_entries_Cons)
    ultimately show ?thesis
      using r step ok by (intro exI [of _ s'] exI [of _ x'] exI [of _ n']) auto
  qed
qed

lemma window_inv_cong:
  assumes w: "window_inv x n held" and eq: "\<And>k. n < k \<Longrightarrow> held' k = held k"
  shows "window_inv x n held'"
  using window_invD [OF w] eq by (intro window_invI) auto

lemma queue_entries_cong:
  "(\<And>k. n < k \<Longrightarrow> k \<le> n' \<Longrightarrow> held k = held' k) \<Longrightarrow> queue_entries addr hs tlen held n n' = queue_entries addr hs tlen held' n n'"
  unfolding queue_entries_def by (intro arg_cong [of _ _ concat] map_cong) auto

text \<open>A packet that arrives early is put in its slot.\<close>

lemma inorder_shelve:
  assumes w: "window_inv x n held" and k: "n < k" "k \<le> n + 32" "unat sq = k" and p: "p \<noteq> 0"
  shows "window_inv (x\<lparr>inorder_buffer := (inorder_buffer x)[k mod 32 := p],
    max_ooo_sequence := (if max_ooo_sequence x < sq then sq else max_ooo_sequence x)\<rparr>) n (held(k \<mapsto> p))"
proof -
  note w' = window_invD [OF w]
  have "(inorder_buffer x)[k mod 32 := p] ! (j mod 32) = (case (held(k \<mapsto> p)) j of None \<Rightarrow> 0 | Some p \<Rightarrow> p)"
    if j: "n < j" "j \<le> n + 32" for j
  proof (cases "j = k")
    case False
    with j k have "j mod 32 \<noteq> k mod 32" using mod_window [of n j k] by auto
    with False j w'(2,4) show ?thesis by simp
  qed (use w'(2) in simp)
  moreover have "p' \<noteq> 0 \<and> j \<le> n + 32 \<and> j \<le> unat (if max_ooo_sequence x < sq then sq else max_ooo_sequence x)"
    if "n < j" "(held(k \<mapsto> p)) j = Some p'" for j p'
    using that k p w'(3) [of j p'] by (auto simp: word_less_nat_alt split: if_splits)
  ultimately show ?thesis
    using w'(1,2) by (intro window_invI) auto
qed

lemma inorder_deliver_next:
  assumes E: "inorder_env E q t addr hs" "inorder_strategy (cfg E) = hold_forever"
    and c: "c \<noteq> 0" "conns s c = Some x" and w: "window_inv x n held"
    and pk: "\<forall>k p. n < k \<and> held k = Some p \<longrightarrow> pkt_ok E q t s p (tlen p)"
    and p: "pkt_ok E q t s p (tlen p)" and new: "held (n + 1) = None"
    and flow: "pkt_get E ''flow_identifier'' p s = Inr c" "pkt_get E ''sequence_number'' p s = Inr sq"
    and sq: "unat (ucast sq :: u32) = n + 1" and n: "n + 33 < 2 ^ 32"
    and dq: "dq_inv (input_queue x)" "dq_current_elems (input_queue x) + 32 \<le> MAX_DATA_QUEUE_ELEMS"
  shows "\<exists>s' x' n'. inorder_hook_ingress E p s = Inr (HOOK_CONTINUE, s') \<and> conns s' c = Some x' \<and> n + 1 \<le> n' \<and>
    (\<forall>j. n + 1 < j \<and> j \<le> n' \<longrightarrow> held j \<noteq> None) \<and> held (n' + 1) = None \<and> window_inv x' n' held \<and>
    dq_inv (input_queue x') \<and> dq_list (input_queue x') =
      dq_list (input_queue x) @ queue_entry addr hs p (tlen p) @ queue_entries addr hs tlen held (n + 1) n' \<and>
    (\<forall>p m. pkt_ok E q t s p m \<longrightarrow> pkt_ok E q t s' p m)"
proof -
  note w' = window_invD [OF w]
  have sq': "(ucast sq :: u32) = of_nat (n + 1)" "last_recv_sequence x = of_nat n"
    using n sq w'(1) by (auto simp: word_unat_eq_iff unat_of_nat_u32 simp del: of_nat_add of_nat_Suc)
  obtain b dq where d: "hold_deliver E c p s =
      Inr (s\<lparr>bufs := (bufs s)(p \<mapsto> b), conns := (conns s)(c \<mapsto> x\<lparr>input_queue := dq\<rparr>)\<rparr>)"
    "dq_inv dq" "dq_list dq = dq_list (input_queue x) @ queue_entry addr hs p (tlen p)"
    "\<And>p' n'. pkt_ok E q t s p' n' \<Longrightarrow>
       pkt_ok E q t (s\<lparr>bufs := (bufs s)(p \<mapsto> b), conns := (conns s)(c \<mapsto> x\<lparr>input_queue := dq\<rparr>)\<rparr>) p' n'"
    using hold_deliver_ok [OF E(1) p c dq(1)] dq(2) by auto
  let ?x = "x\<lparr>input_queue := dq, last_recv_sequence := of_nat (n + 1)\<rparr>"
  let ?s = "s\<lparr>bufs := (bufs s)(p \<mapsto> b), conns := (conns s)(c \<mapsto> ?x)\<rparr>"
  have ok: "pkt_ok E q t ?s p' m" if "pkt_ok E q t s p' m" for p' m
    using d(4) [OF that] by (simp add: pkt_ok_def)
  have "inorder_buffer x ! ((n + 1) mod 32) = 0"
    using w'(4) [of "n + 1"] new by simp
  then have "(inorder_buffer x)[(n + 1) mod 32 := 0] = inorder_buffer x"
    by (metis list_update_id)
  then have win: "window_inv ?x (n + 1) held"
    using window_inv_step [OF w, of dq] n by simp
  have "length (dq_list dq) \<le> length (dq_list (input_queue x)) + 1"
    using d(3) queue_entry_length [of addr hs p "tlen p"] by simp
  then have len: "dq_current_elems dq + (n + 32 - (n + 1)) \<le> MAX_DATA_QUEUE_ELEMS"
    using d(2) dq by simp
  have held_ok: "k \<le> n + 32 \<and> pkt_ok E q t ?s p' (tlen p')" if "n + 1 < k" "held k = Some p'" for k p'
    using ok [OF pk [rule_format, of k p']] w'(3) [of k p'] that by simp
  have "\<exists>s' x' n'. inorder_drain E c (of_nat (n + 1 + 1)) ?s = Some (Inr s') \<and> conns s' c = Some x' \<and>
    n + 1 \<le> n' \<and> (\<forall>j. n + 1 < j \<and> j \<le> n' \<longrightarrow> held j \<noteq> None) \<and> held (n' + 1) = None \<and> window_inv x' n' held \<and>
    dq_inv (input_queue x') \<and>
    dq_list (input_queue x') = dq_list (input_queue ?x) @ queue_entries addr hs tlen held (n + 1) n' \<and>
    (\<forall>p m. pkt_ok E q t ?s p m \<longrightarrow> pkt_ok E q t s' p m)"
    by (rule inorder_drain_ok [OF E(1) c(1) _ win held_ok]) (use n d(2) len in auto)
  then obtain s' x' n' where r: "inorder_drain E c (of_nat (n + 1 + 1)) ?s = Some (Inr s')" "conns s' c = Some x'"
    "n + 1 \<le> n'" "\<forall>j. n + 1 < j \<and> j \<le> n' \<longrightarrow> held j \<noteq> None" "held (n' + 1) = None" "window_inv x' n' held"
    "dq_inv (input_queue x')"
    "dq_list (input_queue x') = dq_list (input_queue ?x) @ queue_entries addr hs tlen held (n + 1) n'"
    "\<forall>p m. pkt_ok E q t ?s p m \<longrightarrow> pkt_ok E q t s' p m"
    by blast
  have "inorder_hook_ingress E p s = Inr (HOOK_CONTINUE, s')"
    using E(2) c flow d(1) r(1) sq' by (simp add: inorder_hook_ingress_def Let_def add.commute add.left_commute)
  with r ok d(3) show ?thesis
    by (intro exI [of _ s'] exI [of _ x'] exI [of _ n']) auto
qed

lemma inorder_ingress_window:
  assumes E: "inorder_env E q t addr hs" "inorder_strategy (cfg E) = hold_forever"
    and c: "c \<noteq> 0" "conns s c = Some x" and w: "window_inv x n held" and n: "0 < n" "n + 33 < 2 ^ 32"
    and pk: "\<forall>k p. n < k \<and> held k = Some p \<longrightarrow> pkt_ok E q t s p (tlen p)" and next0: "held (n + 1) = None"
    and p: "pkt_ok E q t s p (tlen p)"
    and flow: "pkt_get E ''flow_identifier'' p s = Inr c" "pkt_get E ''sequence_number'' p s = Inr sq"
    and sq: "unat (ucast sq :: u32) = k" "n < k" "k \<le> n + 32" "held k = None"
    and dq: "dq_inv (input_queue x)" "dq_current_elems (input_queue x) + 32 \<le> MAX_DATA_QUEUE_ELEMS"
  shows "\<exists>st s' x' n'. inorder_hook_ingress E p s = Inr (st, s') \<and> conns s' c = Some x' \<and> n \<le> n' \<and>
    (\<forall>j. n < j \<and> j \<le> n' \<longrightarrow> (held(k \<mapsto> p)) j \<noteq> None) \<and> (held(k \<mapsto> p)) (n' + 1) = None \<and>
    window_inv x' n' (held(k \<mapsto> p)) \<and> dq_inv (input_queue x') \<and>
    dq_list (input_queue x') = dq_list (input_queue x) @ queue_entries addr hs tlen (held(k \<mapsto> p)) n n' \<and>
    (\<forall>p m. pkt_ok E q t s p m \<longrightarrow> pkt_ok E q t s' p m)"
proof (cases "k = n + 1")
  case True
  obtain s' x' n' where r: "inorder_hook_ingress E p s = Inr (HOOK_CONTINUE, s')" "conns s' c = Some x'" "n + 1 \<le> n'"
    "\<forall>j. n + 1 < j \<and> j \<le> n' \<longrightarrow> held j \<noteq> None" "held (n' + 1) = None" "window_inv x' n' held"
    "dq_inv (input_queue x')" "dq_list (input_queue x') =
      dq_list (input_queue x) @ queue_entry addr hs p (tlen p) @ queue_entries addr hs tlen held (n + 1) n'"
    "\<forall>p m. pkt_ok E q t s p m \<longrightarrow> pkt_ok E q t s' p m"
    using inorder_deliver_next [OF E c w pk p next0 flow sq(1) [unfolded True] n(2) dq] by blast
  have "queue_entries addr hs tlen (held(k \<mapsto> p)) (n + 1) n' = queue_entries addr hs tlen held (n + 1) n'"
    using True by (intro queue_entries_cong) auto
  then have "queue_entries addr hs tlen (held(k \<mapsto> p)) n n' =
      queue_entry addr hs p (tlen p) @ queue_entries addr hs tlen held (n + 1) n'"
    using True r(3) by (simp add: queue_entries_Cons)
  moreover have "window_inv x' n' (held(k \<mapsto> p))"
    using r(3) True by (intro window_inv_cong [OF r(6)]) auto
  moreover have "(held(k \<mapsto> p)) j \<noteq> None" if "n < j" "j \<le> n'" for j
    using r(4) that True by (cases "j = n + 1") auto
  ultimately show ?thesis
    using r True by (intro exI [of _ HOOK_CONTINUE] exI [of _ s'] exI [of _ x'] exI [of _ n']) auto
next
  case False
  note w' = window_invD [OF w]
  let ?sq = "ucast sq :: u32"
  have last: "last_recv_sequence x = of_nat n"
    using n w'(1) by (simp add: word_unat_eq_iff unat_of_nat_u32)
  then have "last_recv_sequence x + 1 = of_nat (n + 1)" by simp
  then have "last_recv_sequence x \<noteq> 0" "?sq \<noteq> last_recv_sequence x + 1"
    using False n sq(1) w'(1) unat_of_nat_u32 [of "n + 1"] by (auto simp: add.commute)
  moreover have "k mod 32 < length (inorder_buffer x)" using w'(2) by simp
  ultimately have "inorder_hook_ingress E p s = Inr (HOOK_DROP, s\<lparr>conns := (conns s)(c \<mapsto>
      x\<lparr>inorder_buffer := (inorder_buffer x)[k mod 32 := p],
        max_ooo_sequence := (if max_ooo_sequence x < ?sq then ?sq else max_ooo_sequence x)\<rparr>)\<rparr>)"
    using E(2) c flow sq(1) by (simp add: inorder_hook_ingress_def Let_def conn_updE_def INORDER_BUFFER_SIZE_def)
  moreover have "window_inv (x\<lparr>inorder_buffer := (inorder_buffer x)[k mod 32 := p],
      max_ooo_sequence := (if max_ooo_sequence x < ?sq then ?sq else max_ooo_sequence x)\<rparr>) n (held(k \<mapsto> p))"
    using inorder_shelve [OF w sq(2,3) sq(1)] p by (simp add: pkt_ok_def)
  moreover have "(held(k \<mapsto> p)) (n + 1) = None" using False next0 by simp
  ultimately show ?thesis
    using c dq by (intro exI [of _ HOOK_DROP] exI exI [of _ n] conjI)
      (assumption | rule refl | simp add: queue_entries_def pkt_ok_def)+
qed

section \<open>What the module guarantees\<close>

text \<open>
  C20. Under \<open>hold_forever\<close> the loop that delivers waiting packets ends in every state,
  also for a corrupt buffer and at the wrap-around of the sequence numbers: each iteration that goes
  on empties a slot.
\<close>

theorem hold_forever_terminates: "\<exists>r. inorder_drain E c i s = Some r"
  by (rule inorder_drain_returns)

text \<open>
  C5. In-order delivery under \<open>hold_forever\<close>. \<open>n\<close> is the last sequence number
  delivered, \<open>held\<close> the packets that wait. A packet with a number in the window of 32 that
  follows \<open>n\<close> arrives: afterwards exactly the packets without a gap after \<open>n\<close>
  have been put in the input queue, in the order of their sequence numbers and each once, all
  others wait, and the invariant of the window holds again.
\<close>

theorem hold_forever_in_order:
  assumes "inorder_env E q t addr hs" "inorder_strategy (cfg E) = hold_forever"
    and "c \<noteq> 0" "conns s c = Some x" and "window_inv x n held" and "0 < n" "n + 33 < 2 ^ 32"
    and "\<forall>k p. n < k \<and> held k = Some p \<longrightarrow> pkt_ok E q t s p (tlen p)" and "held (n + 1) = None"
    and "pkt_ok E q t s p (tlen p)"
    and "pkt_get E ''flow_identifier'' p s = Inr c" "pkt_get E ''sequence_number'' p s = Inr sq"
    and "unat (ucast sq :: u32) = k" "n < k" "k \<le> n + 32" "held k = None"
    and "dq_inv (input_queue x)" "dq_current_elems (input_queue x) + 32 \<le> MAX_DATA_QUEUE_ELEMS"
  shows "\<exists>st s' x' n'. inorder_hook_ingress E p s = Inr (st, s') \<and> conns s' c = Some x' \<and> n \<le> n' \<and>
    (\<forall>j. n < j \<and> j \<le> n' \<longrightarrow> (held(k \<mapsto> p)) j \<noteq> None) \<and> (held(k \<mapsto> p)) (n' + 1) = None \<and>
    window_inv x' n' (held(k \<mapsto> p)) \<and> dq_inv (input_queue x') \<and>
    dq_list (input_queue x') = dq_list (input_queue x) @ queue_entries addr hs tlen (held(k \<mapsto> p)) n n' \<and>
    (\<forall>p m. pkt_ok E q t s p m \<longrightarrow> pkt_ok E q t s' p m)"
  using assms by (rule inorder_ingress_window)



end
