(* ===== verification/Reliable_Module.thy ===== *)
theory Reliable_Module
  imports NB_State Basic_Modules
begin

text \<open>
  The reliable delivery module (\<open>src/modules/reliable_module.cpp\<close>): every packet that is
  sent is kept in a buffer of 32 slots with a timer that sends it again every 50 ms, until an
  acknowledgement with its sequence number arrives.
\<close>

section \<open>The hooks\<close>

definition reliable_hook_establish ::
  "u64 \<Rightarrow> ('t, 'a) nb_state \<Rightarrow> (hook_status \<times> ('t, 'a) nb_state) res" where
  "reliable_hook_establish c s =
     bindE (conn_updE c (\<lambda>x.
       bindE (foldE (\<lambda>xs i. arr_set xs i 0) (redelivery_buffer x) [0..<REDELIVERY_BUFFER_SIZE]) (\<lambda>xs.
       Inr (x\<lparr>redelivery_buffer := xs\<rparr>))) s) (\<lambda>s.
     Inr (HOOK_CONTINUE, s))"

text \<open>\<open>nb__reliable_redelivery_timer_cb\<close>.\<close>

definition redelivery_cb ::
  "('t, 'a) nb_env \<Rightarrow> u64 \<Rightarrow> u64 \<Rightarrow> u64 \<Rightarrow> ('t, 'a) nb_state \<Rightarrow> ('t, 'a) nb_state res" where
  "redelivery_cb E t p to s =
     bindE (send_from_headroom E p s) (\<lambda>s.
     timers_updE (nb__insert_timer t (to + REDELIVERY_TIMEOUT_MS) Redelivery_Timer_Cb p) s)"

definition reliable_hook_send ::
  "('t, 'a) nb_env \<Rightarrow> u64 \<Rightarrow> u64 \<Rightarrow> ('t, 'a) nb_state \<Rightarrow> (hook_status \<times> ('t, 'a) nb_state) res" where
  "reliable_hook_send E c p s =
     bindE (pkt_get E ''sequence_number'' p s) (\<lambda>seq. let index = unat seq mod REDELIVERY_BUFFER_SIZE in
     bindE (conn_updE c (\<lambda>x. bindE (arr_set (redelivery_buffer x) index p) (\<lambda>xs.
              Inr (x\<lparr>redelivery_buffer := xs\<rparr>))) s) (\<lambda>s.
     bindE (nb__alloc_timer (timers s)) (\<lambda>(t, ts). let s = s\<lparr>timers := ts\<rparr> in
     case nb__get_time_ms_now E s of (now, s) \<Rightarrow>
     bindE (timers_updE (nb__insert_timer t (now + REDELIVERY_TIMEOUT_MS) Redelivery_Timer_Cb p) s) (\<lambda>s.
     bindE (pkt_set E ''redelivery_timer'' p t s) (\<lambda>s.
     bindE (pkt_set E ''ack_sequence_number'' p 0 s) (\<lambda>s.
     Inr (HOOK_CONTINUE, s)))))))"

text \<open>The branch for an acknowledgement.\<close>

definition handle_ack ::
  "('t, 'a) nb_env \<Rightarrow> u64 \<Rightarrow> u32 \<Rightarrow> ('t, 'a) nb_state \<Rightarrow> ('t, 'a) nb_state res" where
  "handle_ack E c ack_seq s =
     (let index = unat ack_seq mod REDELIVERY_BUFFER_SIZE in
      bindE (conn_get s c) (\<lambda>x.
      bindE (arr_get (redelivery_buffer x) index) (\<lambda>p_rem.
      if p_rem \<noteq> 0 then
        bindE (pkt_get E ''redelivery_timer'' p_rem s) (\<lambda>t.
        bindE (timers_updE (nb__remove_timer t) s) (\<lambda>s.
        bindE (timers_updE (nb__return_timer t) s) (\<lambda>s.
        conn_updE c (\<lambda>x. bindE (arr_set (redelivery_buffer x) index 0) (\<lambda>xs.
          Inr (x\<lparr>redelivery_buffer := xs\<rparr>))) s)))
      else Inr s)))"

text \<open>
  The branch for a packet with data: an acknowledgement goes out through \<open>send_after\<close>, the
  send hooks of the modules registered after this one.
\<close>

definition send_ack ::
  "('t, 'a) nb_env \<Rightarrow> (u64 \<Rightarrow> u64 \<Rightarrow> u8 list \<Rightarrow> u32 \<Rightarrow> ('t, 'a) nb_state \<Rightarrow> ('t, 'a) nb_state res) \<Rightarrow>
   u64 \<Rightarrow> u32 \<Rightarrow> ('t, 'a) nb_state \<Rightarrow> ('t, 'a) nb_state res" where
  "send_ack E send_after c seq s =
     bindE (request_send_buffer E s) (\<lambda>(p_ack, s).
     bindE (pkt_set E ''ack_sequence_number'' p_ack (ucast seq) s) (\<lambda>s.
     bindE (header_size E) (\<lambda>hs.
     bindE (pkt_set E ''total_len'' p_ack (word_of_int (hs + 1)) s) (\<lambda>s.
     bindE (pkt_set E ''computed_total_len'' p_ack (word_of_int (hs + 1)) s) (\<lambda>s.
     send_after c p_ack [0] 1 s)))))"

definition reliable_hook_ingress ::
  "('t, 'a) nb_env \<Rightarrow> (u64 \<Rightarrow> u64 \<Rightarrow> u8 list \<Rightarrow> u32 \<Rightarrow> ('t, 'a) nb_state \<Rightarrow> ('t, 'a) nb_state res) \<Rightarrow>
   u64 \<Rightarrow> ('t, 'a) nb_state \<Rightarrow> (hook_status \<times> ('t, 'a) nb_state) res" where
  "reliable_hook_ingress E send_after p s =
     bindE (pkt_get E ''ack_sequence_number'' p s) (\<lambda>w. let ack_seq = ucast w :: u32 in
     bindE (pkt_get E ''flow_identifier'' p s) (\<lambda>c.
     if ack_seq \<noteq> 0 then
       bindE (handle_ack E c ack_seq s) (\<lambda>s. Inr (HOOK_DROP, s))
     else
       bindE (pkt_get E ''sequence_number'' p s) (\<lambda>w. let seq = ucast w :: u32 in
       bindE (send_ack E send_after c seq s) (\<lambda>s.
       Inr (HOOK_CONTINUE, s)))))"

end
