(* ===== verification/Stack.thy ===== *)
theory Stack
  imports Checksum_Module Identifier_Module Routing_Module Inorder_Module Reliable_Module
begin

text \<open>
  The protocol stack: the \<open>init_module\<close> functions that build the packet layout and register
  the modules, the virtual calls of the hooks, the paths of the framework
  (\<open>src/core/framework.cpp\<close>) and the interface module
  (\<open>src/modules/interface_module.cpp\<close>), whose functions \<open>src/core/impl.cpp\<close> turns
  into \<open>nb__net_init\<close>, \<open>nb__establish\<close>, \<open>nb__destablish\<close>,
  \<open>nb__send\<close> and \<open>nb__run_ingress_step\<close>. \<open>simple_config\<close> is the
  program \<open>src/impls/simple.cpp\<close>.
\<close>

section \<open>Initialisation of the modules\<close>

text \<open>The layout and the registered modules while the modules are initialised.\<close>

record gen_state =
  gen_layout :: dynamic_layout
  gen_modules :: "module_id list"

definition gen_add :: "string \<Rightarrow> dynamic_member \<Rightarrow> nat \<Rightarrow> gen_state \<Rightarrow> gen_state" where
  "gen_add name m grp g = g\<lparr>gen_layout := add_member name m grp (gen_layout g)\<rparr>"

definition gen_register :: "module_id \<Rightarrow> gen_state \<Rightarrow> gen_state" where
  "gen_register m g = g\<lparr>gen_modules := fst (register_module m (gen_modules g))\<rparr>"

text \<open>\<open>set_custom_range\<close> on a new member, when the range is configured.\<close>

definition with_range :: "int \<Rightarrow> int \<Rightarrow> dynamic_member \<Rightarrow> dynamic_member res" where
  "with_range range_min range_max m =
     (case m_kind m of
        Generic_Integer g \<Rightarrow>
          bindE (set_custom_range range_min range_max g) (\<lambda>r.
          bindE (of_option Diverges r) (\<lambda>g. Inr (m\<lparr>m_kind := Generic_Integer g\<rparr>)))
      | Byte_Array n \<Rightarrow> Inl Bad_Pointer)"

definition interface_init_module :: "gen_state \<Rightarrow> gen_state" where
  "interface_init_module g =
     gen_add ''computed_total_len'' (generic_integer_member signed_int 32 member_flags_aligned) 0 g"

definition payload_init_module :: "nb_config \<Rightarrow> gen_state \<Rightarrow> gen_state res" where
  "payload_init_module C g =
     (let g = gen_add ''payload'' (generic_integer_member plain_char 8 member_flags_aligned) 5 g in
      bindE
        (if \<not> isIPCompat (compat_level C) then
           bindE (if max_packet_len C \<noteq> 0
                  then with_range 0 (uint (max_packet_len C)) (generic_integer_member signed_int 32 member_flags_aligned)
                  else Inr (generic_integer_member signed_int 32 member_flags_aligned)) (\<lambda>total_len.
           Inr (gen_add ''total_len'' total_len 4 g))
         else Inr g) (\<lambda>g.
      Inr (gen_register Payload_Module g)))"

definition signaling_init_module :: "gen_state \<Rightarrow> gen_state" where
  "signaling_init_module g =
     gen_add ''is_signaling'' (generic_integer_member signed_int 32 member_flags_aligned) 0
       (gen_register Signaling_Module g)"

definition signaling_after_init_module :: "gen_state \<Rightarrow> gen_state" where
  "signaling_after_init_module g = gen_register Signaling_Module_After g"

definition inorder_init_module :: "nb_config \<Rightarrow> gen_state \<Rightarrow> gen_state" where
  "inorder_init_module C g =
     gen_register Inorder_Module
       (if inorder_strategy C \<noteq> no_inorder \<or> reliable_is_enabled C
        then gen_add ''sequence_number'' (generic_integer_member unsigned_int 32 member_flags_aligned) 4 g
        else g)"

definition reliable_init_module :: "nb_config \<Rightarrow> gen_state \<Rightarrow> gen_state" where
  "reliable_init_module C g =
     (if \<not> reliable_is_enabled C then g else
      gen_register Reliable_Module
        (gen_add ''redelivery_timer'' (generic_integer_member unsigned_long_long 64 member_flags_aligned) 0
        (gen_add ''ack_sequence_number'' (generic_integer_member unsigned_int 32 member_flags_aligned) 4 g)))"

definition identifier_init_module :: "nb_config \<Rightarrow> gen_state \<Rightarrow> gen_state res" where
  "identifier_init_module C g =
     (let g = gen_add ''flow_identifier'' (generic_integer_member unsigned_long_long 64 member_flags_aligned) 0 g;
          host_id = generic_integer_member unsigned_long_long (6 * byte_size) member_flags_aligned;
          app_id = generic_integer_member unsigned_short 16 0 in
      bindE (if host_range_min C \<noteq> 0 \<or> host_range_max C \<noteq> 0
             then bindE (with_range (uint (host_range_min C)) (uint (host_range_max C)) host_id) (\<lambda>m.
                  Inr (m\<lparr>m_flags := 0\<rparr>))
             else Inr host_id) (\<lambda>host_id.
      let g = gen_add ''src_host_id'' host_id 1 (gen_add ''dst_host_id'' host_id 1 g);
          g = (if isEthCompat (compat_level C)
               then gen_add ''protocol_identifier'' (generic_integer_member unsigned_short 16 member_flags_aligned) 1 g
               else g) in
      bindE (if app_range_min C \<noteq> 0 \<or> app_range_max C \<noteq> 0
             then bindE (with_range (uint (app_range_min C)) (uint (app_range_max C)) app_id) (\<lambda>m.
                  Inr (m\<lparr>m_flags := 0\<rparr>))
             else Inr app_id) (\<lambda>app_id.
      let g = gen_add ''src_app_id'' app_id 3 (gen_add ''dst_app_id'' app_id 3 g);
          g = (if isUDPCompat (compat_level C)
               then gen_add ''udp_checksum'' (generic_integer_member unsigned_short 16 member_flags_aligned) 3
                 (gen_add ''udp_len'' (generic_integer_member unsigned_short 16 member_flags_aligned) 3 g)
               else g) in
      Inr (gen_register Identifier_Module g))))"

definition routing_init_module :: "nb_config \<Rightarrow> gen_state \<Rightarrow> gen_state" where
  "routing_init_module C g =
     (if \<not> routing_is_enabled C then g else
      let g = (if isIPCompat (compat_level C) then
                 gen_add ''ip_header_checksum'' (generic_integer_member unsigned_short 16 member_flags_aligned) 2
                (gen_add ''ip_protocol'' (generic_integer_member unsigned_char 8 member_flags_aligned) 2
                (gen_add ''ip_ttl'' (generic_integer_member unsigned_char 8 member_flags_aligned) 2
                (gen_add ''ip_IFF'' (generic_integer_member unsigned_int 32 member_flags_aligned) 2
                (gen_add ''ip_total_len'' (generic_integer_member unsigned_short 16 member_flags_aligned) 2
                (gen_add ''ip_VIDE'' (generic_integer_member unsigned_short 16 member_flags_aligned) 2 g)))))
               else g);
          g = gen_add ''dst_global_id'' (generic_integer_member unsigned_int 32 member_flags_aligned) 2 g;
          g = gen_add ''src_global_id'' (generic_integer_member unsigned_int 32 member_flags_aligned) 2 g in
      gen_register Routing_Module g)"

definition checksum_init_module :: "nb_config \<Rightarrow> gen_state \<Rightarrow> gen_state" where
  "checksum_init_module C g =
     (if \<not> checksum_is_enabled C then g
      else gen_register Checksum_Module (gen_add ''checksum'' (generic_integer_member unsigned_short 16 0) 4 g))"

definition network_init_module :: "gen_state \<Rightarrow> gen_state" where
  "network_init_module g = gen_register Network_Module g"

text \<open>The calls of \<open>main\<close> in \<open>src/impls/simple.cpp\<close>, for any configuration.\<close>

definition init_stack :: "nb_config \<Rightarrow> gen_state res" where
  "init_stack C =
     (let g = interface_init_module \<lparr>gen_layout = empty_layout, gen_modules = []\<rparr> in
      bindE (payload_init_module C g) (\<lambda>g.
      let g = signaling_init_module g; g = inorder_init_module C g; g = reliable_init_module C g in
      bindE (identifier_init_module C g) (\<lambda>g.
      let g = signaling_after_init_module g; g = routing_init_module C g;
          g = checksum_init_module C g; g = network_init_module g in
      Inr (g\<lparr>gen_layout := fix_layout (gen_layout g)\<rparr>))))"

text \<open>The configuration functions of the modules, and the values the members start with.\<close>

definition default_config :: nb_config where
  "default_config =
     \<lparr>compat_level = NO_COMPAT, flow_identifier = dst_identifiers_only, host_range_min = 0, host_range_max = 0,
      app_range_min = 0, app_range_max = 0, max_packet_len = 0, signaling_is_enabled = False,
      inorder_strategy = drop_out_of_order, reliable_is_enabled = True, routing_is_enabled = True,
      checksum_is_enabled = True, checksum_type = full_packet\<rparr>"

definition configFlowIdentifier :: "flow_identifier_t \<Rightarrow> nb_config \<Rightarrow> nb_config" where
  "configFlowIdentifier f C = C\<lparr>flow_identifier := f\<rparr>"

definition set_host_range :: "u64 \<Rightarrow> u64 \<Rightarrow> nb_config \<Rightarrow> nb_config" where
  "set_host_range mn mx C = C\<lparr>host_range_min := mn, host_range_max := mx\<rparr>"

definition set_app_range :: "u16 \<Rightarrow> u16 \<Rightarrow> nb_config \<Rightarrow> nb_config" where
  "set_app_range mn mx C = C\<lparr>app_range_min := mn, app_range_max := mx\<rparr>"

definition set_max_length :: "u32 \<Rightarrow> nb_config \<Rightarrow> nb_config" where
  "set_max_length mx C = C\<lparr>max_packet_len := mx\<rparr>"

definition configEnableSignaling :: "nb_config \<Rightarrow> nb_config" where
  "configEnableSignaling C = C\<lparr>signaling_is_enabled := True\<rparr>"

definition configDisableSignaling :: "nb_config \<Rightarrow> nb_config" where
  "configDisableSignaling C = C\<lparr>signaling_is_enabled := False\<rparr>"

definition configInorderStrategy :: "inorder_strategy_t \<Rightarrow> nb_config \<Rightarrow> nb_config" where
  "configInorderStrategy t C = C\<lparr>inorder_strategy := t\<rparr>"

definition configEnableReliability :: "nb_config \<Rightarrow> nb_config" where
  "configEnableReliability C = C\<lparr>reliable_is_enabled := True\<rparr>"

definition configDisableReliability :: "nb_config \<Rightarrow> nb_config" where
  "configDisableReliability C = C\<lparr>reliable_is_enabled := False\<rparr>"

definition configEnableRouting :: "nb_config \<Rightarrow> nb_config" where
  "configEnableRouting C = C\<lparr>routing_is_enabled := True\<rparr>"

definition configDisableRouting :: "nb_config \<Rightarrow> nb_config" where
  "configDisableRouting C = C\<lparr>routing_is_enabled := False\<rparr>"

definition configEnableChecksum :: "nb_config \<Rightarrow> nb_config" where
  "configEnableChecksum C = C\<lparr>checksum_is_enabled := True\<rparr>"

definition configDisableChecksum :: "nb_config \<Rightarrow> nb_config" where
  "configDisableChecksum C = C\<lparr>checksum_is_enabled := False\<rparr>"

definition configChecksumType :: "checksum_type_t \<Rightarrow> nb_config \<Rightarrow> nb_config" where
  "configChecksumType ct C = C\<lparr>checksum_type := ct\<rparr>"

lemmas config_defs = default_config_def configFlowIdentifier_def set_host_range_def set_app_range_def
  set_max_length_def configEnableSignaling_def configDisableSignaling_def configInorderStrategy_def
  configEnableReliability_def configDisableReliability_def configEnableRouting_def configDisableRouting_def
  configEnableChecksum_def configDisableChecksum_def configChecksumType_def

definition simple_config :: nb_config where
  "simple_config =
     configChecksumType full_packet (configEnableChecksum (configEnableReliability
       (configInorderStrategy hold_forever (configEnableSignaling (configEnableRouting
         (configFlowIdentifier src_dst_identifier default_config))))))"

lemma simple_config_simps [simp]:
  "compat_level simple_config = NO_COMPAT" "flow_identifier simple_config = src_dst_identifier"
  "host_range_min simple_config = 0" "host_range_max simple_config = 0" "app_range_min simple_config = 0"
  "app_range_max simple_config = 0" "max_packet_len simple_config = 0" "signaling_is_enabled simple_config"
  "inorder_strategy simple_config = hold_forever" "reliable_is_enabled simple_config"
  "routing_is_enabled simple_config" "checksum_is_enabled simple_config" "checksum_type simple_config = full_packet"
  by (simp_all add: simple_config_def config_defs)

section \<open>The hooks of a module\<close>

definition m_sequence :: "('t, 'a) nb_env \<Rightarrow> module_id \<Rightarrow> nat" where
  "m_sequence E m = length (takeWhile (\<lambda>x. x \<noteq> m) (m_registered_modules E))"

text \<open>The state of the send path has \<open>ret_len[0]\<close> beside the state of the node.\<close>

definition keep_ret :: "int \<Rightarrow> (hook_status \<times> ('t, 'a) nb_state) res \<Rightarrow> (hook_status \<times> ('t, 'a) nb_state \<times> int) res" where
  "keep_ret ret r = bindE r (\<lambda>(st, s). Inr (st, s, ret))"

fun hook_send :: "('t, 'a) nb_env \<Rightarrow> u64 \<Rightarrow> u64 \<Rightarrow> u8 list \<Rightarrow> u32 \<Rightarrow> module_id \<Rightarrow>
    ('t, 'a) nb_state \<times> int \<Rightarrow> (hook_status \<times> ('t, 'a) nb_state \<times> int) res" where
  "hook_send E c p buff len Payload_Module (s, ret) = payload_hook_send E p buff len s"
| "hook_send E c p buff len Inorder_Module (s, ret) = keep_ret ret (inorder_hook_send E c p s)"
| "hook_send E c p buff len Reliable_Module (s, ret) = keep_ret ret (reliable_hook_send E c p s)"
| "hook_send E c p buff len Identifier_Module (s, ret) = keep_ret ret (identifier_hook_send E c p s)"
| "hook_send E c p buff len Routing_Module (s, ret) = keep_ret ret (routing_hook_send E c p len s)"
| "hook_send E c p buff len Checksum_Module (s, ret) = keep_ret ret (checksum_hook_send E p s)"
| "hook_send E c p buff len Network_Module (s, ret) = keep_ret ret (network_hook_send E p s)"
| "hook_send E c p buff len Signaling_Module sr = default_hook sr"
| "hook_send E c p buff len Signaling_Module_After sr = default_hook sr"

text \<open>The send hooks of the modules registered after \<open>m\<close>.\<close>

definition send_after :: "('t, 'a) nb_env \<Rightarrow> module_id \<Rightarrow> u64 \<Rightarrow> u64 \<Rightarrow> u8 list \<Rightarrow> u32 \<Rightarrow>
    ('t, 'a) nb_state \<Rightarrow> ('t, 'a) nb_state res" where
  "send_after E m c p buff len s =
     bindE (run_hooks (hook_send E c p buff len) (drop (m_sequence E m + 1) (m_registered_modules E)) (s, 0)) (\<lambda>(s, ret).
     Inr s)"

fun hook_establish :: "('t, 'a) nb_env \<Rightarrow> u64 \<Rightarrow> u32 \<Rightarrow> u32 \<Rightarrow> u32 \<Rightarrow> module_id \<Rightarrow>
    ('t, 'a) nb_state \<Rightarrow> (hook_status \<times> ('t, 'a) nb_state) res" where
  "hook_establish E c h a sa Inorder_Module s = inorder_hook_establish E c s"
| "hook_establish E c h a sa Reliable_Module s = reliable_hook_establish c s"
| "hook_establish E c h a sa Identifier_Module s = identifier_hook_establish E c h a sa s"
| "hook_establish E c h a sa Signaling_Module_After s =
     signaling_after_hook_establish E (send_after E Signaling_Module) c h a sa s"
| "hook_establish E c h a sa Routing_Module s = routing_hook_establish c h a sa s"
| "hook_establish E c h a sa m s = default_hook s"

fun hook_destablish :: "('t, 'a) nb_env \<Rightarrow> u64 \<Rightarrow> module_id \<Rightarrow>
    ('t, 'a) nb_state \<Rightarrow> (hook_status \<times> ('t, 'a) nb_state) res" where
  "hook_destablish E c Identifier_Module s = identifier_hook_destablish E c s"
| "hook_destablish E c m s = default_hook s"

fun hook_ingress :: "('t, 'a) nb_env \<Rightarrow> u64 \<Rightarrow> module_id \<Rightarrow>
    ('t, 'a) nb_state \<Rightarrow> (hook_status \<times> ('t, 'a) nb_state) res" where
  "hook_ingress E p Payload_Module s = payload_hook_ingress E p s"
| "hook_ingress E p Signaling_Module s = signaling_hook_ingress E p s"
| "hook_ingress E p Inorder_Module s = inorder_hook_ingress E p s"
| "hook_ingress E p Reliable_Module s = reliable_hook_ingress E (send_after E Reliable_Module) p s"
| "hook_ingress E p Identifier_Module s = identifier_hook_ingress E p s"
| "hook_ingress E p Signaling_Module_After s = default_hook s"
| "hook_ingress E p Routing_Module s = routing_hook_ingress E p s"
| "hook_ingress E p Checksum_Module s = checksum_hook_ingress E p s"
| "hook_ingress E p Network_Module s = network_hook_ingress E p s"

fun hook_net_init :: "module_id \<Rightarrow> ('t, 'a) nb_state \<Rightarrow> ('t, 'a) nb_state res" where
  "hook_net_init Identifier_Module s = identifier_hook_net_init s"
| "hook_net_init m s = default_net_init s"

section \<open>The interface of the stack\<close>

definition run_send_path :: "('t, 'a) nb_env \<Rightarrow> u64 \<Rightarrow> u8 list \<Rightarrow> u32 \<Rightarrow>
    ('t, 'a) nb_state \<Rightarrow> (int \<times> ('t, 'a) nb_state) res" where
  "run_send_path E conn buff len s =
     bindE (request_send_buffer E s) (\<lambda>(p, s).
     bindE (run_hooks (hook_send E conn p buff len) (m_registered_modules E) (s, 0)) (\<lambda>(s, ret_len).
     Inr (ret_len, s)))"

definition nb__establish :: "('t, 'a) nb_env \<Rightarrow> u32 \<Rightarrow> u32 \<Rightarrow> u32 \<Rightarrow> u64 \<Rightarrow>
    ('t, 'a) nb_state \<Rightarrow> (u64 \<times> ('t, 'a) nb_state) res" where
  "nb__establish E host_id app_id ca callback s =
     (let k = mallocs s; c = malloc_addr E k;
          s = s\<lparr>mallocs := k + 1, conns := (conns s)(c \<mapsto> malloc_conn E k)\<rparr> in
      bindE (conn_upd c (\<lambda>x. x\<lparr>callback_f := callback\<rparr>) s) (\<lambda>s.
      bindE (run_establish_path (hook_establish E c host_id app_id ca) (m_registered_modules E) s) (\<lambda>s.
      Inr (c, s))))"

definition nb__destablish :: "('t, 'a) nb_env \<Rightarrow> u64 \<Rightarrow> ('t, 'a) nb_state \<Rightarrow> ('t, 'a) nb_state res" where
  "nb__destablish E c s =
     bindE (run_destablish_path (hook_destablish E c) (m_registered_modules E) s) (\<lambda>s.
     bindE (conn_get s c) (\<lambda>x.
     Inr (s\<lparr>conns := (conns s)(c := None)\<rparr>)))"

definition nb__send :: "('t, 'a) nb_env \<Rightarrow> u64 \<Rightarrow> u8 list \<Rightarrow> int \<Rightarrow>
    ('t, 'a) nb_state \<Rightarrow> (int \<times> ('t, 'a) nb_state) res" where
  "nb__send E c buff len s = run_send_path E c buff (word_of_int len) s"

definition nb__run_ingress_step :: "('t, 'a) nb_env \<Rightarrow> u64 \<Rightarrow> int \<Rightarrow>
    ('t, 'a) nb_state \<Rightarrow> ('t, 'a) nb_state res" where
  "nb__run_ingress_step E p len s = run_ingress_path (hook_ingress E p) (m_registered_modules E) s"

text \<open>
  The network state is allocated and not initialised: the arrays hold whatever the memory held.
\<close>

definition junk_words :: "('t, 'a) nb_env \<Rightarrow> nat \<Rightarrow> nat \<Rightarrow> u64 list" where
  "junk_words E k base =
     map (\<lambda>i. le_word (map (malloc_byte E k) [8 * i..<8 * i + 8])) [base..<base + MAX_ACTIVE_CONNECTIONS]"

definition run_net_init_path :: "('t, 'a) nb_env \<Rightarrow> ('t, 'a) nb_state \<Rightarrow> ('t, 'a) nb_state res" where
  "run_net_init_path E s =
     (let k = mallocs s in
      bindE (guardE (malloc_addr E k \<noteq> 0) (Assert_Fail ''malloc failed while allocating net_state'')) (\<lambda>_.
      run_net_init_hooks hook_net_init (m_registered_modules E)
        (s\<lparr>mallocs := k + 1,
           active_connections := junk_words E k 0,
           active_local_app_ids := map ucast (junk_words E k 512),
           active_remote_app_ids := map ucast (junk_words E k 1024),
           active_remote_host_ids := junk_words E k 1536\<rparr>)))"

definition nb__net_init :: "('t, 'a) nb_env \<Rightarrow> ('t, 'a) nb_state \<Rightarrow> ('t, 'a) nb_state res" where
  "nb__net_init E s =
     (case nb__get_time_ms_now E s of (now, s) \<Rightarrow>
      bindE (timers_updE (nb__init_timers now) s) (\<lambda>s.
      run_net_init_path E s))"

end
