(* ===== verification/Simple_Stack.thy ===== *)
theory Simple_Stack
  imports Stack
begin

text \<open>
  The stack of \<open>src/impls/simple.cpp\<close>: which layout and which modules its initialisation
  produces, where every member is, and that the layout keeps the contract of
  \<open>field_store\<close> for all its members.
\<close>

section \<open>The layout\<close>

text \<open>The members in the order of their creation, before \<open>fix_layout\<close>.\<close>

abbreviation aligned_int :: "c_int_type \<Rightarrow> dynamic_member" where
  "aligned_int T \<equiv> generic_integer_member T (t_bits T) member_flags_aligned"

definition simple_members :: dynamic_layout where
  "simple_members =
     \<lparr>m_total_members = 15,
      m_registered_members =
        [[''computed_total_len'', ''is_signaling'', ''redelivery_timer'', ''flow_identifier''],
         [''dst_host_id'', ''src_host_id''], [''dst_global_id'', ''src_global_id''], [''dst_app_id'', ''src_app_id''],
         [''total_len'', ''sequence_number'', ''ack_sequence_number'', ''checksum''], [''payload'']],
      m_members_map =
        [''computed_total_len'' \<mapsto> (aligned_int signed_int)\<lparr>m_order := 0\<rparr>,
         ''payload'' \<mapsto> (aligned_int plain_char)\<lparr>m_order := 1\<rparr>,
         ''total_len'' \<mapsto> (aligned_int signed_int)\<lparr>m_order := 2\<rparr>,
         ''is_signaling'' \<mapsto> (aligned_int signed_int)\<lparr>m_order := 3\<rparr>,
         ''sequence_number'' \<mapsto> (aligned_int unsigned_int)\<lparr>m_order := 4\<rparr>,
         ''ack_sequence_number'' \<mapsto> (aligned_int unsigned_int)\<lparr>m_order := 5\<rparr>,
         ''redelivery_timer'' \<mapsto> (aligned_int unsigned_long_long)\<lparr>m_order := 6\<rparr>,
         ''flow_identifier'' \<mapsto> (aligned_int unsigned_long_long)\<lparr>m_order := 7\<rparr>,
         ''dst_host_id'' \<mapsto> (generic_integer_member unsigned_long_long 48 member_flags_aligned)\<lparr>m_order := 8\<rparr>,
         ''src_host_id'' \<mapsto> (generic_integer_member unsigned_long_long 48 member_flags_aligned)\<lparr>m_order := 9\<rparr>,
         ''dst_app_id'' \<mapsto> (generic_integer_member unsigned_short 16 0)\<lparr>m_order := 10\<rparr>,
         ''src_app_id'' \<mapsto> (generic_integer_member unsigned_short 16 0)\<lparr>m_order := 11\<rparr>,
         ''dst_global_id'' \<mapsto> (aligned_int unsigned_int)\<lparr>m_order := 12\<rparr>,
         ''src_global_id'' \<mapsto> (aligned_int unsigned_int)\<lparr>m_order := 13\<rparr>,
         ''checksum'' \<mapsto> (generic_integer_member unsigned_short 16 0)\<lparr>m_order := 14\<rparr>]\<rparr>"

definition simple_modules :: "module_id list" where
  "simple_modules =
     [Payload_Module, Signaling_Module, Inorder_Module, Reliable_Module, Identifier_Module,
      Signaling_Module_After, Routing_Module, Checksum_Module, Network_Module]"

definition simple_layout :: dynamic_layout where
  "simple_layout = fix_layout simple_members"

lemma four_five: "(4::nat) = Suc (Suc (Suc (Suc 0)))" "(5::nat) = Suc (Suc (Suc (Suc (Suc 0))))"
  by simp_all

lemmas init_defs = init_stack_def payload_init_module_def signaling_init_module_def
   inorder_init_module_def reliable_init_module_def identifier_init_module_def signaling_after_init_module_def
   routing_init_module_def checksum_init_module_def network_init_module_def interface_init_module_def
   gen_add_def gen_register_def register_module_def isIPCompat_def isEthCompat_def isUDPCompat_def

lemma simple_stack:
  "init_stack simple_config = Inr \<lparr>gen_layout = simple_layout, gen_modules = simple_modules\<rparr>"
  by (simp add: init_defs simple_layout_def simple_modules_def Let_def add_member_def empty_layout_def simple_members_def
      t_bits_def byte_size_def numeral_2_eq_2 numeral_3_eq_3 four_five)
    (simp add: eval_nat_numeral)

lemma simple_wf: "wf_layout simple_members"
  by (simp add: wf_layout_def member_names_def simple_members_def)

lemma simple_chain:
  "chain_offsets (m_members_map simple_members) 0 (member_names simple_members) =
    [0, 32, 64, 128, 192, 240, 288, 320, 352, 368, 384, 416, 448, 480, 496]"
  by (simp add: simple_members_def member_names_def Let_def place_def generic_integer_member_def get_size_def
    member_align_def align_to_def byte_size_def t_bits_def member_flags_aligned_def)

lemma simple_names:
  "member_names simple_members =
     [''computed_total_len'', ''is_signaling'', ''redelivery_timer'', ''flow_identifier'',
      ''dst_host_id'', ''src_host_id'', ''dst_global_id'', ''src_global_id'', ''dst_app_id'', ''src_app_id'',
      ''total_len'', ''sequence_number'', ''ack_sequence_number'', ''checksum'', ''payload'']"
  by (simp add: member_names_def simple_members_def)

lemma simple_offsets:
  "get_offset simple_layout ''computed_total_len'' = Some 0"
  "get_offset simple_layout ''is_signaling'' = Some 32"
  "get_offset simple_layout ''redelivery_timer'' = Some 64"
  "get_offset simple_layout ''flow_identifier'' = Some 128"
  "get_offset simple_layout ''dst_host_id'' = Some 192"
  "get_offset simple_layout ''src_host_id'' = Some 240"
  "get_offset simple_layout ''dst_global_id'' = Some 288"
  "get_offset simple_layout ''src_global_id'' = Some 320"
  "get_offset simple_layout ''dst_app_id'' = Some 352"
  "get_offset simple_layout ''src_app_id'' = Some 368"
  "get_offset simple_layout ''total_len'' = Some 384"
  "get_offset simple_layout ''sequence_number'' = Some 416"
  "get_offset simple_layout ''ack_sequence_number'' = Some 448"
  "get_offset simple_layout ''checksum'' = Some 480"
  "get_offset simple_layout ''payload'' = Some 496"
  using get_offset_names [OF simple_wf, folded simple_layout_def, unfolded simple_chain, unfolded simple_names list.map list.inject]
  by blast+

lemma simple_headroom: "get_headroom simple_layout = Inr 24"
  unfolding get_headroom_def simple_layout_def
  by (subst group_start_fix_layout [OF _ _ _ simple_offsets(5) [unfolded simple_layout_def]]) (simp_all add: simple_members_def)

lemma simple_total_size: "get_total_size simple_layout = Inr 63"
  unfolding simple_layout_def
  by (subst total_size_fix_layout [OF _ _ simple_offsets(15) [unfolded simple_layout_def]])
    (simp_all add: simple_members_def, simp add: get_size_def generic_integer_member_def align_to_def t_bits_def)

lemma simple_kind: "map_option m_kind (m_members_map simple_layout n) = map_option m_kind (m_members_map simple_members n)"
  by (simp add: simple_layout_def fix_layout_kind)

lemma simple_int_members:
  "int_member_at simple_layout ''computed_total_len'' signed_int 0"
  "int_member_at simple_layout ''is_signaling'' signed_int 4"
  "int_member_at simple_layout ''redelivery_timer'' unsigned_long_long 8"
  "int_member_at simple_layout ''flow_identifier'' unsigned_long_long 16"
  "int_member_at simple_layout ''dst_global_id'' unsigned_int 36"
  "int_member_at simple_layout ''src_global_id'' unsigned_int 40"
  "int_member_at simple_layout ''dst_app_id'' unsigned_short 44"
  "int_member_at simple_layout ''src_app_id'' unsigned_short 46"
  "int_member_at simple_layout ''total_len'' signed_int 48"
  "int_member_at simple_layout ''sequence_number'' unsigned_int 52"
  "int_member_at simple_layout ''ack_sequence_number'' unsigned_int 56"
  "int_member_at simple_layout ''checksum'' unsigned_short 60"
  "int_member_at simple_layout ''payload'' plain_char 62"
  by (simp_all only: int_member_at_def simple_offsets simple_kind)
    (simp_all add: simple_members_def generic_integer_member_def t_bits_def)

section \<open>The contract of the packets\<close>

lemma simple_hosts:
  "map_option m_kind (m_members_map simple_layout ''dst_host_id'') =
     Some (Generic_Integer \<lparr>gi_type = unsigned_long_long, m_align = 8, m_bit_size = 48, m_range_base = 0\<rparr>)"
  "map_option m_kind (m_members_map simple_layout ''src_host_id'') =
     Some (Generic_Integer \<lparr>gi_type = unsigned_long_long, m_align = 8, m_bit_size = 48, m_range_base = 0\<rparr>)"
  by (simp_all only: simple_kind)
    (simp_all add: simple_members_def generic_integer_member_def byte_size_def)

lemma int_member_byte_member:
  "int_member_at L n T o' \<Longrightarrow> 0 < t_bytes T \<Longrightarrow> t_bytes T \<le> 8 \<Longrightarrow> o' + t_bytes T \<le> N \<Longrightarrow> byte_member L N n"
  by (auto simp: int_member_at_def byte_member_def wf_gi_def)

lemma simple_wf_members: "m_members_map simple_members n = Some m \<Longrightarrow> wf_member m"
  by (auto simp: simple_members_def wf_member_def member_align_def generic_integer_member_def byte_size_def
      split: if_splits)

lemma simple_host_bytes: "byte_member simple_layout 63 ''dst_host_id''" "byte_member simple_layout 63 ''src_host_id''"
  using simple_hosts simple_offsets(5,6) by (auto simp: byte_member_def wf_gi_def t_bits_def)

lemma simple_byte_members: "n \<in> set (member_names simple_members) \<Longrightarrow> byte_member simple_layout 63 n"
  unfolding simple_names
  by (auto simp: simple_host_bytes intro: simple_int_members [THEN int_member_byte_member])

interpretation simple: byte_layout simple_layout 63 "member_names simple_members"
proof unfold_locales
  show "byte_member simple_layout 63 n" if "n \<in> set (member_names simple_members)" for n
    using that by (rule simple_byte_members)
  show "members_apart simple_layout n1 n2"
    if "n1 \<in> set (member_names simple_members)" "n2 \<in> set (member_names simple_members)" "n1 \<noteq> n2" for n1 n2
    unfolding simple_layout_def using simple_wf simple_wf_members that by (rule fix_layout_apart)
qed

end
