(* ===== verification/Runtime.thy ===== *)
theory Runtime
  imports Stack
begin

text \<open>
  The runtime of a node (\<open>runtime/nb_runtime.c\<close>, \<open>nb__check_timers\<close> of
  \<open>runtime/nb_timer.c\<close>): reading from and accepting connections, and the step of the main
  loop, which polls the transport, runs the ingress path, fires the events of the connections and
  the timers.
\<close>

section \<open>Reading and accepting\<close>

text \<open>The result of \<open>nb__read\<close>: the number of bytes and the bytes copied to the caller's buffer.\<close>

definition nb__read :: "u64 \<Rightarrow> int \<Rightarrow> ('t, 'a) nb_state \<Rightarrow> ((int \<times> u8 list) \<times> ('t, 'a) nb_state) res" where
  "nb__read c max_len s =
     bindE (conn_get s c) (\<lambda>x.
     if dq_current_elems (input_queue x) = 0 then Inr ((0, []), s) else
     bindE (dq_take_first (input_queue x)) (\<lambda>(((payload, off), payload_size), q).
     bindE (conn_upd c (\<lambda>x. x\<lparr>input_queue := q\<rparr>) s) (\<lambda>s.
     let copy_size = (if max_len < payload_size then max_len else payload_size) in
     bindE (buf_get s payload) (\<lambda>b.
     bindE (buf_slice off copy_size b) (\<lambda>bytes.
     Inr ((copy_size, bytes), s))))))"

text \<open>
  The loop of \<open>nb__accept\<close> over \<open>i\<close>: a packet of the accepted peer goes through the
  ingress path and its place is taken by the last entry. The ingress path can append entries, so
  the loop is written as a partial function.
\<close>

definition accept_entry :: "('t, 'a) nb_env \<Rightarrow> u64 \<Rightarrow> nat \<Rightarrow> u64 \<Rightarrow> ('t, 'a) nb_state \<Rightarrow> ('t, 'a) nb_state res" where
  "accept_entry E c i packet s =
     bindE (if packet \<noteq> 0 then nb__run_ingress_step E packet 0 s else Inr s) (\<lambda>s.
     conn_updE c (\<lambda>x. bindE (aq_swap_remove i (accept_queue x)) (\<lambda>q. Inr (x\<lparr>accept_queue := q\<rparr>))) s)"

definition accept_peek :: "u64 \<Rightarrow> nat \<Rightarrow> ('t, 'a) nb_state \<Rightarrow> (u32 \<times> u64 \<times> u64) option res" where
  "accept_peek c i s =
     bindE (conn_get s c) (\<lambda>x.
     if i < aq_current_elems (accept_queue x)
     then bindE (aq_get (accept_queue x) i) (\<lambda>e. Inr (Some e)) else Inr None)"

partial_function (option) accept_loop ::
  "('t, 'a) nb_env \<Rightarrow> u64 \<Rightarrow> u32 \<Rightarrow> u64 \<Rightarrow> nat \<Rightarrow> ('t, 'a) nb_state \<Rightarrow> ('t, 'a) nb_state res option" where [code]:
  "accept_loop E c src_app src_host i s =
     (case accept_peek c i s of
        Inl e \<Rightarrow> Some (Inl e)
      | Inr None \<Rightarrow> Some (Inr s)
      | Inr (Some (a, h, packet)) \<Rightarrow>
          if a = src_app \<and> h = src_host then
            (case accept_entry E c i packet s of
               Inl e \<Rightarrow> Some (Inl e)
             | Inr s' \<Rightarrow> accept_loop E c src_app src_host i s')
          else accept_loop E c src_app src_host (i + 1) s)"

definition nb__accept :: "('t, 'a) nb_env \<Rightarrow> u64 \<Rightarrow> u64 \<Rightarrow> ('t, 'a) nb_state \<Rightarrow> (u64 \<times> ('t, 'a) nb_state) res" where
  "nb__accept E c callback s =
     bindE (conn_get s c) (\<lambda>x.
     if aq_current_elems (accept_queue x) = 0 then Inr (0, s) else
     bindE (aq_pop_last (accept_queue x)) (\<lambda>((src_app, src_host, packet), q).
     bindE (conn_upd c (\<lambda>x. x\<lparr>accept_queue := q\<rparr>) s) (\<lambda>s.
     bindE (nb__establish E (ucast src_host) src_app (local_app_id x) callback s) (\<lambda>(sc, s).
     bindE (conn_upd sc (\<lambda>x. x\<lparr>signaling_state := SIGNALED\<rparr>) s) (\<lambda>s.
     bindE (if packet \<noteq> 0 then nb__run_ingress_step E packet 0 s else Inr s) (\<lambda>s.
     bindE (case accept_loop E c src_app src_host 0 s of None \<Rightarrow> Inl Diverges | Some r \<Rightarrow> r) (\<lambda>s.
     Inr (sc, s))))))))"

definition nb__set_user_data :: "u64 \<Rightarrow> u64 \<Rightarrow> ('t, 'a) nb_state \<Rightarrow> ('t, 'a) nb_state res" where
  "nb__set_user_data c d s = conn_upd c (\<lambda>x. x\<lparr>user_data := d\<rparr>) s"

definition nb__get_user_data :: "u64 \<Rightarrow> ('t, 'a) nb_state \<Rightarrow> u64 res" where
  "nb__get_user_data c s = bindE (conn_get s c) (\<lambda>x. Inr (user_data x))"

section \<open>The main loop\<close>

text \<open>
  The body of the loop of \<open>nb__cycle_connections\<close> for one connection. The callbacks run
  before the state of the connection is updated, and they may change any connection.
\<close>

definition cycle_connection :: "('t, 'a) nb_env \<Rightarrow> u64 \<Rightarrow> ('t, 'a) nb_state \<Rightarrow> ('t, 'a) nb_state res" where
  "cycle_connection E c s =
     bindE (conn_get s c) (\<lambda>x.
     bindE
       (if signaling_state x = SIGNALED then
          bindE (run_callback E (callback_f x) QUEUE_EVENT_ESTABLISHED c s) (\<lambda>s.
          conn_upd c (\<lambda>x. x\<lparr>signaling_state := SIGNAL_HANDLED\<rparr>) s)
        else Inr s) (\<lambda>s.
     bindE (conn_get s c) (\<lambda>x.
     if dq_current_elems (input_queue x) \<noteq> 0
     then run_callback E (callback_f x) QUEUE_EVENT_READ_READY c s else Inr s)))"

text \<open>The bound of the loop, \<open>num_conn\<close>, is read again in every iteration.\<close>

partial_function (option) cycle_loop ::
  "('t, 'a) nb_env \<Rightarrow> nat \<Rightarrow> ('t, 'a) nb_state \<Rightarrow> ('t, 'a) nb_state res option" where [code]:
  "cycle_loop E i s =
     (if i < num_conn s then
        (case bindE (arr_get (active_connections s) i) (\<lambda>c. cycle_connection E c s) of
           Inl e \<Rightarrow> Some (Inl e)
         | Inr s' \<Rightarrow> cycle_loop E (i + 1) s')
      else Some (Inr s))"

definition nb__cycle_connections :: "('t, 'a) nb_env \<Rightarrow> ('t, 'a) nb_state \<Rightarrow> ('t, 'a) nb_state res" where
  "nb__cycle_connections E s =
     (case nb__get_time_ms_now E s of (time_now, s) \<Rightarrow>
      (case cycle_loop E 0 s of None \<Rightarrow> Inl Diverges | Some r \<Rightarrow> r))"

text \<open>The call of a timer's callback; no other callback is installed.\<close>

definition run_timer_callback :: "('t, 'a) nb_env \<Rightarrow> u64 \<Rightarrow> u64 \<Rightarrow> ('t, 'a) nb_state \<Rightarrow> ('t, 'a) nb_state res" where
  "run_timer_callback E t t_now s =
     bindE (t_get (timers s) t) (\<lambda>x.
     case tm_callback x of
       No_Callback \<Rightarrow> Inl Bad_Pointer
     | Redelivery_Timer_Cb \<Rightarrow> redelivery_cb E t (tm_argument x) t_now s)"

definition fire_head :: "('t, 'a) nb_env \<Rightarrow> u64 \<Rightarrow> ('t, 'a) nb_state \<Rightarrow> ('t, 'a) nb_state option res" where
  "fire_head E t_now s =
     (let t = nb__timers_head (timers s) in
      bindE (t_get (timers s) t) (\<lambda>x.
      if tm_timeout x \<le> t_now then
        bindE (timers_updE (nb__remove_timer t) s) (\<lambda>s.
        bindE (run_timer_callback E t t_now s) (\<lambda>s. Inr (Some s)))
      else Inr None))"

partial_function (option) timers_loop ::
  "('t, 'a) nb_env \<Rightarrow> u64 \<Rightarrow> ('t, 'a) nb_state \<Rightarrow> ('t, 'a) nb_state res option" where [code]:
  "timers_loop E t_now s =
     (if nb__timers_head (timers s) \<noteq> 0 then
        (case fire_head E t_now s of
           Inl e \<Rightarrow> Some (Inl e)
         | Inr None \<Rightarrow> Some (Inr s)
         | Inr (Some s') \<Rightarrow> timers_loop E t_now s')
      else Some (Inr s))"

definition nb__check_timers :: "('t, 'a) nb_env \<Rightarrow> ('t, 'a) nb_state \<Rightarrow> ('t, 'a) nb_state res" where
  "nb__check_timers E s =
     (case nb__get_time_ms_now E s of (t_now, s) \<Rightarrow>
      bindE (case timers_loop E t_now s of None \<Rightarrow> Inl Diverges | Some r \<Rightarrow> r) (\<lambda>s.
      Inr (s\<lparr>timers := (timers s)\<lparr>nb__last_timer_checked := t_now\<rparr>\<rparr>)))"

definition nb__main_loop_step :: "('t, 'a) nb_env \<Rightarrow> ('t, 'a) nb_state \<Rightarrow> ('t, 'a) nb_state res" where
  "nb__main_loop_step E s =
     (let s = s\<lparr>nb__time_now := clock_ms E s\<rparr> in
      bindE (get_headroom (net_packet E)) (\<lambda>nb__packet_headroom.
      bindE (poll_packet E nb__packet_headroom s) (\<lambda>((p, len), s).
      bindE (if p \<noteq> 0 then nb__run_ingress_step E p len s else Inr s) (\<lambda>s.
      bindE (nb__cycle_connections E s) (\<lambda>s.
      nb__check_timers E s)))))"

end
