(* ===== verification/Ipc_Transport.thy ===== *)
theory Ipc_Transport
  imports NB_State "HOL-Library.Sublist"
begin

text \<open>
  The transport over a Unix socket (\<open>runtime/nb_ipc_transport.c\<close>), with its simulation of
  lost and reordered packets. The socket is a list of messages written and a list of messages to
  read; \<open>rand\<close> is a stream of numbers, \<open>sock_ready\<close> says which calls of
  \<open>write\<close> on the non-blocking socket succeed.
\<close>

section \<open>The operations\<close>

definition IPC_MTU :: nat where "IPC_MTU = 1024"
definition OUT_OF_ORDER_CHANCE :: nat where "OUT_OF_ORDER_CHANCE = 5"
definition PACKET_DROP_CHANCE :: nat where "PACKET_DROP_CHANCE = 5"

record ipc_state =
  nb__ipc_simulate_out_of_order :: bool
  nb__ipc_simulate_packet_drop :: bool
  out_of_order_store :: "u8 list"
  out_of_order_len :: nat
  sock_out :: "u8 list list"
  sock_in :: "u8 list list"
  sock_ready :: "nat \<Rightarrow> bool"
  sock_writes :: nat
  temp_buf :: "u8 list"
  rand_stream :: "nat \<Rightarrow> nat"
  rand_calls :: nat

definition rand :: "ipc_state \<Rightarrow> nat \<times> ipc_state" where
  "rand t = (rand_stream t (rand_calls t), t\<lparr>rand_calls := rand_calls t + 1\<rparr>)"

text \<open>\<open>write\<close> of one message on the socket: the number of bytes, or \<open>-1\<close>.\<close>

definition sock_write :: "u8 list \<Rightarrow> ipc_state \<Rightarrow> int \<times> ipc_state" where
  "sock_write m t =
     (let k = sock_writes t; t = t\<lparr>sock_writes := k + 1\<rparr> in
      if sock_ready t k then (int (length m), t\<lparr>sock_out := sock_out t @ [m]\<rparr>) else (- 1, t))"

text \<open>\<open>write(ipc_socket, out_of_order_store, out_of_order_len)\<close>, then the length is reset.\<close>

definition flush_store :: "ipc_state \<Rightarrow> ipc_state" where
  "flush_store t =
     (if out_of_order_len t \<noteq> 0
      then case sock_write (take (out_of_order_len t) (out_of_order_store t)) t of (ret, t) \<Rightarrow>
        t\<lparr>out_of_order_len := 0\<rparr>
      else t)"

definition ipc_drops :: "ipc_state \<Rightarrow> bool \<times> ipc_state" where
  "ipc_drops t =
     (if nb__ipc_simulate_packet_drop t
      then case rand t of (r, t) \<Rightarrow> (r mod PACKET_DROP_CHANCE = 0, t) else (False, t))"

definition ipc_holds :: "ipc_state \<Rightarrow> bool \<times> ipc_state" where
  "ipc_holds t =
     (if out_of_order_len t = 0 \<and> nb__ipc_simulate_out_of_order t
      then case rand t of (r, t) \<Rightarrow> (r mod OUT_OF_ORDER_CHANCE = 0, t) else (False, t))"

definition nb__send_packet :: "u8 list \<Rightarrow> ipc_state \<Rightarrow> (int \<times> ipc_state) res" where
  "nb__send_packet buff t =
     (case ipc_drops t of (dropped, t) \<Rightarrow>
      if dropped then Inr (int (length buff), t) else
      case ipc_holds t of (held, t) \<Rightarrow>
      if held then
        bindE (mem_copy 0 buff (length buff) (out_of_order_store t)) (\<lambda>store.
        Inr (int (length buff), t\<lparr>out_of_order_len := length buff, out_of_order_store := store\<rparr>))
      else case sock_write buff t of (ret, t) \<Rightarrow> Inr (ret, flush_store t))"

definition nb__ipc_deinit :: "ipc_state \<Rightarrow> ipc_state" where
  "nb__ipc_deinit t = flush_store t"

text \<open>
  \<open>nb__poll_packet\<close>: a message of at most \<open>IPC_MTU\<close> bytes is read into the static
  buffer, which keeps the end of earlier messages, and all of it is copied behind the headroom.
\<close>

definition nb__poll_packet ::
  "(ipc_state, 'a) nb_env \<Rightarrow> nat \<Rightarrow> (ipc_state, 'a) nb_state \<Rightarrow> ((u64 \<times> int) \<times> (ipc_state, 'a) nb_state) res" where
  "nb__poll_packet E headroom s =
     (case sock_in (transport_state s) of
        [] \<Rightarrow> Inr ((0, 0), s)
      | m # ms \<Rightarrow>
          let t = transport_state s; len = min (length m) IPC_MTU in
          bindE (mem_copy 0 m len (temp_buf t)) (\<lambda>tb.
          let s = s\<lparr>transport_state := t\<lparr>sock_in := ms, temp_buf := tb\<rparr>\<rparr> in
          if len > 0 then
            case malloc_buf E (IPC_MTU + headroom) s of (buf, s) \<Rightarrow>
            bindE (buf_updE buf (mem_copy headroom tb IPC_MTU) s) (\<lambda>s.
            Inr ((buf, int len), s))
          else Inr ((0, 0), s)))"

definition nb__request_send_buffer ::
  "(ipc_state, 'a) nb_env \<Rightarrow> (ipc_state, 'a) nb_state \<Rightarrow> (u64 \<times> (ipc_state, 'a) nb_state) res" where
  "nb__request_send_buffer E s = Inr (malloc_buf E IPC_MTU s)"

definition nb__return_send_buffer ::
  "u64 \<Rightarrow> (ipc_state, 'a) nb_state \<Rightarrow> (ipc_state, 'a) nb_state res" where
  "nb__return_send_buffer p s = bindE (buf_get s p) (\<lambda>_. Inr (s\<lparr>bufs := (bufs s)(p := None)\<rparr>))"

text \<open>A program linked with this transport.\<close>

definition ipc_send_packet :: "u8 list \<Rightarrow> (ipc_state, 'a) nb_state \<Rightarrow> (int \<times> (ipc_state, 'a) nb_state) res" where
  "ipc_send_packet buff s =
     bindE (nb__send_packet buff (transport_state s)) (\<lambda>(ret, t). Inr (ret, s\<lparr>transport_state := t\<rparr>))"

definition ipc_env :: "(ipc_state, 'a) nb_env \<Rightarrow> (ipc_state, 'a) nb_env" where
  "ipc_env E = E\<lparr>request_send_buffer := nb__request_send_buffer E, send_packet := ipc_send_packet,
     poll_packet := nb__poll_packet E\<rparr>"

section \<open>The order of the packets on the socket\<close>

text \<open>
  \<open>swaps xs ys\<close>: \<open>ys\<close> is \<open>xs\<close> with some disjoint pairs of neighbours
  exchanged.
\<close>

inductive swaps :: "'a list \<Rightarrow> 'a list \<Rightarrow> bool" where
  swaps_Nil: "swaps [] []"
| swaps_keep: "swaps xs ys \<Longrightarrow> swaps (xs @ [x]) (ys @ [x])"
| swaps_swap: "swaps xs ys \<Longrightarrow> swaps (xs @ [x, y]) (ys @ [y, x])"

fun send_all :: "u8 list list \<Rightarrow> ipc_state \<Rightarrow> ipc_state res" where
  "send_all [] t = Inr t"
| "send_all (p # ps) t = bindE (nb__send_packet p t) (\<lambda>(ret, t). send_all ps t)"

definition pending :: "ipc_state \<Rightarrow> u8 list list" where
  "pending t = (if out_of_order_len t \<noteq> 0 then [take (out_of_order_len t) (out_of_order_store t)] else [])"

text \<open>What has been sent so far is on the socket, up to exchanges, except the packet that is held.\<close>

definition ipc_inv :: "u8 list list \<Rightarrow> ipc_state \<Rightarrow> bool" where
  "ipc_inv qs t \<longleftrightarrow> length (out_of_order_store t) = IPC_MTU \<and> out_of_order_len t \<le> IPC_MTU \<and>
     (\<exists>xs. qs = xs @ pending t \<and> swaps xs (sock_out t)) \<and> (\<forall>k. sock_ready t k)"

lemmas ipc_defs = nb__send_packet_def ipc_drops_def ipc_holds_def rand_def sock_write_def flush_store_def Let_def

lemma send_packet_ok:
  assumes inv: "ipc_inv qs t" and p: "p \<noteq> []" "length p \<le> IPC_MTU"
  shows "\<exists>ret t'. nb__send_packet p t = Inr (ret, t') \<and>
    (ipc_inv (qs @ [p]) t' \<or> nb__ipc_simulate_packet_drop t \<and> ipc_inv qs t') \<and>
    nb__ipc_simulate_packet_drop t' = nb__ipc_simulate_packet_drop t"
proof -
  obtain dropped t1 where d: "ipc_drops t = (dropped, t1)" by (cases "ipc_drops t")
  then have t1: "ipc_inv qs t1" "dropped \<longrightarrow> nb__ipc_simulate_packet_drop t"
    "nb__ipc_simulate_packet_drop t1 = nb__ipc_simulate_packet_drop t"
    using inv by (auto simp: ipc_drops_def rand_def ipc_inv_def pending_def split: if_splits)
  obtain held t2 where h: "ipc_holds t1 = (held, t2)" by (cases "ipc_holds t1")
  then have t2: "ipc_inv qs t2" "held \<longrightarrow> out_of_order_len t2 = 0"
    "nb__ipc_simulate_packet_drop t2 = nb__ipc_simulate_packet_drop t"
    using t1 by (auto simp: ipc_holds_def rand_def ipc_inv_def pending_def split: if_splits)
  from t2(1) obtain xs where xs: "qs = xs @ pending t2" "swaps xs (sock_out t2)"
    "length (out_of_order_store t2) = IPC_MTU" "out_of_order_len t2 \<le> IPC_MTU" "\<forall>k. sock_ready t2 k"
    by (auto simp: ipc_inv_def)
  consider "dropped" | "\<not> dropped" "held" | "\<not> dropped" "\<not> held" by blast
  then show ?thesis
  proof cases
    case 1
    with d t1 show ?thesis by (simp add: nb__send_packet_def)
  next
    case 2
    then have "mem_copy 0 p (length p) (out_of_order_store t2) = Inr (p @ drop (length p) (out_of_order_store t2))"
      using xs(3) p by (simp add: mem_copy_def)
    moreover have "ipc_inv (qs @ [p]) (t2\<lparr>out_of_order_len := length p,
        out_of_order_store := p @ drop (length p) (out_of_order_store t2)\<rparr>)"
      using xs 2 t2(2) p by (auto simp: ipc_inv_def pending_def)
    ultimately show ?thesis
      using d h 2 t2(3) by (simp add: nb__send_packet_def)
  next
    case 3
    have "ipc_inv (qs @ [p]) (flush_store (snd (sock_write p t2)))"
      using xs swaps_swap [OF xs(2)] swaps_keep [OF xs(2)]
      by (auto simp: ipc_inv_def pending_def flush_store_def sock_write_def Let_def)
    moreover have "nb__ipc_simulate_packet_drop (flush_store (snd (sock_write p t2))) = nb__ipc_simulate_packet_drop t"
      using t2(3) by (simp add: flush_store_def sock_write_def Let_def)
    ultimately show ?thesis
      using d h 3 by (auto simp: nb__send_packet_def split: prod.splits)
  qed
qed

lemma send_all_ok:
  assumes "ipc_inv qs t" "\<And>p. p \<in> set ps \<Longrightarrow> p \<noteq> [] \<and> length p \<le> IPC_MTU"
  shows "\<exists>t' rs. send_all ps t = Inr t' \<and> ipc_inv (qs @ rs) t' \<and> subseq rs ps \<and>
    (nb__ipc_simulate_packet_drop t \<or> rs = ps)"
  using assms
proof (induction ps arbitrary: qs t)
  case Nil
  then show ?case by (intro exI [of _ t] exI [of _ "[]"]) auto
next
  case (Cons p ps)
  then obtain ret t1 where t1: "nb__send_packet p t = Inr (ret, t1)"
    "ipc_inv (qs @ [p]) t1 \<or> nb__ipc_simulate_packet_drop t \<and> ipc_inv qs t1"
    "nb__ipc_simulate_packet_drop t1 = nb__ipc_simulate_packet_drop t"
    using send_packet_ok [of qs t p] by auto
  from t1(2) show ?case
  proof
    assume "ipc_inv (qs @ [p]) t1"
    then obtain t' rs where "send_all ps t1 = Inr t'" "ipc_inv ((qs @ [p]) @ rs) t'" "subseq rs ps"
      "nb__ipc_simulate_packet_drop t1 \<or> rs = ps"
      using Cons.IH [of "qs @ [p]" t1] Cons.prems by auto
    with t1 show ?thesis by (intro exI [of _ t'] exI [of _ "p # rs"]) auto
  next
    assume "nb__ipc_simulate_packet_drop t \<and> ipc_inv qs t1"
    then obtain t' rs where "send_all ps t1 = Inr t'" "ipc_inv (qs @ rs) t'" "subseq rs ps"
      using Cons.IH [of qs t1] Cons.prems by auto
    with t1 \<open>nb__ipc_simulate_packet_drop t \<and> ipc_inv qs t1\<close> show ?thesis
      by (intro exI [of _ t'] exI [of _ rs]) (auto intro: subseq_Cons')
  qed
qed


end
