(* ===== verification/Scenarios.thy ===== *)
theory Scenarios
  imports Simple_Stack Runtime Ipc_Transport
begin

text \<open>
  Concrete runs: a node with the stack of \<open>src/impls/simple.cpp\<close> over the transport on Unix
  sockets, connections and packets, and for each property with hypotheses an instance on them.
\<close>

section \<open>A concrete node\<close>

definition demo_queue :: data_queue_t where
  "demo_queue = \<lparr>data_queue_elems = replicate 512 (0, 0), data_queue_elems_size = replicate 512 0, dq_current_elems = 0\<rparr>"

definition demo_accept :: accept_queue_t where
  "demo_accept = \<lparr>aq_src_app_id = replicate 512 0, aq_src_host_id = replicate 512 0,
     aq_packet = replicate 512 0, aq_current_elems = 0\<rparr>"

definition demo_conn :: nb__connection_t where
  "demo_conn = \<lparr>callback_f = 1, user_data = 0, remote_host_id = 7, remote_app_id = 80, local_app_id = 8080,
     input_queue = demo_queue, accept_queue = demo_accept, last_sent_sequence = 1010, last_recv_sequence = 1010,
     inorder_buffer = replicate 32 0, max_ooo_sequence = 0, redelivery_buffer = replicate 32 0,
     first_unacked_seq = 0, signaling_state = SIGNALED, conn_dst_global_id = 7\<rparr>"

definition demo_ipc :: ipc_state where
  "demo_ipc = \<lparr>nb__ipc_simulate_out_of_order = True, nb__ipc_simulate_packet_drop = False,
     out_of_order_store = replicate 1024 0, out_of_order_len = 0, sock_out = [], sock_in = [],
     sock_ready = \<lambda>_. True, sock_writes = 0, temp_buf = replicate 1024 0, rand_stream = id, rand_calls = 0\<rparr>"

definition demo_env :: "(ipc_state, unit) nb_env" where
  "demo_env = ipc_env
     \<lparr>cfg = simple_config, net_packet = simple_layout, m_registered_modules = simple_modules,
      malloc_addr = \<lambda>k. of_nat (4096 + k), malloc_byte = \<lambda>k i. 0, malloc_conn = \<lambda>k. demo_conn,
      clock_ms = \<lambda>s. 1000, request_send_buffer = \<lambda>s. Inl Bad_Pointer, send_packet = \<lambda>b s. Inl Bad_Pointer,
      poll_packet = \<lambda>n s. Inl Bad_Pointer, run_callback = \<lambda>f e c s. Inr s\<rparr>"

definition demo_timers :: timer_state where
  "demo_timers = \<lparr>nb__allocated_timers = (\<lambda>t. \<lparr>tm_callback = No_Callback, tm_argument = 0, tm_next = 0, tm_prev = 0, tm_timeout = 0\<rparr>),
     nb__timer_free_list = 0, nb__timers_head = 0, nb__last_timer_checked = 0\<rparr>"

definition demo_state :: "(ipc_state, unit) nb_state" where
  "demo_state = \<lparr>bufs = Map.empty, conns = [256 \<mapsto> demo_conn], mallocs = 0, timers = demo_timers, num_conn = 0,
     active_local_app_ids = replicate 512 0, active_remote_app_ids = replicate 512 0,
     active_remote_host_ids = replicate 512 0, active_connections = replicate 512 0,
     routing_table = None, routing_table_len = 0, nb__my_host_id = 9, nb__my_local_host_id = 9,
     nb__time_now = 1000, transport_state = demo_ipc, app_state = ()\<rparr>"

text \<open>
  A packet on the simple layout with a payload of two bytes: 40 bytes on the wire, sequence number
  1011 (\<open>0xF3 0x03\<close>), flow identifier 256.
\<close>

definition demo_packet :: "u8 \<Rightarrow> u8 list" where
  "demo_packet seq_low =
     [40, 0, 0, 0] @ replicate 12 0 @ [0, 1, 0, 0, 0, 0, 0, 0] @ [9, 0, 0, 0, 0, 0, 7, 0, 0, 0, 0, 0] @
     replicate 8 0 @ [0x90, 0x1f, 80, 0] @ [40, 0, 0, 0] @ [seq_low, 3, 0, 0] @ replicate 4 0 @ [0, 0] @ [104, 105]"

lemma demo_env_simps [simp]:
  "cfg demo_env = simple_config" "net_packet demo_env = simple_layout" "m_registered_modules demo_env = simple_modules"
  by (simp_all add: demo_env_def ipc_env_def)

lemmas field_simps' = simple_int_members [THEN int_member_get]

lemma demo_packet_length [simp]: "length (demo_packet q) = 64"
  by (simp add: demo_packet_def)

lemma demo_packet_fields:
  "get_integer simple_layout ''computed_total_len'' (demo_packet q) = Inr 40"
  "get_integer simple_layout ''total_len'' (demo_packet q) = Inr 40"
  "get_integer simple_layout ''flow_identifier'' (demo_packet q) = Inr 256"
  by (simp_all add: field_simps' buf_read_def demo_packet_def T_to_ull_def t_bits_def)

lemma demo_packet_seq: "get_integer simple_layout ''sequence_number'' (demo_packet 0xf3) = Inr 1011"
  "get_integer simple_layout ''sequence_number'' (demo_packet 1) = Inr 769"
  by (simp_all add: field_simps' buf_read_def demo_packet_def T_to_ull_def t_bits_def)

lemma demo_inorder_env: "inorder_env demo_env 0 48 62 38"
  using simple_int_members
  by (simp add: inorder_env_def int_member_addr [OF simple_int_members(13)] header_size_def simple_headroom simple_total_size)

section \<open>Layout and codec\<close>

theorem layout_members_disjoint_example:
  "\<exists>oi oj. get_offset (fix_layout simple_members) (member_names simple_members ! 5) = Some oi \<and>
     get_offset (fix_layout simple_members) (member_names simple_members ! 6) = Some oj \<and>
     oi + 48 \<le> oj \<and> 8 dvd oj"
proof -
  let ?mi = "(generic_integer_member unsigned_long_long 48 member_flags_aligned)\<lparr>m_order := 9\<rparr>"
  let ?mj = "(aligned_int unsigned_int)\<lparr>m_order := 12\<rparr>"
  have "m_members_map simple_members (member_names simple_members ! 5) = Some ?mi"
    "m_members_map simple_members (member_names simple_members ! 6) = Some ?mj"
    "5 < (6::nat)" "6 < length (member_names simple_members)"
    by (simp_all add: simple_names) (simp_all add: simple_members_def)
  from layout_members_disjoint [OF simple_wf simple_wf_members this(3,4,1,2)] show ?thesis
    by (simp add: generic_integer_member_def get_size_def member_align_def aligned_def member_flags_aligned_def byte_size_def)
qed

theorem set_custom_range_fits_example:
  "\<exists>g'. set_custom_range 10 1000 \<lparr>gi_type = unsigned_short, m_align = 8, m_bit_size = 16, m_range_base = 0\<rparr> = Inr (Some g') \<and>
     m_range_base g' = 10 \<and> (\<forall>v::int. 10 \<le> v \<and> v < 1000 \<longrightarrow> v - 10 < 2 ^ m_bit_size g') \<and> 2 ^ m_bit_size g' < (1980 :: int)"
  using set_custom_range_fits [of 10 1000 "\<lparr>gi_type = unsigned_short, m_align = 8, m_bit_size = 16, m_range_base = 0\<rparr>"]
  by (simp add: t_bits_def)

theorem set_get_integer_example:
  "\<exists>buf'. gi_set_integer \<lparr>gi_type = unsigned_int, m_align = 8, m_bit_size = 32, m_range_base = 0\<rparr> 32 77 (replicate 16 1) = Inr buf' \<and>
     gi_get_integer \<lparr>gi_type = unsigned_int, m_align = 8, m_bit_size = 32, m_range_base = 0\<rparr> 32 buf' = Inr 77"
  using set_get_integer [of "\<lparr>gi_type = unsigned_int, m_align = 8, m_bit_size = 32, m_range_base = 0\<rparr>" 32 "replicate 16 1" 77]
  by (auto simp: wf_gi_def fits_def t_bits_def T_to_ull_def)


theorem set_integer_clears_neighbour_example:
  "\<exists>buf'. gi_set_integer \<lparr>gi_type = unsigned_char, m_align = 8, m_bit_size = 3, m_range_base = 0\<rparr> 12 5 (replicate 4 0xff) = Inr buf' \<and>
     (\<forall>j. 15 \<le> j \<and> j < 16 \<longrightarrow> \<not> buf_bit buf' j) \<and> buf_bit (replicate 4 0xff) 15"
  using set_integer_clears_neighbour [of 12 "\<lparr>gi_type = unsigned_char, m_align = 8, m_bit_size = 3, m_range_base = 0\<rparr>" "replicate 4 0xff" 5]
  by (simp add: buf_bit_def bit_numeral_rec)

section \<open>Framework, queues and timers\<close>


theorem data_queue_fifo_example:
  "\<exists>q1 q2. enq_all (\<lambda>(buff, len) q. nb__insert_data_queue buff len q) [((5, 62), 7), ((6, 62), 3)] (nb__new_data_queue demo_queue) = Inr q1 \<and>
     deq_n dq_take_first 2 q1 = Inr ([((5, 62), 7), ((6, 62), 3)], q2) \<and> dq_list q2 = []"
proof -
  have "dq_inv demo_queue" "length [((5::u64, 62::nat), 7::int), ((6, 62), 3)] \<le> MAX_DATA_QUEUE_ELEMS"
    by (simp_all add: dq_inv_def demo_queue_def MAX_DATA_QUEUE_ELEMS_def)
  from data_queue_fifo [OF this] show ?thesis by (simp add: numeral_2_eq_2) blast
qed

lemma demo_timers_init: "\<exists>ts. nb__init_timers 1000 demo_timers = Inr ts \<and> timer_inv ts [] (map timer_ptr [0..<MAX_TIMER_ALLOCS])"
  using init_timers_inv [of demo_timers 1000] by (auto simp: demo_timers_def)

theorem insert_timer_sorted_example:
  "\<exists>ts ts'. timer_inv ts [] [] \<and> nb__insert_timer 5 1050 Redelivery_Timer_Cb 4096 ts = Inr ts' \<and> timer_inv ts' [5] []"
proof -
  have inv: "timer_inv demo_timers [] []" by (simp add: timer_inv_def demo_timers_def)
  moreover have "valid_timer 5" "5 \<notin> set []" "5 \<notin> set []"
    by (simp_all add: valid_timer_def MAX_TIMER_ALLOCS_def)
  from insert_timer_sorted [OF inv this, of 1050 Redelivery_Timer_Cb 4096]
  obtain ts' where "nb__insert_timer 5 1050 Redelivery_Timer_Cb 4096 demo_timers = Inr ts'" "timer_inv ts' [5] []"
    by auto
  ultimately show ?thesis by blast
qed

theorem timer_pool_safe_example:
  "\<exists>ts t ts'. timer_reach ts {} {} \<and> nb__alloc_timer ts = Inr (t, ts') \<and> t \<noteq> 0"
proof -
  obtain ts where "nb__init_timers 1000 demo_timers = Inr ts" using demo_timers_init by blast
  then have reach: "timer_reach ts {} {}" by (intro tr_init) (auto simp: demo_timers_def)
  have "valid_timer 1" by (simp add: valid_timer_def MAX_TIMER_ALLOCS_def)
  then have "{} \<noteq> Collect valid_timer" by blast
  with timer_pool_safe [OF reach] reach show ?thesis by auto
qed

section \<open>The connection table\<close>

definition demo_table :: "ct_entry list \<Rightarrow> (ipc_state, unit) nb_state" where
  "demo_table es = demo_state\<lparr>num_conn := length es,
     active_local_app_ids := map fst es @ replicate (512 - length es) 0,
     active_remote_app_ids := map (\<lambda>e. fst (snd e)) es @ replicate (512 - length es) 0,
     active_remote_host_ids := map (\<lambda>e. fst (snd (snd e))) es @ replicate (512 - length es) 0,
     active_connections := map ct_conn es @ replicate (512 - length es) 0\<rparr>"

lemma demo_table_inv: "length es \<le> 512 \<Longrightarrow> ct_inv (demo_table es)"
  by (simp add: ct_inv_def demo_table_def MAX_ACTIVE_CONNECTIONS_def)

lemma demo_table_list: "ct_list (demo_table es) = es"
  by (rule nth_equalityI) (simp_all add: ct_list_def demo_table_def ct_conn_def nth_append)

theorem add_connection_found_example:
  "\<exists>s'. add_connection demo_env 256 8080 80 7 (demo_table []) = Inr s' \<and> ct_inv s' \<and>
     retrieve_connection demo_env 8080 80 7 s' = Inr 256"
proof -
  have "num_conn (demo_table []) < MAX_ACTIVE_CONNECTIONS"
    by (simp add: demo_table_def MAX_ACTIVE_CONNECTIONS_def)
  with add_connection_found [OF demo_table_inv [of "[]"], of demo_env 8080 80 7 256] show ?thesis
    by (auto simp: demo_table_list)
qed

theorem delete_connection_same_host_example:
  "\<exists>s'. delete_connection demo_env 8080 80 7 (demo_table [(8080, 80, 7, 256), (8081, 80, 7, 512)]) = Inr s' \<and>
     retrieve_connection demo_env 8080 80 7 s' = Inr 0 \<and> retrieve_connection demo_env 8081 80 7 s' =
     retrieve_connection demo_env 8081 80 7 (demo_table [(8080, 80, 7, 256), (8081, 80, 7, 512)])"
proof -
  let ?es = "[(8080, 80, 7, 256), (8081, 80, 7, 512)] :: ct_entry list"
  have inv: "ct_inv (demo_table ?es)" by (rule demo_table_inv) simp
  have "flow_identifier (cfg demo_env) = src_dst_identifier" by simp
  moreover have "fst (snd (snd e)) = 7" if "e \<in> set (ct_list (demo_table ?es))" for e
    using that by (auto simp: demo_table_list)
  moreover have "distinct (map ct_key (ct_list (demo_table ?es)))" by (simp add: demo_table_list)
  moreover have "(8080, 80, 7, 256) \<in> set (ct_list (demo_table ?es))" by (simp add: demo_table_list)
  moreover have "ct_key (8080, 80, 7, 256) = (8080, 80, 7)" by simp
  ultimately obtain s' where "delete_connection demo_env 8080 80 7 (demo_table ?es) = Inr s'"
    "retrieve_connection demo_env 8080 80 7 s' = Inr 0"
    "\<And>a' r' h'. (a', r', h') \<noteq> (8080, 80, 7) \<Longrightarrow>
       retrieve_connection demo_env a' r' h' s' = retrieve_connection demo_env a' r' h' (demo_table ?es)"
    using delete_connection_same_host [OF inv, of demo_env 7 "(8080, 80, 7, 256)" 8080 80] by metis
  moreover from this(3) [of 8081 80 7]
  have "retrieve_connection demo_env 8081 80 7 s' = retrieve_connection demo_env 8081 80 7 (demo_table ?es)" by simp
  ultimately show ?thesis by blast
qed

theorem delete_connection_wrong_host_example:
  "\<exists>s'. delete_connection demo_env 8080 80 7 (demo_table [(8080, 80, 7, 256), (8081, 80, 5, 512)]) = Inr s' \<and>
     retrieve_connection demo_env 8081 80 7 s' = Inr 512 \<and> retrieve_connection demo_env 8081 80 5 s' = Inr 0"
  using delete_connection_wrong_host [OF demo_table_inv [of "[(8080, 80, 7, 256), (8081, 80, 5, 512)]"],
      of demo_env "[]" 8080 80 7 256 "[]" 8081 80 5 512]
  by (simp add: demo_table_list)

section \<open>Checksum and transport\<close>

definition demo_received :: "u8 \<Rightarrow> (ipc_state, unit) nb_state" where
  "demo_received seq_low = demo_state\<lparr>bufs := [4096 \<mapsto> demo_packet seq_low]\<rparr>"

lemma demo_received_simps [simp]:
  "bufs (demo_received q) = [4096 \<mapsto> demo_packet q]" "conns (demo_received q) = [256 \<mapsto> demo_conn]"
  by (simp_all add: demo_received_def demo_state_def)



section \<open>In-order delivery\<close>

lemma demo_pkt_ok: "pkt_ok demo_env 0 48 (demo_received q) 4096 40"
  by (simp add: pkt_ok_def demo_packet_fields)

lemma demo_pkt_gets:
  "pkt_get demo_env ''flow_identifier'' 4096 (demo_received q) = Inr 256"
  "pkt_get demo_env ''sequence_number'' 4096 (demo_received 0xf3) = Inr 1011"
  "pkt_get demo_env ''sequence_number'' 4096 (demo_received 1) = Inr 769"
  by (simp_all add: pkt_get_def demo_packet_fields demo_packet_seq)

lemma demo_conn_simps:
  "dq_inv (input_queue demo_conn)" "dq_current_elems (input_queue demo_conn) = 0"
  "last_recv_sequence demo_conn = 1010" "inorder_buffer demo_conn = replicate 32 0"
  by (simp_all add: demo_conn_def dq_inv_def demo_queue_def MAX_DATA_QUEUE_ELEMS_def)

theorem hold_forever_in_order_example:
  "\<exists>st s' x'. inorder_hook_ingress demo_env 4096 (demo_received 0xf3) = Inr (st, s') \<and>
     conns s' 256 = Some x' \<and> dq_inv (input_queue x')"
proof -
  have w: "window_inv demo_conn 1010 Map.empty"
    by (simp add: window_inv_def demo_conn_simps INORDER_BUFFER_SIZE_def)
  from hold_forever_in_order [OF demo_inorder_env _ _ _ w, of 256 "demo_received 0xf3" "\<lambda>_. 40" 4096 1011 1011]
  show ?thesis
    by (auto simp: demo_pkt_gets demo_pkt_ok demo_conn_simps MAX_DATA_QUEUE_ELEMS_def)
qed


definition demo_drop_env :: "(ipc_state, unit) nb_env" where
  "demo_drop_env = demo_env\<lparr>cfg := simple_config\<lparr>inorder_strategy := drop_out_of_order\<rparr>\<rparr>"


end
