(* ===== verification/Linux_Transport.thy ===== *)
theory Linux_Transport
  imports NB_State
begin

text \<open>
  The transport over a raw Linux socket (\<open>runtime/nb_linux_transport.c\<close>): frames are
  written to and read from the interface one by one. The theory \<open>Socket_Setup\<close> opens the socket.
\<close>

definition LINUX_MTU :: nat where "LINUX_MTU = 1024"

record linux_state =
  raw_in :: "u8 list list"
  raw_out :: "u8 list list"
  raw_ready :: "nat \<Rightarrow> bool"
  raw_writes :: nat
  linux_temp_buf :: "u8 list"

definition linux_poll_packet ::
  "(linux_state, 'a) nb_env \<Rightarrow> nat \<Rightarrow> (linux_state, 'a) nb_state \<Rightarrow> ((u64 \<times> int) \<times> (linux_state, 'a) nb_state) res" where
  "linux_poll_packet E headroom s =
     (case raw_in (transport_state s) of
        [] \<Rightarrow> Inr ((0, 0), s)
      | m # ms \<Rightarrow>
          let t = transport_state s; len = min (length m) LINUX_MTU in
          bindE (mem_copy 0 m len (linux_temp_buf t)) (\<lambda>tb.
          let s = s\<lparr>transport_state := t\<lparr>raw_in := ms, linux_temp_buf := tb\<rparr>\<rparr> in
          if len > 0 then
            case malloc_buf E (LINUX_MTU + headroom) s of (buf, s) \<Rightarrow>
            bindE (buf_updE buf (mem_copy headroom tb LINUX_MTU) s) (\<lambda>s.
            Inr ((buf, int len), s))
          else Inr ((0, 0), s)))"

text \<open>\<open>write\<close> on the non-blocking socket gives the number of bytes, or \<open>-1\<close>.\<close>

definition linux_send_packet ::
  "u8 list \<Rightarrow> (linux_state, 'a) nb_state \<Rightarrow> (int \<times> (linux_state, 'a) nb_state) res" where
  "linux_send_packet buff s =
     (let t = transport_state s; k = raw_writes t; t = t\<lparr>raw_writes := k + 1\<rparr> in
      if raw_ready t k
      then Inr (int (length buff), s\<lparr>transport_state := t\<lparr>raw_out := raw_out t @ [buff]\<rparr>\<rparr>)
      else Inr (- 1, s\<lparr>transport_state := t\<rparr>))"

text \<open>Beside the frame the buffer has 32 bytes for the headroom.\<close>

definition linux_request_send_buffer ::
  "(linux_state, 'a) nb_env \<Rightarrow> (linux_state, 'a) nb_state \<Rightarrow> (u64 \<times> (linux_state, 'a) nb_state) res" where
  "linux_request_send_buffer E s = Inr (malloc_buf E (LINUX_MTU + 32) s)"

definition linux_return_send_buffer ::
  "u64 \<Rightarrow> (linux_state, 'a) nb_state \<Rightarrow> (linux_state, 'a) nb_state res" where
  "linux_return_send_buffer p s = bindE (buf_get s p) (\<lambda>_. Inr (s\<lparr>bufs := (bufs s)(p := None)\<rparr>))"

definition linux_env :: "(linux_state, 'a) nb_env \<Rightarrow> (linux_state, 'a) nb_env" where
  "linux_env E = E\<lparr>request_send_buffer := linux_request_send_buffer E, send_packet := linux_send_packet,
     poll_packet := linux_poll_packet E\<rparr>"

end
