(* ===== verification/Node_Contract.thy ===== *)
theory Node_Contract
  imports Runtime Ipc_Transport Linux_Transport
begin

text \<open>
  The contracts between the stack, the transport and the application. A transport may change packet
  buffers and its own state (\<open>locale transport\<close>); a callback of the application may change
  the state of the application (\<open>locale node\<close>). From them follows what each path of the
  stack leaves alone: sending changes two members of one connection, the ingress path and the main
  loop never change the table of connections. Both transports of the runtime keep the contract.
\<close>

section \<open>What the paths leave alone\<close>

text \<open>The table of connections, the routing table and the identity of the node.\<close>

definition net_view :: "('t, 'a) nb_state \<Rightarrow> _" where
  "net_view s = (num_conn s, active_local_app_ids s, active_remote_app_ids s, active_remote_host_ids s,
     active_connections s, routing_table s, routing_table_len s, nb__my_host_id s, nb__my_local_host_id s)"

lemma ct_inv_net_view: "net_view s' = net_view s \<Longrightarrow> ct_inv s' = ct_inv s"
  by (simp add: net_view_def ct_inv_def)

lemma ct_list_net_view: "net_view s' = net_view s \<Longrightarrow> ct_list s' = ct_list s"
  by (simp add: net_view_def ct_list_def)

text \<open>A step of the transport.\<close>

definition transport_frame :: "('t, 'a) nb_state \<Rightarrow> ('t, 'a) nb_state \<Rightarrow> bool" where
  "transport_frame s s' \<longleftrightarrow> net_view s' = net_view s \<and> conns s' = conns s \<and> timers s' = timers s \<and>
     nb__time_now s' = nb__time_now s \<and> app_state s' = app_state s"

text \<open>
  What sending on connection \<open>c\<close> may change of the connections: \<open>last_sent_sequence\<close>
  and \<open>redelivery_buffer\<close> of \<open>c\<close>.
\<close>

definition strip_send :: "nb__connection_t \<Rightarrow> nb__connection_t" where
  "strip_send x = x\<lparr>last_sent_sequence := 0, redelivery_buffer := replicate (length (redelivery_buffer x)) 0\<rparr>"

definition send_view :: "u64 \<Rightarrow> ('t, 'a) nb_state \<Rightarrow> _" where
  "send_view c s = (net_view s, app_state s, (conns s)(c := map_option strip_send (conns s c)))"

lemma send_view_frame: "transport_frame s s' \<Longrightarrow> send_view c s' = send_view c s"
  by (simp add: transport_frame_def send_view_def)

lemma send_viewD:
  assumes "send_view c s' = send_view c s"
  shows "net_view s' = net_view s" "app_state s' = app_state s"
    "(conns s')(c := map_option strip_send (conns s' c)) = (conns s)(c := map_option strip_send (conns s c))"
  using assms unfolding send_view_def prod.inject by blast+

lemma send_view_upd:
  "send_view c (s\<lparr>bufs := b\<rparr>) = send_view c s" "send_view c (s\<lparr>timers := ts\<rparr>) = send_view c s"
  "send_view c (s\<lparr>nb__time_now := n\<rparr>) = send_view c s" "send_view c (s\<lparr>mallocs := m\<rparr>) = send_view c s"
  by (simp_all add: send_view_def net_view_def)

lemma send_view_conn:
  assumes "conns s c = Some x" "strip_send y = strip_send x"
  shows "send_view c (s\<lparr>conns := (conns s)(c \<mapsto> y)\<rparr>) = send_view c s"
  using assms by (auto simp: send_view_def net_view_def)

lemma pkt_set_view: "pkt_set E n p v s = Inr s' \<Longrightarrow> send_view c s' = send_view c s"
  by (auto simp: stateE send_view_upd)

lemma buf_updE_view: "buf_updE p f s = Inr s' \<Longrightarrow> send_view c s' = send_view c s"
  by (auto simp: stateE send_view_upd)

lemma timers_updE_view: "timers_updE f s = Inr s' \<Longrightarrow> send_view c s' = send_view c s"
  by (auto simp: timers_updE_def resE send_view_upd)

lemma get_time_view: "send_view c (snd (nb__get_time_ms_now E s)) = send_view c s"
  by (simp add: nb__get_time_ms_now_def send_view_upd)

lemma conn_updE_view:
  assumes "conn_updE c f s = Inr s'" "\<And>x y. f x = Inr y \<Longrightarrow> strip_send y = strip_send x"
  shows "send_view c s' = send_view c s"
  using assms by (auto simp: stateE send_view_conn)

lemma conn_upd_view:
  assumes "conn_upd c f s = Inr s'" "\<And>x. strip_send (f x) = strip_send x"
  shows "send_view c s' = send_view c s"
  using assms by (auto simp: stateE send_view_conn)

lemmas view_dests = pkt_set_view buf_updE_view timers_updE_view

section \<open>Contract of a transport\<close>

locale transport =
  fixes E :: "('t, 'a) nb_env"
  assumes request_frame: "request_send_buffer E s = Inr (p, s') \<Longrightarrow> transport_frame s s'"
    and send_frame: "send_packet E b s = Inr (r, s') \<Longrightarrow> transport_frame s s'"
    and poll_frame: "poll_packet E n s = Inr (pl, s') \<Longrightarrow> transport_frame s s'"
begin

lemma request_view: "request_send_buffer E s = Inr (p, s') \<Longrightarrow> send_view c s' = send_view c s"
  by (rule send_view_frame) (rule request_frame)

lemma send_from_headroom_frame: "send_from_headroom E p s = Inr s' \<Longrightarrow> transport_frame s s'"
  by (auto simp: send_from_headroom_def resE Let_def dest: send_frame)

lemma payload_send_view: "payload_hook_send E p buff len s = Inr (st, s', r) \<Longrightarrow> send_view c s' = send_view c s"
  by (auto simp: payload_hook_send_def resE Let_def dest!: view_dests [where c = c] split: if_splits)

lemma inorder_send_view: "inorder_hook_send E c p s = Inr (st, s') \<Longrightarrow> send_view c s' = send_view c s"
  by (auto simp: inorder_hook_send_def resE Let_def strip_send_def
      dest!: view_dests [where c = c] conn_upd_view split: if_splits)

lemma reliable_send_view: "reliable_hook_send E c p s = Inr (st, s') \<Longrightarrow> send_view c s' = send_view c s"
  by (auto simp: reliable_hook_send_def resE Let_def strip_send_def send_view_upd get_time_view case_prod_unfold arr_set_eq_Inr
      dest!: view_dests [where c = c] conn_updE_view)

lemma identifier_send_view: "identifier_hook_send E c p s = Inr (st, s') \<Longrightarrow> send_view c s' = send_view c s"
  by (auto simp: identifier_hook_send_def resE dest!: view_dests [where c = c] split: if_splits)

lemma routing_send_view: "routing_hook_send E c p len s = Inr (st, s') \<Longrightarrow> send_view c s' = send_view c s"
  unfolding routing_hook_send_def Let_def
  by (cases "isIPCompat (compat_level (cfg E))") (clarsimp simp: resE, (drule view_dests [where c = c])+, simp)+

lemma compute_checksum_view: "compute_checksum E p s = Inr (k, s') \<Longrightarrow> send_view c s' = send_view c s"
  by (auto simp: compute_checksum_def resE dest!: view_dests [where c = c] split: if_splits)

lemma checksum_send_view: "checksum_hook_send E p s = Inr (st, s') \<Longrightarrow> send_view c s' = send_view c s"
  by (auto simp: checksum_hook_send_def resE dest!: view_dests [where c = c] compute_checksum_view [where c = c])

lemma network_send_view: "network_hook_send E p s = Inr (st, s') \<Longrightarrow> send_view c s' = send_view c s"
  by (auto simp: network_hook_send_def resE dest!: send_from_headroom_frame intro: send_view_frame)

lemma hook_send_view:
  "hook_send E c p buff len m sr = Inr (st, sr') \<Longrightarrow> send_view c (fst sr') = send_view c (fst sr)"
  by (cases sr; cases sr'; cases m)
    (auto simp: keep_ret_def resE default_hook_def intro: payload_send_view inorder_send_view reliable_send_view
       identifier_send_view routing_send_view checksum_send_view network_send_view)

end

sublocale transport \<subseteq> snd: hook_contract "hook_send E c p buff len" "\<lambda>sr. send_view c (fst sr) = V"
  for c p buff len V
  by unfold_locales (auto dest: hook_send_view)

context transport
begin

lemma send_after_view:
  assumes "send_after E m c p buff len s = Inr s'"
  shows "send_view c s' = send_view c s"
  using assms snd.path_inv [of c p buff len _ _ _ "send_view c s"] by (fastforce simp: send_after_def resE)

lemma run_send_path_view:
  assumes "run_send_path E c buff len s = Inr (r, s')"
  shows "send_view c s' = send_view c s"
  using assms snd.path_inv [of c _ buff len _ _ _ "send_view c s"] request_view [of s _ _ c]
  by (fastforce simp: run_send_path_def resE)

end

section \<open>The transports of the runtime\<close>

lemma transport_frame_simps:
  "transport_frame s s" "transport_frame s (s\<lparr>transport_state := t\<rparr>)" "transport_frame s (s\<lparr>bufs := b\<rparr>)"
  "transport_frame s (s\<lparr>mallocs := m, bufs := b\<rparr>)" "transport_frame s (s\<lparr>mallocs := m\<rparr>)"
  by (simp_all add: transport_frame_def net_view_def)

lemma transport_frame_trans: "transport_frame s1 s2 \<Longrightarrow> transport_frame s2 s3 \<Longrightarrow> transport_frame s1 s3"
  by (simp add: transport_frame_def)

lemma malloc_buf_frame: "malloc_buf E n s = (p, s') \<Longrightarrow> transport_frame s s'"
  by (auto simp: malloc_buf_def Let_def transport_frame_def net_view_def split: if_splits)

lemma buf_updE_frame: "buf_updE p f s = Inr s' \<Longrightarrow> transport_frame s s'"
  by (auto simp: stateE transport_frame_simps)

text \<open>The common end of \<open>nb__poll_packet\<close>: the frame is copied to a new buffer.\<close>

lemma poll_copy_frame:
  assumes "(case malloc_buf E n (s\<lparr>transport_state := t\<rparr>) of (buf, s) \<Rightarrow>
    bindE (buf_updE buf f s) (\<lambda>s. Inr ((buf, len), s))) = Inr (pl, s')"
  shows "transport_frame s s'"
proof -
  obtain buf s1 where "malloc_buf E n (s\<lparr>transport_state := t\<rparr>) = (buf, s1)" by fastforce
  with assms have "transport_frame (s\<lparr>transport_state := t\<rparr>) s1" "transport_frame s1 s'"
    by (auto simp: resE intro: malloc_buf_frame buf_updE_frame)
  with transport_frame_trans [OF transport_frame_trans [OF transport_frame_simps(2)]] show ?thesis .
qed

interpretation ipc: transport "ipc_env E" for E
proof
  fix s p s' assume "request_send_buffer (ipc_env E) s = Inr (p, s')"
  then show "transport_frame s s'" by (auto simp: ipc_env_def nb__request_send_buffer_def intro: malloc_buf_frame)
next
  fix b s r s' assume "send_packet (ipc_env E) b s = Inr (r, s')"
  then show "transport_frame s s'" by (auto simp: ipc_env_def ipc_send_packet_def resE transport_frame_simps)
next
  fix n s pl s' assume "poll_packet (ipc_env E) n s = Inr (pl, s')"
  then show "transport_frame s s'"
    by (auto simp: ipc_env_def nb__poll_packet_def Let_def bindE_eq_Inr [of "mem_copy _ _ _ _"] transport_frame_simps
        split: list.splits if_splits intro: poll_copy_frame)
qed

interpretation linux: transport "linux_env E" for E
proof
  fix s p s' assume "request_send_buffer (linux_env E) s = Inr (p, s')"
  then show "transport_frame s s'" by (auto simp: linux_env_def linux_request_send_buffer_def intro: malloc_buf_frame)
next
  fix b s r s' assume "send_packet (linux_env E) b s = Inr (r, s')"
  then show "transport_frame s s'"
    by (auto simp: linux_env_def linux_send_packet_def Let_def transport_frame_simps split: if_splits)
next
  fix n s pl s' assume "poll_packet (linux_env E) n s = Inr (pl, s')"
  then show "transport_frame s s'"
    by (auto simp: linux_env_def linux_poll_packet_def Let_def bindE_eq_Inr [of "mem_copy _ _ _ _"] transport_frame_simps
        split: list.splits if_splits intro: poll_copy_frame)
qed

section \<open>Sending\<close>

text \<open>
  C24. Sending on a connection over the socket transport, whatever the stack is made of, changes of
  all connections only the members \<open>last_sent_sequence\<close> and \<open>redelivery_buffer\<close> of
  that one, and leaves the table of connections, the routing table, the identity of the node and the
  state of the application alone.
\<close>

theorem send_changes_one_connection:
  assumes "nb__send (ipc_env E) c buff len s = Inr (r, s')"
  shows "ct_list s' = ct_list s \<and> app_state s' = app_state s \<and>
    (\<forall>c'. c' \<noteq> c \<longrightarrow> conns s' c' = conns s c') \<and>
    (\<forall>x. conns s c = Some x \<longrightarrow>
       (\<exists>sq rb. length rb = length (redelivery_buffer x) \<and> conns s' c = Some (x\<lparr>last_sent_sequence := sq, redelivery_buffer := rb\<rparr>)))"
proof -
  have v: "send_view c s' = send_view c s"
    using ipc.run_send_path_view assms by (auto simp: nb__send_def)
  note nv = send_viewD(1) [OF v] and as = send_viewD(2) [OF v] and cs = send_viewD(3) [OF v]
  have other: "conns s' c' = conns s c'" if "c' \<noteq> c" for c'
    using fun_cong [OF cs, of c'] that by simp
  have "\<exists>sq rb. length rb = length (redelivery_buffer x) \<and> conns s' c = Some (x\<lparr>last_sent_sequence := sq, redelivery_buffer := rb\<rparr>)" if x: "conns s c = Some x" for x
  proof -
    from fun_cong [OF cs, of c] x obtain y where y: "conns s' c = Some y" "strip_send y = strip_send x" by auto
    then have "y = x\<lparr>last_sent_sequence := last_sent_sequence y, redelivery_buffer := redelivery_buffer y\<rparr>"
      "length (redelivery_buffer y) = length (redelivery_buffer x)"
      by (cases x; cases y; auto simp: strip_send_def dest: arg_cong [of _ _ length])+
    then show ?thesis using y(1) by metis
  qed
  with as other ct_list_net_view [OF nv] show ?thesis by simp
qed

section \<open>Invariant of a node\<close>

definition conn_ok :: "nb__connection_t \<Rightarrow> bool" where
  "conn_ok x \<longleftrightarrow> dq_inv (input_queue x) \<and> aq_inv (accept_queue x) \<and>
     length (inorder_buffer x) = INORDER_BUFFER_SIZE \<and> length (redelivery_buffer x) = REDELIVERY_BUFFER_SIZE"

text \<open>What identifies a connection from \<open>nb__establish\<close> to \<open>nb__destablish\<close>.\<close>

definition conn_ids :: "nb__connection_t \<Rightarrow> _" where
  "conn_ids x = (callback_f x, user_data x, remote_host_id x, remote_app_id x, local_app_id x, conn_dst_global_id x)"

definition table_view :: "('t, 'a) nb_state \<Rightarrow> _" where
  "table_view s = (net_view s, (\<lambda>c. map_option conn_ids (conns s c)))"

definition node_inv :: "('t, 'a) nb_state \<Rightarrow> bool" where
  "node_inv s \<longleftrightarrow> ct_inv s \<and> (\<forall>c x. conns s c = Some x \<longrightarrow> conn_ok x)"

text \<open>
  The invariant with the table as it was at the start (\<open>Some V\<close>) and an invariant
  \<open>A\<close> of the application; with \<open>None\<close> the latter alone.
\<close>

definition node_ok :: "('a \<Rightarrow> bool) \<Rightarrow> _ option \<Rightarrow> ('t, 'a) nb_state \<Rightarrow> bool" where
  "node_ok A V s \<longleftrightarrow> (\<forall>v. V = Some v \<longrightarrow> table_view s = v \<and> node_inv s) \<and> A (app_state s)"

lemma node_ok_cong:
  assumes "node_ok A V s" "net_view s' = net_view s"
    "\<And>c. map_option conn_ids (conns s' c) = map_option conn_ids (conns s c)"
    "\<And>c x'. conns s' c = Some x' \<Longrightarrow> (\<And>x. conns s c = Some x \<Longrightarrow> conn_ok x) \<Longrightarrow> conn_ok x'"
    and "app_state s' = app_state s"
  shows "node_ok A V s'"
  using assms ct_inv_net_view [OF assms(2)] by (auto simp: node_ok_def node_inv_def table_view_def)

lemma node_ok_upd [simp]:
  "node_ok A V (s\<lparr>bufs := b\<rparr>) = node_ok A V s" "node_ok A V (s\<lparr>timers := ts\<rparr>) = node_ok A V s"
  "node_ok A V (s\<lparr>nb__time_now := n\<rparr>) = node_ok A V s"
  "node_ok A V (s\<lparr>app_state := a\<rparr>) \<longleftrightarrow> (\<forall>v. V = Some v \<longrightarrow> table_view s = v \<and> node_inv s) \<and> A a"
  "node_ok A V (s\<lparr>transport_state := t\<rparr>) = node_ok A V s"
  by (simp_all add: node_ok_def node_inv_def table_view_def net_view_def ct_inv_def)

lemma node_ok_frame: "transport_frame s s' \<Longrightarrow> node_ok A V s \<Longrightarrow> node_ok A V s'"
  by (erule node_ok_cong) (auto simp: transport_frame_def)

lemma strip_send_ids:
  assumes "strip_send y = strip_send x"
  shows "conn_ids y = conn_ids x" "conn_ok y = conn_ok x"
  using assms by (cases x; cases y; auto simp: strip_send_def conn_ids_def conn_ok_def dest: arg_cong [of _ _ length])+

lemma send_view_conns:
  assumes "send_view c s' = send_view c s"
  shows "conns s' c' = conns s c' \<or> (\<exists>x y. conns s c' = Some x \<and> conns s' c' = Some y \<and> strip_send y = strip_send x)"
  using fun_cong [OF send_viewD(3) [OF assms], of c'] by (cases "c' = c"; cases "conns s c'"; cases "conns s' c'") auto

lemma node_ok_send_view:
  assumes "send_view c s' = send_view c s" "node_ok A V s"
  shows "node_ok A V s'"
proof (rule node_ok_cong [OF assms(2) send_viewD(1) [OF assms(1)]])
  fix c'
  from send_view_conns [OF assms(1), of c'] consider "conns s' c' = conns s c'"
    | x y where "conns s c' = Some x" "conns s' c' = Some y" "strip_send y = strip_send x" by blast
  note c' = this
  show "map_option conn_ids (conns s' c') = map_option conn_ids (conns s c')"
  proof (cases rule: c')
    case 2
    with strip_send_ids(1) [OF 2(3)] show ?thesis by simp
  qed simp
  fix x' assume x': "conns s' c' = Some x'" "\<And>x. conns s c' = Some x \<Longrightarrow> conn_ok x"
  show "conn_ok x'"
  proof (cases rule: c')
    case 2
    with x' strip_send_ids(2) [OF 2(3)] show ?thesis by simp
  qed (use x' in simp)
qed (rule send_viewD(2) [OF assms(1)])

lemma node_ok_conn:
  assumes "node_ok A V s" "conns s c = Some x" "conn_ids y = conn_ids x" "conn_ok x \<Longrightarrow> conn_ok y"
  shows "node_ok A V (s\<lparr>conns := (conns s)(c \<mapsto> y)\<rparr>)"
proof (rule node_ok_cong [OF assms(1)])
  fix c' x' assume "conns (s\<lparr>conns := (conns s)(c \<mapsto> y)\<rparr>) c' = Some x'" "\<And>x. conns s c' = Some x \<Longrightarrow> conn_ok x"
  with assms(2,4) show "conn_ok x'" by (cases "c' = c") auto
qed (use assms(2,3) in \<open>auto simp: net_view_def\<close>)

lemma node_ok_conn_ok: "node_ok A (Some v) s \<Longrightarrow> conns s c = Some x \<Longrightarrow> conn_ok x"
  by (auto simp: node_ok_def node_inv_def)

subsection \<open>Partial correctness of the accesses\<close>

lemma okE_pkt_set [okE_rules]: "node_ok A V s \<Longrightarrow> (\<And>s'. node_ok A V s' \<Longrightarrow> Q s') \<Longrightarrow> okE Q (pkt_set E n p v s)"
  by (auto simp: okE_def stateE)

lemma okE_buf_updE [okE_rules]: "node_ok A V s \<Longrightarrow> (\<And>s'. node_ok A V s' \<Longrightarrow> Q s') \<Longrightarrow> okE Q (buf_updE p f s)"
  by (auto simp: okE_def stateE)

lemma okE_timers_updE [okE_rules]: "node_ok A V s \<Longrightarrow> (\<And>s'. node_ok A V s' \<Longrightarrow> Q s') \<Longrightarrow> okE Q (timers_updE f s)"
  by (auto simp: okE_def timers_updE_def resE)

lemma okE_conn_updE [okE_rules]:
  assumes "node_ok A V s" "\<And>x. okE (\<lambda>y. conn_ids y = conn_ids x \<and> (conn_ok x \<longrightarrow> conn_ok y)) (f x)"
    and "\<And>s'. node_ok A V s' \<Longrightarrow> Q s'"
  shows "okE Q (conn_updE c f s)"
  unfolding okE_def
proof (intro allI impI)
  fix s' assume "conn_updE c f s = Inr s'"
  then obtain x y where x: "conns s c = Some x" "f x = Inr y" "s' = s\<lparr>conns := (conns s)(c \<mapsto> y)\<rparr>"
    by (auto simp: stateE)
  with okED [OF assms(2) x(2)] assms(1,3) show "Q s'" by (simp add: node_ok_conn)
qed

lemma okE_conn_upd [okE_rules]:
  assumes "node_ok A V s" "\<And>x. conn_ids (f x) = conn_ids x \<and> (conn_ok x \<longrightarrow> conn_ok (f x))"
    and "\<And>s'. node_ok A V s' \<Longrightarrow> Q s'"
  shows "okE Q (conn_upd c f s)"
  unfolding conn_upd_def using assms by (intro okE_rules) auto

lemma node_ok_time: "node_ok A V s \<Longrightarrow> nb__get_time_ms_now E s = (now, s') \<Longrightarrow> node_ok A V s'"
  by (auto simp: nb__get_time_ms_now_def split: if_splits)

lemma okE_insert_data_queue [okE_rules]:
  "(\<And>q'. (dq_inv q \<longrightarrow> dq_inv q') \<Longrightarrow> Q q') \<Longrightarrow> okE Q (nb__insert_data_queue b n q)"
  by (auto simp: okE_def nb__insert_data_queue_def Let_def resE arr_set_eq_Inr dq_inv_def)

lemma okE_insert_accept_queue [okE_rules]:
  "(\<And>q'. (aq_inv q \<longrightarrow> aq_inv q') \<Longrightarrow> Q q') \<Longrightarrow> okE Q (nb__insert_accept_queue a h p q)"
  by (auto simp: okE_def nb__insert_accept_queue_def Let_def resE arr_set_eq_Inr aq_inv_def)

lemma okE_header_size [okE_rules]: "(\<And>v. Q v) \<Longrightarrow> okE Q (header_size E)"
  by (rule okE_any)

lemma okE_deliver_payload [okE_rules]:
  assumes "node_ok A V s" "\<And>s'. node_ok A V s' \<Longrightarrow> Q s'"
  shows "okE Q (deliver_payload E c p s)"
  unfolding deliver_payload_def payload_length_def
  using assms by (intro okE_rules) (auto simp: conn_ok_def conn_ids_def)

lemma okE_drain_step:
  assumes "node_ok A V s"
  shows "okE (\<lambda>r. \<forall>s'. r = Some s' \<longrightarrow> node_ok A V s') (drain_step E c i s)"
  unfolding drain_step_def hold_deliver_def Let_def
  using assms by (intro okE_rules) (auto simp: conn_ok_def conn_ids_def)

lemma inorder_drain_kept: "inorder_drain E c i s = Some r \<Longrightarrow> node_ok A V s \<longrightarrow> okE (node_ok A V) r"
proof (erule inorder_drain.raw_induct [rotated, where P = "\<lambda>E c i s r. node_ok A V s \<longrightarrow> okE (node_ok A V) r"], rule impI)
  fix drain E c i s r
  assume IH: "\<And>E c i s r. drain E c i s = Some r \<Longrightarrow> node_ok A V s \<longrightarrow> okE (node_ok A V) r"
    and r: "(case conn_get s c of Inl e \<Rightarrow> Some (Inl e)
      | Inr x \<Rightarrow> if i \<le> max_ooo_sequence x then
          (case drain_step E c i s of Inl e \<Rightarrow> Some (Inl e) | Inr None \<Rightarrow> Some (Inr s)
           | Inr (Some s') \<Rightarrow> drain E c (i + 1) s') else Some (Inr s)) = Some r"
    and V: "node_ok A V s"
  have "node_ok A V s'" if "drain_step E c i s = Inr (Some s')" for s'
    using okED [OF okE_drain_step [OF V] that] by simp
  with IH r V show "okE (node_ok A V) r"
    by (auto intro: okE_rules split: if_splits sum.splits option.splits)
qed

lemma okE_inorder_drain [okE_rules]:
  assumes "node_ok A V s" "\<And>s'. node_ok A V s' \<Longrightarrow> Q s'"
  shows "okE Q (case inorder_drain E c i s of None \<Rightarrow> Inl Diverges | Some r \<Rightarrow> r)"
  using inorder_drain_kept [of E c i s _ A V] assms by (auto simp: okE_def split: option.split)

section \<open>Contract of the application\<close>

text \<open>A callback changes the state of the application only, and keeps the invariant of the application.\<close>

locale node = transport E for E :: "('t, 'a) nb_env" +
  fixes A :: "'a \<Rightarrow> bool"
  assumes callback_frame: "run_callback E f e c s = Inr s' \<Longrightarrow> A (app_state s) \<Longrightarrow> \<exists>a. A a \<and> s' = s\<lparr>app_state := a\<rparr>"
begin

lemma okE_callback:
  assumes "node_ok A V s" "\<And>s'. node_ok A V s' \<Longrightarrow> Q s'"
  shows "okE Q (run_callback E f e c s)"
  unfolding okE_def
proof (intro allI impI)
  fix s' assume "run_callback E f e c s = Inr s'"
  from callback_frame [OF this] assms(1) obtain a where "A a" "s' = s\<lparr>app_state := a\<rparr>" unfolding node_ok_def by blast
  moreover from this assms(1) have "node_ok A V s'" by (simp only: node_ok_upd(4)) (simp add: node_ok_def)
  ultimately show "Q s'" using assms(2) by blast
qed

lemma okE_request:
  assumes "node_ok A V s" "\<And>p s'. node_ok A V s' \<Longrightarrow> Q (p, s')"
  shows "okE Q (request_send_buffer E s)"
  unfolding okE_def by (auto intro: assms node_ok_frame [OF request_frame])

lemma okE_poll:
  assumes "node_ok A V s" "\<And>r s'. node_ok A V s' \<Longrightarrow> Q (r, s')"
  shows "okE Q (poll_packet E n s)"
  unfolding okE_def by (auto intro: assms node_ok_frame [OF poll_frame])

lemma okE_send_from_headroom:
  assumes "node_ok A V s" "\<And>s'. node_ok A V s' \<Longrightarrow> Q s'"
  shows "okE Q (send_from_headroom E p s)"
  unfolding okE_def by (auto intro: assms node_ok_frame [OF send_from_headroom_frame])

lemma okE_send_after:
  assumes "node_ok A V s" "\<And>s'. node_ok A V s' \<Longrightarrow> Q s'"
  shows "okE Q (send_after E m c p buff len s)"
  unfolding okE_def by (auto intro: assms node_ok_send_view [OF send_after_view])

lemmas node_rules = okE_rules okE_callback okE_request okE_poll okE_send_from_headroom okE_send_after

lemma ingress_simple_hooks:
  assumes "node_ok A V s"
  shows "okE (\<lambda>(st, s'). node_ok A V s') (payload_hook_ingress E p s)"
    "okE (\<lambda>(st, s'). node_ok A V s') (network_hook_ingress E p s)"
    "okE (\<lambda>(st, s'). node_ok A V s') (routing_hook_ingress E p s)"
    "okE (\<lambda>(st, s'). node_ok A V s') (signaling_hook_ingress E p s)"
  unfolding payload_hook_ingress_def network_hook_ingress_def routing_hook_ingress_def signaling_hook_ingress_def Let_def
  using assms by (intro node_rules; auto simp: conn_ok_def conn_ids_def)+

lemma okE_compute_checksum:
  assumes "node_ok A V s" "\<And>k s'. node_ok A V s' \<Longrightarrow> Q (k, s')"
  shows "okE Q (compute_checksum E p s)"
  unfolding okE_def by (auto intro: assms node_ok_send_view [OF compute_checksum_view])

lemma ingress_checksum: "node_ok A V s \<Longrightarrow> okE (\<lambda>(st, s'). node_ok A V s') (checksum_hook_ingress E p s)"
  unfolding checksum_hook_ingress_def Let_def by (intro node_rules okE_compute_checksum; auto)

lemma ingress_inorder: "node_ok A V s \<Longrightarrow> okE (\<lambda>(st, s'). node_ok A V s') (inorder_hook_ingress E p s)"
  unfolding inorder_hook_ingress_def Let_def hold_deliver_def
  by (cases "inorder_strategy (cfg E)"; simp; intro node_rules; auto simp: conn_ok_def conn_ids_def)

lemma ingress_reliable:
  "node_ok A V s \<Longrightarrow> okE (\<lambda>(st, s'). node_ok A V s') (reliable_hook_ingress E (send_after E Reliable_Module) p s)"
  unfolding reliable_hook_ingress_def handle_ack_def send_ack_def Let_def
  by (intro node_rules; auto simp: conn_ok_def conn_ids_def)

lemma ingress_identifier: "node_ok A V s \<Longrightarrow> okE (\<lambda>(st, s'). node_ok A V s') (identifier_hook_ingress E p s)"
  unfolding identifier_hook_ingress_def Let_def
  by (intro node_rules okE_any [of _ "retrieve_connection _ _ _ _ _"] okE_any [of _ "retrieve_wildcard_connection _ _"];
      auto simp: conn_ok_def conn_ids_def)

lemma hook_ingress_ok: "node_ok A V s \<Longrightarrow> okE (\<lambda>(st, s'). node_ok A V s') (hook_ingress E p m s)"
  by (cases m) (simp_all add: ingress_simple_hooks ingress_checksum ingress_inorder ingress_reliable
      ingress_identifier default_hook_def okE_Inr)

end

sublocale node \<subseteq> ing: hook_contract "hook_ingress E p" "node_ok A V" for p V
  by unfold_locales (auto dest: okED [OF hook_ingress_ok])

context node
begin

lemma okE_ingress_step:
  assumes "node_ok A V s" "\<And>s'. node_ok A V s' \<Longrightarrow> Q s'"
  shows "okE Q (nb__run_ingress_step E p len s)"
  unfolding okE_def nb__run_ingress_step_def by (auto intro: assms ing.ingress_inv)

lemma okE_cycle_connection:
  assumes "node_ok A V s" "\<And>s'. node_ok A V s' \<Longrightarrow> Q s'"
  shows "okE Q (cycle_connection E c s)"
  unfolding cycle_connection_def using assms by (intro node_rules; auto simp: conn_ok_def conn_ids_def)

lemma okE_cycle_body:
  assumes "node_ok A V s"
  shows "okE (node_ok A V) (bindE (arr_get (active_connections s) i) (\<lambda>c. cycle_connection E c s))"
  using assms by (intro okE_rules okE_cycle_connection)

lemma cycle_loop_kept: "cycle_loop F i s = Some r \<Longrightarrow> F = E \<longrightarrow> node_ok A V s \<longrightarrow> okE (node_ok A V) r"
proof (erule cycle_loop.raw_induct [rotated, where P = "\<lambda>F i s r. F = E \<longrightarrow> node_ok A V s \<longrightarrow> okE (node_ok A V) r"],
    intro impI)
  fix loop F i s r
  assume IH: "\<And>F i s r. loop F i s = Some r \<Longrightarrow> F = E \<longrightarrow> node_ok A V s \<longrightarrow> okE (node_ok A V) r"
    and r: "(if i < num_conn s then
        (case bindE (arr_get (active_connections s) i) (\<lambda>c. cycle_connection F c s) of
           Inl e \<Rightarrow> Some (Inl e) | Inr s' \<Rightarrow> loop F (i + 1) s') else Some (Inr s)) = Some r"
    and F: "F = E" and V: "node_ok A V s"
  have "node_ok A V s'" if "bindE (arr_get (active_connections s) i) (\<lambda>c. cycle_connection F c s) = Inr s'" for s'
    using okED [OF okE_cycle_body [OF V] that [unfolded F]] .
  with IH r F V okE_cycle_body [OF V, of i] show "okE (node_ok A V) r"
    by (auto intro: okE_rules split: if_splits sum.splits)
qed

text \<open>The table does not change, so the loop over the connections ends.\<close>

lemma cycle_loop_returns:
  assumes "node_ok A (Some v) s"
  shows "\<exists>r. cycle_loop E i s = Some r"
  using assms
proof (induction "num_conn s - i" arbitrary: i s)
  case 0
  then show ?case by (subst cycle_loop.simps) simp
next
  case (Suc d)
  have lt: "i < num_conn s" using Suc.hyps(2) by simp
  show ?case
  proof (cases "bindE (arr_get (active_connections s) i) (\<lambda>c. cycle_connection E c s)")
    case (Inl e)
    with lt show ?thesis by (subst cycle_loop.simps) simp
  next
    case (Inr s')
    with okE_cycle_body [OF Suc.prems] have s': "node_ok A (Some v) s'" by (auto simp: okE_def)
    with Suc.prems have "num_conn s' = num_conn s" by (auto simp: node_ok_def table_view_def net_view_def)
    with Suc.hyps(2) have "d = num_conn s' - (i + 1)" by simp
    from Suc.hyps(1) [OF this s'] obtain r where "cycle_loop E (i + 1) s' = Some r" by blast
    with Inr lt show ?thesis by (subst cycle_loop.simps) simp
  qed
qed

lemma okE_cycle_connections:
  assumes "node_ok A V s" "\<And>s'. node_ok A V s' \<Longrightarrow> Q s'"
  shows "okE Q (nb__cycle_connections E s)"
proof -
  obtain now s1 where s1: "nb__get_time_ms_now E s = (now, s1)" by fastforce
  note V1 = node_ok_time [OF assms(1) s1]
  show ?thesis
    using cycle_loop_kept [of E 0 s1 _ V] V1 assms(2)
    by (auto simp: nb__cycle_connections_def s1 okE_def split: option.splits)
qed

lemma okE_fire_head:
  assumes "node_ok A V s"
  shows "okE (\<lambda>r. \<forall>s'. r = Some s' \<longrightarrow> node_ok A V s') (fire_head E t_now s)"
  unfolding fire_head_def run_timer_callback_def redelivery_cb_def Let_def
  using assms by (intro node_rules okE_any [of _ "t_get _ _"]; auto intro: node_rules split: nb__timer_callback_t.split)

lemma timers_loop_kept: "timers_loop F t_now s = Some r \<Longrightarrow> F = E \<longrightarrow> node_ok A V s \<longrightarrow> okE (node_ok A V) r"
proof (erule timers_loop.raw_induct [rotated, where P = "\<lambda>F t s r. F = E \<longrightarrow> node_ok A V s \<longrightarrow> okE (node_ok A V) r"],
    intro impI)
  fix loop F now s r
  assume IH: "\<And>F t s r. loop F t s = Some r \<Longrightarrow> F = E \<longrightarrow> node_ok A V s \<longrightarrow> okE (node_ok A V) r"
    and r: "(if nb__timers_head (timers s) \<noteq> 0 then
        (case fire_head F now s of Inl e \<Rightarrow> Some (Inl e) | Inr None \<Rightarrow> Some (Inr s)
         | Inr (Some s') \<Rightarrow> loop F now s') else Some (Inr s)) = Some r"
    and F: "F = E" and V: "node_ok A V s"
  have "node_ok A V s'" if "fire_head F now s = Inr (Some s')" for s'
    using okED [OF okE_fire_head [OF V] that [unfolded F]] by simp
  with IH r F V show "okE (node_ok A V) r"
    by (auto intro: okE_rules split: if_splits sum.splits option.splits)
qed

lemma okE_check_timers:
  assumes "node_ok A V s" "\<And>s'. node_ok A V s' \<Longrightarrow> Q s'"
  shows "okE Q (nb__check_timers E s)"
proof -
  obtain now s1 where s1: "nb__get_time_ms_now E s = (now, s1)" by fastforce
  note V1 = node_ok_time [OF assms(1) s1]
  show ?thesis
    using timers_loop_kept [of E now s1 _ V] V1 assms(2)
    by (auto simp: nb__check_timers_def s1 okE_def resE split: option.splits)
qed

lemma okE_main_loop_step:
  assumes "node_ok A V s" "\<And>s'. node_ok A V s' \<Longrightarrow> Q s'"
  shows "okE Q (nb__main_loop_step E s)"
proof -
  have tail: "okE Q (bindE (nb__cycle_connections E s') (nb__check_timers E))" if "node_ok A V s'" for s'
    using that by (intro okE_bind okE_cycle_connections [of V] okE_check_timers [of V] assms(2))
  have "node_ok A V (s\<lparr>nb__time_now := clock_ms E s\<rparr>)" using assms(1) by simp
  then show ?thesis unfolding nb__main_loop_step_def Let_def
    by (intro okE_bind [of _ _ "get_headroom _"] okE_bind [of _ _ "poll_packet _ _ _"] okE_get_headroom okE_poll [of V])
      (auto intro!: okE_bind [of _ _ "nb__run_ingress_step _ _ _ _"] okE_ingress_step [of V] tail)
qed

text \<open>The invariant of the application alone, through the operations that change the table.\<close>

lemma app_okI: "app_state s' = app_state s \<Longrightarrow> node_ok A None s \<Longrightarrow> node_ok A None s'"
  by (simp add: node_ok_def)

lemma add_connection_app: "add_connection E c a r h s = Inr s' \<Longrightarrow> app_state s' = app_state s"
  by (auto simp: add_connection_def Let_def stateE split: if_splits)

lemma delete_connection_app: "delete_connection E a r h s = Inr s' \<Longrightarrow> app_state s' = app_state s"
  by (erule okED [rotated, where Q = "\<lambda>s'. app_state s' = app_state s"])
    (auto simp: delete_connection_def Let_def intro!: okE_rules okE_any [of _ "first_match _ _"] split: option.split)

lemma conn_updE_app: "conn_updE c f s = Inr s' \<Longrightarrow> app_state s' = app_state s"
  by (auto simp: stateE)

lemma conn_upd_app: "conn_upd c f s = Inr s' \<Longrightarrow> app_state s' = app_state s"
  by (auto simp: stateE)

lemma pkt_set_app: "pkt_set E n p v s = Inr s' \<Longrightarrow> app_state s' = app_state s"
  by (auto simp: stateE)

lemma request_app: "request_send_buffer E s = Inr (p, s') \<Longrightarrow> app_state s' = app_state s"
  using request_frame by (auto simp: transport_frame_def)

lemma send_after_app: "send_after E m c p buff len s = Inr s' \<Longrightarrow> app_state s' = app_state s"
  by (rule send_viewD(2)) (rule send_after_view)

lemmas app_dests = add_connection_app delete_connection_app conn_updE_app conn_upd_app pkt_set_app request_app send_after_app

lemma hook_establish_app: "hook_establish E c h a sa m s = Inr (st, s') \<Longrightarrow> app_state s' = app_state s"
  by (cases m)
    (auto simp: inorder_hook_establish_def reliable_hook_establish_def identifier_hook_establish_def
       signaling_after_hook_establish_def routing_hook_establish_def default_hook_def resE
       dest!: app_dests split: if_splits)

lemma hook_destablish_app: "hook_destablish E c m s = Inr (st, s') \<Longrightarrow> app_state s' = app_state s"
  by (cases m) (auto simp: identifier_hook_destablish_def default_hook_def resE dest!: app_dests)

end

sublocale node \<subseteq> est: hook_contract "hook_establish E c h a sa" "node_ok A None" for c h a sa
  by unfold_locales (use hook_establish_app app_okI in blast)

sublocale node \<subseteq> dest: hook_contract "hook_destablish E c" "node_ok A None" for c
  by unfold_locales (use hook_destablish_app app_okI in blast)

context node
begin

lemma okE_establish:
  assumes "node_ok A None s" "\<And>c s'. node_ok A None s' \<Longrightarrow> Q (c, s')"
  shows "okE Q (nb__establish E h a sa cb s)"
  unfolding okE_def nb__establish_def Let_def
proof (intro allI impI)
  fix r
  let ?c = "malloc_addr E (mallocs s)"
  let ?s = "s\<lparr>mallocs := mallocs s + 1, conns := (conns s)(?c \<mapsto> malloc_conn E (mallocs s))\<rparr>"
  assume "bindE (conn_upd ?c (\<lambda>x. x\<lparr>callback_f := cb\<rparr>) ?s) (\<lambda>s.
      bindE (run_establish_path (hook_establish E ?c h a sa) (m_registered_modules E) s) (\<lambda>s. Inr (?c, s))) = Inr r"
  then obtain s1 s2 where s1: "conn_upd ?c (\<lambda>x. x\<lparr>callback_f := cb\<rparr>) ?s = Inr s1"
    "run_establish_path (hook_establish E ?c h a sa) (m_registered_modules E) s1 = Inr s2" "r = (?c, s2)"
    by (auto simp: resE)
  have "node_ok A None s1" using conn_upd_app [OF s1(1)] assms(1) by (simp add: node_ok_def)
  from est.establish_inv [OF s1(2) this] assms(2) s1(3) show "Q r" by simp
qed

lemma okE_destablish:
  assumes "node_ok A None s" "\<And>s'. node_ok A None s' \<Longrightarrow> Q s'"
  shows "okE Q (nb__destablish E c s)"
  unfolding okE_def nb__destablish_def
  using dest.destablish_inv [OF _ assms(1)] assms(2) by (auto simp: resE node_ok_def)

lemma okE_send:
  assumes "node_ok A V s" "\<And>r s'. node_ok A V s' \<Longrightarrow> Q (r, s')"
  shows "okE Q (nb__send E c buff len s)"
  unfolding okE_def nb__send_def by (auto intro: assms node_ok_send_view [OF run_send_path_view])

lemma okE_read:
  assumes "node_ok A None s" "\<And>r s'. node_ok A None s' \<Longrightarrow> Q (r, s')"
  shows "okE Q (nb__read c n s)"
  unfolding okE_def nb__read_def
  using assms by (auto simp: resE Let_def node_ok_def dest!: conn_upd_app split: if_splits)

lemma okE_accept_entry:
  assumes "node_ok A None s"
  shows "okE (node_ok A None) (accept_entry E c i p s)"
proof -
  have "okE (node_ok A None) (conn_updE c f s')" if "node_ok A None s'" for f s'
    using that conn_updE_app app_okI unfolding okE_def by blast
  then show ?thesis unfolding accept_entry_def
    using assms by (intro okE_bind okE_if okE_Inr okE_ingress_step [of None])
qed

lemma accept_loop_kept:
  "accept_loop F c a h i s = Some r \<Longrightarrow> F = E \<longrightarrow> node_ok A None s \<longrightarrow> okE (node_ok A None) r"
proof (erule accept_loop.raw_induct [rotated, where P = "\<lambda>F c a h i s r. F = E \<longrightarrow> node_ok A None s \<longrightarrow> okE (node_ok A None) r"],
    intro impI)
  fix loop F c a h i s r
  assume IH: "\<And>F c a h i s r. loop F c a h i s = Some r \<Longrightarrow> F = E \<longrightarrow> node_ok A None s \<longrightarrow> okE (node_ok A None) r"
    and r: "(case accept_peek c i s of Inl e \<Rightarrow> Some (Inl e) | Inr None \<Rightarrow> Some (Inr s)
      | Inr (Some (a', h', packet)) \<Rightarrow>
          if a' = a \<and> h' = h then
            (case accept_entry F c i packet s of Inl e \<Rightarrow> Some (Inl e) | Inr s' \<Rightarrow> loop F c a h i s')
          else loop F c a h (i + 1) s) = Some r"
    and F: "F = E" and V: "node_ok A None s"
  have "node_ok A None s'" if "accept_entry F c i p s = Inr s'" for p s'
    using okED [OF okE_accept_entry [OF V] that [unfolded F]] .
  with IH r F V okE_accept_entry [OF V] show "okE (node_ok A None) r"
    by (auto intro: okE_rules split: if_splits sum.splits option.splits prod.splits)
qed

lemma okE_accept:
  assumes "node_ok A None s" "\<And>c s'. node_ok A None s' \<Longrightarrow> Q (c, s')"
  shows "okE Q (nb__accept E c cb s)"
proof -
  have upd: "okE P (conn_upd c f s')" if "node_ok A None s'" "\<And>s''. node_ok A None s'' \<Longrightarrow> P s''" for c f s' P
    using that conn_upd_app app_okI unfolding okE_def by blast
  have loop: "okE P (case accept_loop E c a h i s' of None \<Rightarrow> Inl Diverges | Some r \<Rightarrow> r)"
    if "node_ok A None s'" "\<And>s''. node_ok A None s'' \<Longrightarrow> P s''" for a h i s' P
    using accept_loop_kept [of E c a h i s'] that by (auto simp: okE_def split: option.split)
  show ?thesis unfolding nb__accept_def
    using assms
    by (intro okE_bind okE_conn_get okE_if okE_Inr okE_any [of _ "aq_pop_last _"]; clarsimp simp del: conn_upd_ok;
        intro okE_bind okE_prod okE_if okE_Inr upd loop okE_establish okE_ingress_step [of None]; auto)
qed

end

end
