(* ===== verification/Timer_Loop.thy ===== *)
theory Timer_Loop
  imports Node_Contract
begin

text \<open>
  The loop of \<open>nb__check_timers\<close> (\<open>runtime/nb_timer.c\<close>) with the callback of
  the reliable module, which arms its timer again: over a transport that keeps its contract the loop
  ends, because a timer that has fired is due only 50 ms later.
\<close>

section \<open>One timer fires\<close>

definition due_count :: "timer_state \<Rightarrow> u64 \<Rightarrow> u64 list \<Rightarrow> nat" where
  "due_count ts now xs = length (filter (due ts now) xs)"

text \<open>
  The timers \<open>xs\<close> after a check at \<open>now\<close>: those due before it are armed for 50 ms
  later, the others are as they were.
\<close>

definition rearmed :: "u64 \<Rightarrow> timer_state \<Rightarrow> timer_state \<Rightarrow> u64 \<Rightarrow> bool" where
  "rearmed now ts ts' u \<longleftrightarrow> tm_timeout (nb__allocated_timers ts' u) =
     (if due ts now u then now + REDELIVERY_TIMEOUT_MS else tm_timeout (nb__allocated_timers ts u)) \<and>
     tm_callback (nb__allocated_timers ts' u) = tm_callback (nb__allocated_timers ts u) \<and>
     tm_argument (nb__allocated_timers ts' u) = tm_argument (nb__allocated_timers ts u)"

lemma not_due_later: "unat now + 50 < 2 ^ 64 \<Longrightarrow> \<not> now + REDELIVERY_TIMEOUT_MS \<le> now"
  by (simp add: REDELIVERY_TIMEOUT_MS_def word_le_nat_alt unat_word_ariths)

lemma due_count_mset: "mset xs = mset ys \<Longrightarrow> due_count ts now xs = due_count ts now ys"
  unfolding due_count_def by (metis mset_filter size_mset)

lemma due_count_cong: "(\<And>u. u \<in> set xs \<Longrightarrow> due ts now u = due ts' now u) \<Longrightarrow> due_count ts now xs = due_count ts' now xs"
  unfolding due_count_def by (metis filter_cong)

text \<open>A step that may have armed timer \<open>u\<close> again.\<close>

definition touched :: "u64 \<Rightarrow> timer_state \<Rightarrow> timer_state \<Rightarrow> u64 \<Rightarrow> bool" where
  "touched now ts ts' u \<longleftrightarrow>
     (tm_timeout (nb__allocated_timers ts' u) = tm_timeout (nb__allocated_timers ts u) \<or>
      due ts now u \<and> tm_timeout (nb__allocated_timers ts' u) = now + REDELIVERY_TIMEOUT_MS) \<and>
     tm_callback (nb__allocated_timers ts' u) = tm_callback (nb__allocated_timers ts u) \<and>
     tm_argument (nb__allocated_timers ts' u) = tm_argument (nb__allocated_timers ts u)"

lemma touched_trans: "touched now ts ts1 u \<Longrightarrow> touched now ts1 ts2 u \<Longrightarrow> touched now ts ts2 u"
  by (auto simp: touched_def due_def)

lemma touched_rearmed: "touched now ts ts' u \<Longrightarrow> \<not> due ts' now u \<Longrightarrow> rearmed now ts ts' u"
  by (auto simp: touched_def rearmed_def due_def)

text \<open>Taking the first timer out and arming it again, on the timers alone.\<close>

lemma rearm_head:
  assumes inv: "timer_inv ts (x # xs) fs" and due: "due ts now x" and now: "unat now + 50 < 2 ^ 64"
    and rm: "nb__remove_timer x ts = Inr ts1"
    and ins: "nb__insert_timer x (now + REDELIVERY_TIMEOUT_MS) (tm_callback (nb__allocated_timers ts1 x))
      (tm_argument (nb__allocated_timers ts1 x)) ts1 = Inr ts2"
  shows "\<exists>ys. timer_inv ts2 ys fs \<and> mset ys = mset (x # xs) \<and> due_count ts2 now ys < due_count ts now (x # xs) \<and>
    (\<forall>u. touched now ts ts2 u)"
proof -
  let ?cb = "tm_callback (nb__allocated_timers ts1 x)" and ?arg = "tm_argument (nb__allocated_timers ts1 x)"
  let ?to = "now + REDELIVERY_TIMEOUT_MS"
  from inv have x: "valid_timer x" "x \<notin> set xs" "x \<notin> set fs"
    by (auto simp: timer_inv_def dest: seg_valid)
  from remove_timer_inv [OF inv, of x] rm have ts1: "timer_inv ts1 xs fs"
    "\<And>u. u \<noteq> x \<Longrightarrow> tm_timeout (nb__allocated_timers ts1 u) = tm_timeout (nb__allocated_timers ts u) \<and>
       tm_callback (nb__allocated_timers ts1 u) = tm_callback (nb__allocated_timers ts u) \<and>
       tm_argument (nb__allocated_timers ts1 u) = tm_argument (nb__allocated_timers ts u)"
    "tm_callback (nb__allocated_timers ts1 x) = tm_callback (nb__allocated_timers ts x)"
    "tm_argument (nb__allocated_timers ts1 x) = tm_argument (nb__allocated_timers ts x)" by auto
  let ?ys = "takeWhile (due ts1 ?to) xs @ x # dropWhile (due ts1 ?to) xs"
  from insert_timer_inv [OF ts1(1) x, of ?to ?cb ?arg] ins have ts2: "timer_inv ts2 ?ys fs"
    "tm_timeout (nb__allocated_timers ts2 x) = ?to"
    "tm_callback (nb__allocated_timers ts2 x) = tm_callback (nb__allocated_timers ts1 x)"
    "tm_argument (nb__allocated_timers ts2 x) = tm_argument (nb__allocated_timers ts1 x)"
    "\<And>u. u \<noteq> x \<Longrightarrow> tm_timeout (nb__allocated_timers ts2 u) = tm_timeout (nb__allocated_timers ts1 u) \<and>
       tm_callback (nb__allocated_timers ts2 u) = tm_callback (nb__allocated_timers ts1 u) \<and>
       tm_argument (nb__allocated_timers ts2 u) = tm_argument (nb__allocated_timers ts1 u)" by auto
  have "mset (takeWhile (due ts1 ?to) xs) + mset (dropWhile (due ts1 ?to) xs) = mset xs"
    by (metis mset_append takeWhile_dropWhile_id)
  then have ms: "mset ?ys = mset (x # xs)" by simp
  have "\<not> due ts2 now x" using not_due_later [OF now] by (simp add: due_def ts2(2))
  moreover have "due_count ts2 now xs = due_count ts now xs"
    using x(2) ts1(2) ts2(5) by (intro due_count_cong) (metis due_def)
  moreover have "due_count ts2 now ?ys = due_count ts2 now (x # xs)" using ms by (rule due_count_mset)
  ultimately have "due_count ts2 now ?ys < due_count ts now (x # xs)"
    using due by (simp add: due_count_def)
  moreover have "touched now ts ts2 u" for u
    using due ts1(3,4) ts2(2-4) ts1(2) [of u] ts2(5) [of u] by (cases "u = x") (simp_all add: touched_def due_def)
  ultimately show ?thesis using ts2(1) ms by blast
qed

section \<open>The loop\<close>

context transport
begin

lemma fire_head_rearms:
  assumes inv: "timer_inv (timers s) (x # xs) fs" and due: "due (timers s) now x" and now: "unat now + 50 < 2 ^ 64"
    and r: "fire_head E now s = Inr r"
  shows "\<exists>s' ys. r = Some s' \<and> timer_inv (timers s') ys fs \<and> mset ys = mset (x # xs) \<and>
    due_count (timers s') now ys < due_count (timers s) now (x # xs) \<and> (\<forall>u. touched now (timers s) (timers s') u)"
proof -
  from inv have head: "nb__timers_head (timers s) = x" "valid_timer x" by (auto simp: timer_inv_def)
  from r due obtain ts1 s2 where s2: "nb__remove_timer x (timers s) = Inr ts1"
    "run_timer_callback E x now (s\<lparr>timers := ts1\<rparr>) = Inr s2" "r = Some s2"
    by (auto simp: fire_head_def head Let_def resE due_def timers_updE_def split: if_splits)
  let ?x = "nb__allocated_timers ts1 x"
  from s2(2) head have cb: "tm_callback ?x = Redelivery_Timer_Cb"
    "redelivery_cb E x (tm_argument ?x) now (s\<lparr>timers := ts1\<rparr>) = Inr s2"
    by (auto simp: run_timer_callback_def resE split: nb__timer_callback_t.splits)
  then obtain s3 where s3: "send_from_headroom E (tm_argument ?x) (s\<lparr>timers := ts1\<rparr>) = Inr s3"
    "nb__insert_timer x (now + REDELIVERY_TIMEOUT_MS) Redelivery_Timer_Cb (tm_argument ?x) (timers s3) = Inr (timers s2)"
    by (auto simp: redelivery_cb_def resE timers_updE_def)
  from send_from_headroom_frame [OF s3(1)] have "timers s3 = ts1" by (simp add: transport_frame_def)
  with s3(2) cb(1) have "nb__insert_timer x (now + REDELIVERY_TIMEOUT_MS) (tm_callback ?x) (tm_argument ?x) ts1 = Inr (timers s2)"
    by simp
  from rearm_head [OF inv due now s2(1) this] s2(3) show ?thesis by blast
qed

lemma timers_loop_returns:
  assumes "timer_inv (timers s) xs fs" "unat now + 50 < 2 ^ 64"
  shows "\<exists>r. timers_loop E now s = Some r \<and>
    (\<forall>s'. r = Inr s' \<longrightarrow> (\<exists>ys. timer_inv (timers s') ys fs \<and> mset ys = mset xs \<and>
       (\<forall>u \<in> set xs. \<not> due (timers s') now u \<and> touched now (timers s) (timers s') u)))"
  using assms(1)
proof (induction "due_count (timers s) now xs" arbitrary: s xs rule: less_induct)
  case less
  show ?case
  proof (cases xs)
    case Nil
    with less.prems have "nb__timers_head (timers s) = 0" by (simp add: timer_inv_def)
    with less.prems Nil show ?thesis by (subst timers_loop.simps) auto
  next
    case (Cons x xs')
    with less.prems have head: "nb__timers_head (timers s) = x" "valid_timer x" "x \<noteq> 0"
      by (auto simp: timer_inv_def)
    show ?thesis
    proof (cases "due (timers s) now x")
      case False
      then have "fire_head E now s = Inr None" using head by (simp add: fire_head_def due_def Let_def)
      moreover have "\<not> due (timers s) now u" if "u \<in> set xs" for u
        using less.prems that False Cons by (auto simp: timer_inv_def due_def)
      ultimately show ?thesis
        using head less.prems by (subst timers_loop.simps) (auto simp: touched_def)
    next
      case True
      show ?thesis
      proof (cases "fire_head E now s")
        case (Inl e)
        with head show ?thesis by (subst timers_loop.simps) simp
      next
        case (Inr r)
        from fire_head_rearms [OF less.prems [unfolded Cons] True assms(2) Inr] Cons obtain s' ys where
          s': "r = Some s'" "timer_inv (timers s') ys fs" "mset ys = mset xs"
            "due_count (timers s') now ys < due_count (timers s) now xs" "\<And>u. touched now (timers s) (timers s') u"
          by auto
        have "timers_loop E now s = timers_loop E now s'"
          using head Inr s'(1) by (subst timers_loop.simps) simp
        with less.hyps [OF s'(4,2)] s'(3) mset_eq_setD [OF s'(3)] show ?thesis
          using touched_trans [OF s'(5)] by auto metis
      qed
    qed
  qed
qed

end

section \<open>What a check of the timers does\<close>

text \<open>
  C23. On a well-formed list of timers \<open>nb__check_timers\<close> ends, over the socket transport and
  when 50 ms after the current time is no wrap-around. Unless an operation fails, the list is well
  formed afterwards and has the same timers: every timer that was due has fired and is armed for
  50 ms after the current time, every other timer is as before, and none is due.
\<close>

theorem check_timers_fires_due:
  assumes "timer_inv (timers s) xs fs" "nb__time_now s \<noteq> - 1" "unat (nb__time_now s) + 50 < 2 ^ 64"
  shows "(\<exists>r. timers_loop (ipc_env E) (nb__time_now s) s = Some r) \<and>
    (\<forall>s'. nb__check_timers (ipc_env E) s = Inr s' \<longrightarrow>
       (\<exists>ys. timer_inv (timers s') ys fs \<and> mset ys = mset xs \<and>
         (\<forall>u \<in> set xs. \<not> due (timers s') (nb__time_now s) u \<and> rearmed (nb__time_now s) (timers s) (timers s') u)))"
proof -
  from ipc.timers_loop_returns [OF assms(1,3)] obtain r where r: "timers_loop (ipc_env E) (nb__time_now s) s = Some r"
    "\<And>s'. r = Inr s' \<Longrightarrow> \<exists>ys. timer_inv (timers s') ys fs \<and> mset ys = mset xs \<and>
       (\<forall>u \<in> set xs. \<not> due (timers s') (nb__time_now s) u \<and> rearmed (nb__time_now s) (timers s) (timers s') u)"
    using touched_rearmed by metis
  have "nb__get_time_ms_now (ipc_env E) s = (nb__time_now s, s)"
    using assms(2) by (simp add: nb__get_time_ms_now_def)
  with r show ?thesis
    by (fastforce simp: nb__check_timers_def resE timer_inv_def due_def rearmed_def)
qed

end
