(* ===== verification/Posix_Sockets.thy ===== *)
theory Posix_Sockets
  imports Node_Contract
begin

text \<open>
  The socket calls for POSIX applications (\<open>runtime/posix/src/network.c\<close>): a table from
  file descriptors to connections, beside which the code keeps counters of accept events, a flag
  for established connections and the ports in use. The tables are the state of the application of
  a node; \<open>nb_posix_common_callback\<close> is its callback. Calls on descriptors that the library
  does not own go to the operating system, which is a parameter.
\<close>

section \<open>State\<close>

definition MAX_FDS :: nat where "MAX_FDS = 256"
definition FD_SETSIZE :: nat where "FD_SETSIZE = 1024"
definition NUM_PORTS :: nat where "NUM_PORTS = 100000 - 8000"

record sockaddr_in =
  sin_port :: u16
  s_addr :: u32

text \<open>\<open>port_occupied\<close> has \<open>NUM_PORTS\<close> entries; \<open>os\<close> is the state of the operating system.\<close>

record 'o posix_state =
  fd_table :: "u64 list"
  nb_fd :: "int list"
  fd_accept_counter :: "u32 list"
  fd_establish_status :: "u32 list"
  fd_src_port :: "u16 list"
  port_occupied :: "nat \<Rightarrow> int"
  os :: 'o

text \<open>The calls that are handed to the operating system, with their arguments.\<close>

datatype os_request =
    OS_connect sockaddr_in nat
  | OS_bind sockaddr_in nat
  | OS_listen int
  | OS_accept
  | OS_send "u8 list" int
  | OS_write "u8 list"
  | OS_writev "u8 list list"
  | OS_recv nat int
  | OS_read nat
  | OS_setsockopt int int
  | OS_ioctl nat
  | OS_close

text \<open>
  \<open>open_zero\<close> opens \<open>/dev/zero\<close> and gives a descriptor or \<open>-1\<close>;
  \<open>os_exec\<close> gives the result of a call and the bytes it read.
\<close>

record 'o os_iface =
  open_zero :: "'o \<Rightarrow> int \<times> 'o"
  os_exec :: "os_request \<Rightarrow> int \<Rightarrow> 'o \<Rightarrow> (int \<times> u8 list) \<times> 'o"

type_synonym ('t, 'o) posix_node = "('t, 'o posix_state) nb_state"

section \<open>Tables\<close>

definition fd_get :: "'a list \<Rightarrow> int \<Rightarrow> 'a res" where
  "fd_get xs fd = (if 0 \<le> fd then arr_get xs (nat fd) else Inl Out_Of_Bounds)"

definition fd_set :: "'a list \<Rightarrow> int \<Rightarrow> 'a \<Rightarrow> 'a list res" where
  "fd_set xs fd v = (if 0 \<le> fd then arr_set xs (nat fd) v else Inl Out_Of_Bounds)"

definition posix_upd ::
  "('o posix_state \<Rightarrow> 'o posix_state res) \<Rightarrow> ('t, 'o) posix_node \<Rightarrow> ('t, 'o) posix_node res" where
  "posix_upd f s = bindE (f (app_state s)) (\<lambda>a. Inr (s\<lparr>app_state := a\<rparr>))"

definition owned :: "int \<Rightarrow> ('t, 'o) posix_node \<Rightarrow> bool res" where
  "owned fd s = bindE (fd_get (nb_fd (app_state s)) fd) (\<lambda>v. Inr (v = 1))"

definition pass_to_os ::
  "'o os_iface \<Rightarrow> os_request \<Rightarrow> int \<Rightarrow> ('t, 'o) posix_node \<Rightarrow> ((int \<times> u8 list) \<times> ('t, 'o) posix_node) res" where
  "pass_to_os I rq fd s =
     (case os_exec I rq fd (os (app_state s)) of (r, x) \<Rightarrow> Inr (r, s\<lparr>app_state := (app_state s)\<lparr>os := x\<rparr>\<rparr>))"

definition conn_of_fd :: "int \<Rightarrow> ('t, 'o) posix_node \<Rightarrow> u64 res" where
  "conn_of_fd fd s = fd_get (fd_table (app_state s)) fd"

definition fd_from_connection :: "u64 \<Rightarrow> ('t, 'o) posix_node \<Rightarrow> int res" where
  "fd_from_connection conn s = bindE (nb__get_user_data conn s) (\<lambda>d. Inr (ull_to_int d))"

definition grab_free_fd :: "'o os_iface \<Rightarrow> ('t, 'o) posix_node \<Rightarrow> (int \<times> ('t, 'o) posix_node) res" where
  "grab_free_fd I s =
     (case open_zero I (os (app_state s)) of (fd, x) \<Rightarrow>
      let a = (app_state s)\<lparr>os := x\<rparr> in
      bindE (fd_get (nb_fd a) fd) (\<lambda>v.
      bindE (guardE (v = 0) (Assert_Fail ''nb_fd[fd] == 0'')) (\<lambda>_.
      bindE (fd_set (nb_fd a) fd 1) (\<lambda>xs.
      Inr (fd, s\<lparr>app_state := a\<lparr>nb_fd := xs\<rparr>\<rparr>)))))"

section \<open>Sockets\<close>

definition nbp_socket :: "'o os_iface \<Rightarrow> ('t, 'o) posix_node \<Rightarrow> (int \<times> ('t, 'o) posix_node) res" where
  "nbp_socket I s =
     bindE (grab_free_fd I s) (\<lambda>(fd, s).
     bindE (posix_upd (\<lambda>a.
       bindE (fd_set (fd_table a) fd 0) (\<lambda>t.
       bindE (fd_set (fd_accept_counter a) fd 0) (\<lambda>ac.
       bindE (fd_set (fd_establish_status a) fd 0) (\<lambda>es.
       bindE (fd_set (fd_src_port a) fd 0) (\<lambda>sp.
       Inr (a\<lparr>fd_table := t, fd_accept_counter := ac, fd_establish_status := es, fd_src_port := sp\<rparr>)))))) s) (\<lambda>s.
     Inr (fd, s)))"

text \<open>The callback of all connections of the library; its address is \<open>1\<close>.\<close>

definition posix_callback_ptr :: u64 where "posix_callback_ptr = 1"

definition nb_posix_common_callback :: "nat \<Rightarrow> u64 \<Rightarrow> ('t, 'o) posix_node \<Rightarrow> ('t, 'o) posix_node res" where
  "nb_posix_common_callback event c s =
     (if event = QUEUE_EVENT_ACCEPT_READY then
        bindE (fd_from_connection c s) (\<lambda>fd.
        posix_upd (\<lambda>a. bindE (fd_get (fd_accept_counter a) fd) (\<lambda>n.
          bindE (fd_set (fd_accept_counter a) fd (n + 1)) (\<lambda>xs. Inr (a\<lparr>fd_accept_counter := xs\<rparr>)))) s)
      else if event = QUEUE_EVENT_ESTABLISHED then
        bindE (fd_from_connection c s) (\<lambda>fd.
        posix_upd (\<lambda>a. bindE (fd_set (fd_establish_status a) fd 1) (\<lambda>xs. Inr (a\<lparr>fd_establish_status := xs\<rparr>))) s)
      else Inr s)"

definition posix_env :: "('t, 'o posix_state) nb_env \<Rightarrow> ('t, 'o posix_state) nb_env" where
  "posix_env E = E\<lparr>run_callback := \<lambda>f event c s.
     if f = posix_callback_ptr then nb_posix_common_callback event c s else Inl Bad_Pointer\<rparr>"

definition find_free_port :: "('t, 'o) posix_node \<Rightarrow> (u32 \<times> ('t, 'o) posix_node) res" where
  "find_free_port s =
     (let ports = port_occupied (app_state s) in
      case find (\<lambda>i. ports (i - 8000) = 0) [8080..<10000] of
        None \<Rightarrow> Inl (Assert_Fail ''0'')
      | Some i \<Rightarrow> Inr (of_nat i, s\<lparr>app_state := (app_state s)\<lparr>port_occupied := ports(i - 8000 := 1)\<rparr>\<rparr>))"

text \<open>The loop of \<open>nbp_connect\<close> until the established event has come.\<close>

partial_function (option) wait_established ::
  "('t, 'o posix_state) nb_env \<Rightarrow> int \<Rightarrow> ('t, 'o) posix_node \<Rightarrow> ('t, 'o) posix_node res option" where [code]:
  "wait_established E sockfd s =
     (case fd_get (fd_establish_status (app_state s)) sockfd of
        Inl e \<Rightarrow> Some (Inl e)
      | Inr v \<Rightarrow>
          if v \<noteq> 1 then
            (case nb__main_loop_step E s of
               Inl e \<Rightarrow> Some (Inl e)
             | Inr s' \<Rightarrow> wait_established E sockfd s')
          else Some (Inr s))"

text \<open>\<open>nb__establish\<close> for a descriptor, with the descriptor as user data of the connection.\<close>

definition establish_fd ::
  "('t, 'o posix_state) nb_env \<Rightarrow> int \<Rightarrow> u32 \<Rightarrow> u32 \<Rightarrow> u32 \<Rightarrow> ('t, 'o) posix_node \<Rightarrow> ('t, 'o) posix_node res" where
  "establish_fd E sockfd dst_addr dst_port src_port s =
     bindE (fd_get (nb_fd (app_state s)) sockfd) (\<lambda>v.
     bindE (guardE (v = 1) (Assert_Fail ''nb_fd[sockfd] == 1'')) (\<lambda>_.
     bindE (conn_of_fd sockfd s) (\<lambda>c.
     bindE (guardE (c = 0) (Assert_Fail ''fd_table[sockfd] == NULL'')) (\<lambda>_.
     bindE (nb__establish E dst_addr dst_port src_port posix_callback_ptr s) (\<lambda>(c, s).
     bindE (posix_upd (\<lambda>a. bindE (fd_set (fd_table a) sockfd c) (\<lambda>t. Inr (a\<lparr>fd_table := t\<rparr>))) s) (\<lambda>s.
     nb__set_user_data c (word_of_int sockfd) s))))))"

definition nbp_connect ::
  "'o os_iface \<Rightarrow> ('t, 'o posix_state) nb_env \<Rightarrow> int \<Rightarrow> sockaddr_in \<Rightarrow> nat \<Rightarrow> ('t, 'o) posix_node \<Rightarrow>
   (int \<times> ('t, 'o) posix_node) res" where
  "nbp_connect I E sockfd addr addrLen s =
     bindE (owned sockfd s) (\<lambda>ours.
     if \<not> ours then bindE (pass_to_os I (OS_connect addr addrLen) sockfd s) (\<lambda>((r, _), s). Inr (r, s)) else
     bindE (guardE (16 \<le> addrLen) (Assert_Fail ''addrLen >= sizeof(struct sockaddr_in)'')) (\<lambda>_.
     bindE (find_free_port s) (\<lambda>(src_port, s).
     bindE (establish_fd E sockfd (s_addr addr) (ucast (sin_port addr)) src_port s) (\<lambda>s.
     bindE (case wait_established E sockfd s of None \<Rightarrow> Inl Diverges | Some r \<Rightarrow> r) (\<lambda>s.
     Inr (0, s))))))"

definition nbp_bind ::
  "'o os_iface \<Rightarrow> ('t, 'o posix_state) nb_env \<Rightarrow> int \<Rightarrow> sockaddr_in \<Rightarrow> nat \<Rightarrow> ('t, 'o) posix_node \<Rightarrow>
   (int \<times> ('t, 'o) posix_node) res" where
  "nbp_bind I E sockfd addr addrlen s =
     bindE (owned sockfd s) (\<lambda>ours.
     if \<not> ours then bindE (pass_to_os I (OS_bind addr addrlen) sockfd s) (\<lambda>((r, _), s). Inr (r, s)) else
     bindE (guardE (16 \<le> addrlen) (Assert_Fail ''addrlen >= sizeof(struct sockaddr_in)'')) (\<lambda>_.
     bindE (establish_fd E sockfd (ucast nb__wildcard_host_identifier) 0 (ucast (sin_port addr)) s) (\<lambda>s.
     bindE (nb__main_loop_step E s) (\<lambda>s.
     Inr (0, s)))))"

definition nbp_listen ::
  "'o os_iface \<Rightarrow> int \<Rightarrow> int \<Rightarrow> ('t, 'o) posix_node \<Rightarrow> (int \<times> ('t, 'o) posix_node) res" where
  "nbp_listen I sockfd backlog s =
     bindE (owned sockfd s) (\<lambda>ours.
     if \<not> ours then bindE (pass_to_os I (OS_listen backlog) sockfd s) (\<lambda>((r, _), s). Inr (r, s)) else Inr (0, s))"

text \<open>The loop of \<open>nbp_accept\<close> until an accept event has come.\<close>

partial_function (option) wait_accept ::
  "('t, 'o posix_state) nb_env \<Rightarrow> int \<Rightarrow> ('t, 'o) posix_node \<Rightarrow> ('t, 'o) posix_node res option" where [code]:
  "wait_accept E sockfd s =
     (case fd_get (fd_accept_counter (app_state s)) sockfd of
        Inl e \<Rightarrow> Some (Inl e)
      | Inr v \<Rightarrow>
          if v = 0 then
            (case nb__main_loop_step E s of
               Inl e \<Rightarrow> Some (Inl e)
             | Inr s' \<Rightarrow> wait_accept E sockfd s')
          else Some (Inr s))"

text \<open>The result has the address of the peer when the caller asks for it.\<close>

definition nbp_accept ::
  "'o os_iface \<Rightarrow> ('t, 'o posix_state) nb_env \<Rightarrow> int \<Rightarrow> bool \<Rightarrow> ('t, 'o) posix_node \<Rightarrow>
   ((int \<times> sockaddr_in option) \<times> ('t, 'o) posix_node) res" where
  "nbp_accept I E sockfd want_addr s =
     bindE (owned sockfd s) (\<lambda>ours.
     if \<not> ours then bindE (pass_to_os I OS_accept sockfd s) (\<lambda>((r, _), s). Inr ((r, None), s)) else
     bindE (case wait_accept E sockfd s of None \<Rightarrow> Inl Diverges | Some r \<Rightarrow> r) (\<lambda>s.
     bindE (grab_free_fd I s) (\<lambda>(fd, s).
     bindE (conn_of_fd sockfd s) (\<lambda>l.
     bindE (nb__accept E l posix_callback_ptr s) (\<lambda>(c, s).
     bindE (posix_upd (\<lambda>a. bindE (fd_set (fd_table a) fd c) (\<lambda>t. Inr (a\<lparr>fd_table := t\<rparr>))) s) (\<lambda>s.
     bindE (posix_upd (\<lambda>a. bindE (fd_get (fd_accept_counter a) sockfd) (\<lambda>n.
       bindE (fd_set (fd_accept_counter a) sockfd (n - 1)) (\<lambda>xs. Inr (a\<lparr>fd_accept_counter := xs\<rparr>)))) s) (\<lambda>s.
     bindE (nb__set_user_data c (word_of_int fd) s) (\<lambda>s.
     bindE (nb__main_loop_step E s) (\<lambda>s.
     if want_addr then
       bindE (conn_of_fd fd s) (\<lambda>c.
       bindE (conn_get s c) (\<lambda>x.
       Inr ((fd, Some \<lparr>sin_port = ucast (remote_app_id x), s_addr = ucast (remote_host_id x)\<rparr>), s)))
     else Inr ((fd, None), s))))))))))"

section \<open>Data\<close>

text \<open>\<open>nb__send\<close> takes the length as an \<open>int\<close>.\<close>

definition send_fd ::
  "('t, 'o posix_state) nb_env \<Rightarrow> int \<Rightarrow> u8 list \<Rightarrow> ('t, 'o) posix_node \<Rightarrow> (int \<times> ('t, 'o) posix_node) res" where
  "send_fd E sockfd buf s =
     bindE (conn_of_fd sockfd s) (\<lambda>c. nb__send E c buf (sint (of_nat (length buf) :: u32)) s)"

definition nbp_send ::
  "'o os_iface \<Rightarrow> ('t, 'o posix_state) nb_env \<Rightarrow> int \<Rightarrow> u8 list \<Rightarrow> int \<Rightarrow> ('t, 'o) posix_node \<Rightarrow>
   (int \<times> ('t, 'o) posix_node) res" where
  "nbp_send I E sockfd buf flags s =
     bindE (owned sockfd s) (\<lambda>ours.
     if \<not> ours then bindE (pass_to_os I (OS_send buf flags) sockfd s) (\<lambda>((r, _), s). Inr (r, s))
     else send_fd E sockfd buf s)"

definition nbp_write ::
  "'o os_iface \<Rightarrow> ('t, 'o posix_state) nb_env \<Rightarrow> int \<Rightarrow> u8 list \<Rightarrow> ('t, 'o) posix_node \<Rightarrow>
   (int \<times> ('t, 'o) posix_node) res" where
  "nbp_write I E sockfd buf s =
     bindE (owned sockfd s) (\<lambda>ours.
     if \<not> ours then bindE (pass_to_os I (OS_write buf) sockfd s) (\<lambda>((r, _), s). Inr (r, s))
     else send_fd E sockfd buf s)"

text \<open>
  The loop of \<open>nbp_writev\<close>; lengths are \<open>size_t\<close>, so that a negative result of
  \<open>nb__send\<close> wraps around.
\<close>

fun writev_loop ::
  "('t, 'o posix_state) nb_env \<Rightarrow> int \<Rightarrow> u8 list list \<Rightarrow> u64 \<Rightarrow> ('t, 'o) posix_node \<Rightarrow> (u64 \<times> ('t, 'o) posix_node) res" where
  "writev_loop E sockfd [] len_sent s = Inr (len_sent, s)"
| "writev_loop E sockfd (iov # iovs) len_sent s =
     bindE (send_fd E sockfd iov s) (\<lambda>(r, s). let l = word_of_int r in
     if l \<noteq> of_nat (length iov) then Inr (len_sent + l, s)
     else writev_loop E sockfd iovs (len_sent + l) s)"

definition nbp_writev ::
  "'o os_iface \<Rightarrow> ('t, 'o posix_state) nb_env \<Rightarrow> int \<Rightarrow> u8 list list \<Rightarrow> ('t, 'o) posix_node \<Rightarrow>
   (int \<times> ('t, 'o) posix_node) res" where
  "nbp_writev I E sockfd iov s =
     bindE (owned sockfd s) (\<lambda>ours.
     if \<not> ours then bindE (pass_to_os I (OS_writev iov) sockfd s) (\<lambda>((r, _), s). Inr (r, s))
     else bindE (writev_loop E sockfd iov 0 s) (\<lambda>(n, s). Inr (sint n, s)))"

text \<open>The loop of \<open>nbp_recv\<close>; a read of no bytes means that nothing has arrived.\<close>

partial_function (option) recv_loop ::
  "('t, 'o posix_state) nb_env \<Rightarrow> u64 \<Rightarrow> int \<Rightarrow> ('t, 'o) posix_node \<Rightarrow>
   ((int \<times> u8 list) \<times> ('t, 'o) posix_node) res option" where [code]:
  "recv_loop E conn len s =
     (case nb__read conn len s of
        Inl e \<Rightarrow> Some (Inl e)
      | Inr (r, s1) \<Rightarrow>
          if fst r = 0 then
            (case nb__main_loop_step E s1 of
               Inl e \<Rightarrow> Some (Inl e)
             | Inr s' \<Rightarrow> recv_loop E conn len s')
          else Some (Inr (r, s1)))"

definition nbp_recv ::
  "'o os_iface \<Rightarrow> ('t, 'o posix_state) nb_env \<Rightarrow> int \<Rightarrow> nat \<Rightarrow> int \<Rightarrow> ('t, 'o) posix_node \<Rightarrow>
   ((int \<times> u8 list) \<times> ('t, 'o) posix_node) res" where
  "nbp_recv I E sockfd len flags s =
     bindE (owned sockfd s) (\<lambda>ours.
     if \<not> ours then pass_to_os I (OS_recv len flags) sockfd s else
     bindE (conn_of_fd sockfd s) (\<lambda>conn.
     case recv_loop E conn (sint (of_nat len :: u32)) s of None \<Rightarrow> Inl Diverges | Some r \<Rightarrow> r))"

definition nbp_read ::
  "'o os_iface \<Rightarrow> ('t, 'o posix_state) nb_env \<Rightarrow> int \<Rightarrow> nat \<Rightarrow> ('t, 'o) posix_node \<Rightarrow>
   ((int \<times> u8 list) \<times> ('t, 'o) posix_node) res" where
  "nbp_read I E sockfd len s =
     bindE (owned sockfd s) (\<lambda>ours.
     if \<not> ours then pass_to_os I (OS_read len) sockfd s else nbp_recv I E sockfd len 0 s)"

section \<open>Options, closing, waiting\<close>

definition nbp_setsockopt ::
  "'o os_iface \<Rightarrow> int \<Rightarrow> int \<Rightarrow> int \<Rightarrow> ('t, 'o) posix_node \<Rightarrow> (int \<times> ('t, 'o) posix_node) res" where
  "nbp_setsockopt I sockfd level optname s =
     bindE (owned sockfd s) (\<lambda>ours.
     if \<not> ours then bindE (pass_to_os I (OS_setsockopt level optname) sockfd s) (\<lambda>((r, _), s). Inr (r, s))
     else Inr (0, s))"

definition nbp_ioctl ::
  "'o os_iface \<Rightarrow> int \<Rightarrow> nat \<Rightarrow> ('t, 'o) posix_node \<Rightarrow> (int \<times> ('t, 'o) posix_node) res" where
  "nbp_ioctl I fd request s =
     bindE (owned fd s) (\<lambda>ours.
     if \<not> ours then bindE (pass_to_os I (OS_ioctl request) fd s) (\<lambda>((r, _), s). Inr (r, s)) else Inr (0, s))"

definition nbp_close ::
  "'o os_iface \<Rightarrow> ('t, 'o posix_state) nb_env \<Rightarrow> int \<Rightarrow> ('t, 'o) posix_node \<Rightarrow> (int \<times> ('t, 'o) posix_node) res" where
  "nbp_close I E fd s =
     bindE (owned fd s) (\<lambda>ours.
     if \<not> ours then bindE (pass_to_os I OS_close fd s) (\<lambda>((r, _), s). Inr (r, s)) else
     bindE (conn_of_fd fd s) (\<lambda>conn.
     bindE (nb__destablish E conn s) (\<lambda>s.
     bindE (posix_upd (\<lambda>a. bindE (fd_get (fd_src_port a) fd) (\<lambda>port.
       bindE (guardE (unat port < NUM_PORTS) Out_Of_Bounds) (\<lambda>_.
       bindE (fd_set (fd_table a) fd 0) (\<lambda>t.
       bindE (fd_set (nb_fd a) fd 0) (\<lambda>n.
       Inr (a\<lparr>port_occupied := (port_occupied a)(unat port := 0), fd_table := t, nb_fd := n\<rparr>)))))) s) (\<lambda>s.
     bindE (pass_to_os I OS_close fd s) (\<lambda>(_, s).
     Inr (0, s))))))"

text \<open>\<open>nb__transport_default_init\<close> and \<open>inet_addr\<close> are done before: \<open>my_ip\<close> is the result.\<close>

definition nbp_default_init :: "('t, 'o posix_state) nb_env \<Rightarrow> u32 \<Rightarrow> ('t, 'o) posix_node \<Rightarrow> (int \<times> ('t, 'o) posix_node) res" where
  "nbp_default_init E my_ip s = bindE (nb__net_init E (s\<lparr>nb__my_host_id := my_ip\<rparr>)) (\<lambda>s. Inr (0, s))"

text \<open>\<open>nbp_pause\<close> never returns: the loop gives a value only when a step fails.\<close>

partial_function (option) nbp_pause ::
  "('t, 'o posix_state) nb_env \<Rightarrow> ('t, 'o) posix_node \<Rightarrow> (int \<times> ('t, 'o) posix_node) res option" where [code]:
  "nbp_pause E s = (case nb__main_loop_step E s of Inl e \<Rightarrow> Some (Inl e) | Inr s' \<Rightarrow> nbp_pause E s')"

text \<open>The first descriptor with a pending accept event or with data.\<close>

fun select_scan :: "int list \<Rightarrow> ('t, 'o) posix_node \<Rightarrow> int option res" where
  "select_scan [] s = Inr None"
| "select_scan (fd # fds) s =
     bindE (fd_get (fd_accept_counter (app_state s)) fd) (\<lambda>n.
     if n \<noteq> 0 then Inr (Some fd) else
     bindE (conn_of_fd fd s) (\<lambda>c.
     bindE (conn_get s c) (\<lambda>x.
     if dq_current_elems (input_queue x) \<noteq> 0 then Inr (Some fd) else select_scan fds s)))"

text \<open>\<open>n\<close> is the number of steps left, \<open>1000 - count\<close>.\<close>

fun select_loop ::
  "('t, 'o posix_state) nb_env \<Rightarrow> int list \<Rightarrow> nat \<Rightarrow> ('t, 'o) posix_node \<Rightarrow> (int option \<times> ('t, 'o) posix_node) res" where
  "select_loop E fds 0 s = Inr (None, s)"
| "select_loop E fds (Suc n) s =
     bindE (nb__main_loop_step E s) (\<lambda>s.
     bindE (select_scan fds s) (\<lambda>r.
     case r of Some fd \<Rightarrow> Inr (Some fd, s) | None \<Rightarrow> select_loop E fds n s))"

text \<open>The result is the return value and the set of descriptors that are ready.\<close>

definition nbp_select ::
  "('t, 'o posix_state) nb_env \<Rightarrow> nat \<Rightarrow> nat set \<Rightarrow> ('t, 'o) posix_node \<Rightarrow> ((int \<times> nat set) \<times> ('t, 'o) posix_node) res" where
  "nbp_select E nfds readfds s =
     (let fds = filter (\<lambda>fd. fd \<in> readfds) [0..<nfds] in
      bindE (guardE (nfds \<le> FD_SETSIZE \<and> length fds \<le> MAX_FDS) Out_Of_Bounds) (\<lambda>_.
      bindE (select_loop E (map int fds) 1000 s) (\<lambda>(r, s).
      case r of Some fd \<Rightarrow> Inr ((1, {nat fd}), s) | None \<Rightarrow> Inr ((0, {}), s))))"

end
