(* ===== verification/Posix_Proofs.thy ===== *)
theory Posix_Proofs
  imports Posix_Sockets
begin

text \<open>
  What the socket calls guarantee: the tables keep their shape under every call, and what
  \<open>find_free_port\<close>, \<open>nbp_connect\<close>, \<open>nbp_select\<close>, \<open>nbp_accept\<close> and
  \<open>nbp_recv\<close> do. The library's state is the application of a node, so the calls rest on
  the \<open>node\<close> contract, interpreted here for the callback of the library.
\<close>

section \<open>Invariant of the tables\<close>

definition posix_inv :: "'o posix_state \<Rightarrow> bool" where
  "posix_inv a \<longleftrightarrow> length (fd_table a) = MAX_FDS \<and> length (nb_fd a) = MAX_FDS \<and>
     length (fd_accept_counter a) = MAX_FDS \<and> length (fd_establish_status a) = MAX_FDS \<and>
     fd_src_port a = replicate MAX_FDS 0 \<and> (\<forall>v \<in> set (nb_fd a). v = 0 \<or> v = 1)"

text \<open>The invariant, with ports that have been taken and never come back.\<close>

definition ports_kept :: "nat set \<Rightarrow> 'o posix_state \<Rightarrow> bool" where
  "ports_kept P a \<longleftrightarrow> posix_inv a \<and> (\<forall>i \<in> P. 80 \<le> i \<and> port_occupied a i \<noteq> 0)"

lemma okE_fd_get [okE_rules]: "(\<And>v. 0 \<le> fd \<Longrightarrow> nat fd < length xs \<Longrightarrow> v = xs ! nat fd \<Longrightarrow> Q v) \<Longrightarrow> okE Q (fd_get xs fd)"
  by (auto simp: okE_def fd_get_def arr_get_eq_Inr)

lemma okE_fd_set [okE_rules]: "(0 \<le> fd \<Longrightarrow> nat fd < length xs \<Longrightarrow> Q (xs[nat fd := v])) \<Longrightarrow> okE Q (fd_set xs fd v)"
  by (auto simp: okE_def fd_set_def arr_set_eq_Inr)

lemma ball_set_update: "\<forall>v \<in> set xs. P v \<Longrightarrow> P w \<Longrightarrow> \<forall>v \<in> set (xs[i := w]). P v"
  using set_update_subset_insert [of xs i w] by auto

lemma replicate_update [simp]: "(replicate n x)[i := x] = replicate n x"
  by (metis length_replicate linorder_not_less list_update_beyond list_update_id nth_replicate)

lemma okE_posix_upd:
  assumes "node_ok (ports_kept P) None s" "\<And>a. ports_kept P a \<Longrightarrow> okE (ports_kept P) (f a)"
    and "\<And>s'. node_ok (ports_kept P) None s' \<Longrightarrow> Q s'"
  shows "okE Q (posix_upd f s)"
  using assms by (auto simp: okE_def posix_upd_def resE node_ok_def)

lemmas ports_kept_defs = ports_kept_def posix_inv_def

lemma posix_callback_frame:
  assumes "nb_posix_common_callback e c s = Inr s'"
  shows "s' = s\<lparr>app_state := app_state s'\<rparr>"
  using assms by (auto simp: nb_posix_common_callback_def posix_upd_def resE split: if_splits)

lemma posix_callback_inv:
  assumes "nb_posix_common_callback e c s = Inr s'" "ports_kept P (app_state s)"
  shows "ports_kept P (app_state s')"
  using assms
  by (auto simp: nb_posix_common_callback_def fd_from_connection_def posix_upd_def resE fd_set_def fd_get_def
      arr_set_eq_Inr ports_kept_def posix_inv_def split: if_splits)

interpretation posix: node "posix_env (ipc_env E)" "ports_kept P" for E P
proof -
  have same: "request_send_buffer (posix_env (ipc_env E)) = request_send_buffer (ipc_env E)"
    "send_packet (posix_env (ipc_env E)) = send_packet (ipc_env E)"
    "poll_packet (posix_env (ipc_env E)) = poll_packet (ipc_env E)" by (simp_all add: posix_env_def)
  show "node (posix_env (ipc_env E)) (ports_kept P)"
  proof unfold_locales
    fix f e c s s'
    assume "run_callback (posix_env (ipc_env E)) f e c s = Inr s'" "ports_kept P (app_state s)"
    then show "\<exists>a. ports_kept P a \<and> s' = s\<lparr>app_state := a\<rparr>"
      by (auto simp: posix_env_def intro!: exI [of _ "app_state s'"] intro: posix_callback_inv posix_callback_frame split: if_splits)
  qed (auto simp: same intro: ipc.request_frame ipc.send_frame ipc.poll_frame)
qed

section \<open>Every call keeps the invariant\<close>

lemma okE_pass_to_os:
  assumes "node_ok (ports_kept P) None s" "\<And>r b s'. node_ok (ports_kept P) None s' \<Longrightarrow> Q ((r, b), s')"
  shows "okE Q (pass_to_os I rq fd s)"
  using assms by (auto simp: okE_def pass_to_os_def node_ok_def ports_kept_def posix_inv_def split: prod.splits)

lemma okE_owned [okE_rules]: "(\<And>b. Q b) \<Longrightarrow> okE Q (owned fd s)"
  by (rule okE_any)

lemma okE_conn_of_fd [okE_rules]: "(\<And>c. Q c) \<Longrightarrow> okE Q (conn_of_fd fd s)"
  by (rule okE_any)

lemma okE_grab_free_fd:
  assumes "node_ok (ports_kept P) None s" "\<And>fd s'. node_ok (ports_kept P) None s' \<Longrightarrow> Q (fd, s')"
  shows "okE Q (grab_free_fd I s)"
  unfolding grab_free_fd_def Let_def
proof (intro okE_rules assms(2))
  fix fd x
  have "\<forall>v \<in> set (nb_fd (app_state s)). v = 0 \<or> v = 1"
    using assms(1) by (simp add: node_ok_def ports_kept_defs)
  then have "\<forall>v \<in> set ((nb_fd (app_state s))[nat fd := 1]). v = 0 \<or> v = 1" by (rule ball_set_update) simp
  with assms(1) show "node_ok (ports_kept P) None
      (s\<lparr>app_state := app_state s\<lparr>os := x, nb_fd := (nb_fd (app_state s\<lparr>os := x\<rparr>))[nat fd := 1]\<rparr>\<rparr>)"
    by (simp add: node_ok_def ports_kept_defs)
qed

lemma find_SomeD: "find P xs = Some x \<Longrightarrow> x \<in> set xs \<and> P x"
  by (auto simp: find_Some_iff)

lemma find_free_port_ports:
  assumes "find_free_port s = Inr (p, s')"
  shows "\<exists>i. 8080 \<le> i \<and> i < 10000 \<and> p = of_nat i \<and> port_occupied (app_state s) (i - 8000) = 0 \<and>
    s' = s\<lparr>app_state := (app_state s)\<lparr>port_occupied := (port_occupied (app_state s))(i - 8000 := 1)\<rparr>\<rparr>"
  using assms by (auto simp: find_free_port_def Let_def simp del: upt_rec_numeral split: option.splits dest!: find_SomeD)

lemma okE_find_free_port:
  assumes "node_ok (ports_kept P) None s" "\<And>p s'. node_ok (ports_kept P) None s' \<Longrightarrow> Q (p, s')"
  shows "okE Q (find_free_port s)"
  unfolding okE_def using assms
  by (auto dest!: find_free_port_ports simp: node_ok_def ports_kept_def posix_inv_def)

lemma okE_set_user_data:
  assumes "node_ok A None s" "\<And>s'. node_ok A None s' \<Longrightarrow> Q s'"
  shows "okE Q (nb__set_user_data c d s)"
  using assms by (auto simp: okE_def nb__set_user_data_def node_ok_def stateE)

lemmas posix_rules = okE_rules okE_posix_upd okE_pass_to_os okE_grab_free_fd okE_find_free_port okE_set_user_data
  posix.okE_main_loop_step [where V = None] posix.okE_establish posix.okE_destablish posix.okE_accept
  posix.okE_send [where V = None] posix.okE_read

lemma okE_pair: "okE Q (f a b) \<Longrightarrow> okE Q (case (a, b) of (x, y) \<Rightarrow> f x y)"
  by simp

lemma okE_pair2: "okE Q (f a b c) \<Longrightarrow> okE Q ((case (a, b) of (x, y) \<Rightarrow> f x y) c)"
  by simp

lemma okE_nbp_socket:
  assumes "node_ok (ports_kept P) None s"
  shows "okE (\<lambda>(r, s'). node_ok (ports_kept P) None s') (nbp_socket I s)"
  unfolding nbp_socket_def
  by (insert assms) (assumption | rule okE_pair posix_rules | simp add: ports_kept_defs)+

lemma okE_establish_fd:
  assumes "node_ok (ports_kept P) None s" "\<And>s'. node_ok (ports_kept P) None s' \<Longrightarrow> Q s'"
  shows "okE Q (establish_fd (posix_env (ipc_env E)) fd h a sa s)"
  unfolding establish_fd_def
  by (insert assms(1)) (assumption | rule okE_pair posix_rules assms(2) | simp add: ports_kept_defs)+


text \<open>The waiting loops: the invariant holds whenever they return.\<close>

lemma main_loop_step_ok:
  assumes "node_ok (ports_kept P) None s"
  shows "okE (node_ok (ports_kept P) None) (nb__main_loop_step (posix_env (ipc_env E)) s)"
  using assms by (rule posix.okE_main_loop_step)

lemmas main_loop_step_kept = okED [OF main_loop_step_ok]

lemma wait_established_kept:
  assumes "wait_established F fd s = Some r" "F = posix_env (ipc_env E)" "node_ok (ports_kept P) None s"
  shows "okE (node_ok (ports_kept P) None) r"
  using assms
proof (induction rule: wait_established.raw_induct [rotated, consumes 1, case_names step])
  case (step loop F fd s r)
  then show ?case
    by (auto intro: okE_rules dest: main_loop_step_kept intro!: main_loop_step_ok split: if_splits sum.splits)
qed

lemma wait_accept_kept:
  assumes "wait_accept F fd s = Some r" "F = posix_env (ipc_env E)" "node_ok (ports_kept P) None s"
  shows "okE (node_ok (ports_kept P) None) r"
  using assms
proof (induction rule: wait_accept.raw_induct [rotated, consumes 1, case_names step])
  case (step loop F fd s r)
  then show ?case
    by (auto intro: okE_rules dest: main_loop_step_kept intro!: main_loop_step_ok split: if_splits sum.splits)
qed

lemma recv_loop_kept:
  assumes "recv_loop F c len s = Some r" "F = posix_env (ipc_env E)" "node_ok (ports_kept P) None s"
  shows "okE (\<lambda>(x, s'). node_ok (ports_kept P) None s') r"
  using assms
proof (induction rule: recv_loop.raw_induct [rotated, consumes 1, case_names step])
  case (step loop F c len s r)
  show ?case
  proof (cases "nb__read c len s")
    case (Inl e)
    with step.hyps show ?thesis by (auto intro: okE_rules)
  next
    case (Inr y)
    obtain x n s1 where y: "y = ((n, x), s1)" by (metis prod.exhaust)
    have s1: "node_ok (ports_kept P) None s1"
      using okED [OF posix.okE_read [where Q = "\<lambda>(x, s'). node_ok (ports_kept P) None s'", OF step.prems(2)] Inr [unfolded y]]
      by simp
    show ?thesis
    proof (cases "n = 0")
      case True
      with Inr y step.hyps step.prems(1) s1 show ?thesis
        by (auto intro: okE_rules step.IH dest: main_loop_step_kept split: sum.splits)
    next
      case False
      with Inr y step.hyps have "r = Inr ((n, x), s1)" by simp
      with s1 show ?thesis by (simp add: okE_def)
    qed
  qed
qed

lemma okE_loop:
  assumes "\<And>r. l = Some r \<Longrightarrow> okE P r" "\<And>x. P x \<Longrightarrow> Q x"
  shows "okE Q (case l of None \<Rightarrow> Inl e | Some r \<Rightarrow> r)"
  using assms by (auto simp: okE_def split: option.split)


lemma okE_wait_established:
  assumes "node_ok (ports_kept P) None s" "\<And>s'. node_ok (ports_kept P) None s' \<Longrightarrow> Q s'"
  shows "okE Q (case wait_established (posix_env (ipc_env E)) fd s of None \<Rightarrow> Inl Diverges | Some r \<Rightarrow> r)"
  by (rule okE_loop [OF wait_established_kept assms(2)]) (use assms(1) in simp_all)

lemma okE_wait_accept:
  assumes "node_ok (ports_kept P) None s" "\<And>s'. node_ok (ports_kept P) None s' \<Longrightarrow> Q s'"
  shows "okE Q (case wait_accept (posix_env (ipc_env E)) fd s of None \<Rightarrow> Inl Diverges | Some r \<Rightarrow> r)"
  by (rule okE_loop [OF wait_accept_kept assms(2)]) (use assms(1) in simp_all)

lemma okE_recv_loop:
  assumes "node_ok (ports_kept P) None s" "\<And>r s'. node_ok (ports_kept P) None s' \<Longrightarrow> Q (r, s')"
  shows "okE Q (case recv_loop (posix_env (ipc_env E)) c len s of None \<Rightarrow> Inl Diverges | Some r \<Rightarrow> r)"
  by (rule okE_loop [OF recv_loop_kept]) (use assms in auto)

lemma okE_send_fd:
  assumes "node_ok (ports_kept P) None s" "\<And>r s'. node_ok (ports_kept P) None s' \<Longrightarrow> Q (r, s')"
  shows "okE Q (send_fd (posix_env (ipc_env E)) fd buf s)"
  unfolding send_fd_def by (insert assms(1)) (assumption | rule posix_rules assms(2))+

lemma okE_writev_loop:
  assumes "node_ok (ports_kept P) None s" "\<And>r s'. node_ok (ports_kept P) None s' \<Longrightarrow> Q (r, s')"
  shows "okE Q (writev_loop (posix_env (ipc_env E)) fd iovs n s)"
  using assms(1)
  by (induction iovs arbitrary: n s) (auto simp: Let_def intro!: okE_bind okE_Inr okE_send_fd assms(2))

lemma okE_select_loop:
  assumes "node_ok (ports_kept P) None s" "\<And>r s'. node_ok (ports_kept P) None s' \<Longrightarrow> Q (r, s')"
  shows "okE Q (select_loop (posix_env (ipc_env E)) fds n s)"
  using assms(1)
proof (induction n arbitrary: s)
  case (Suc n)
  have "okE (\<lambda>s'. okE (\<lambda>r. okE Q (case r of Some fd \<Rightarrow> Inr (Some fd, s')
        | None \<Rightarrow> select_loop (posix_env (ipc_env E)) fds n s')) (select_scan fds s'))
      (nb__main_loop_step (posix_env (ipc_env E)) s)"
    by (rule posix.okE_main_loop_step [OF Suc.prems], rule okE_any)
      (auto intro: okE_Inr assms(2) Suc.IH split: option.split)
  then show ?case unfolding select_loop.simps by (intro okE_bind) (erule okE_weaken, erule okE_bind)
qed (auto intro: okE_Inr assms(2))

lemmas call_rules = posix_rules okE_establish_fd okE_wait_established okE_wait_accept okE_recv_loop okE_send_fd
  okE_writev_loop okE_select_loop

abbreviation posix_keeps :: "nat set \<Rightarrow> ('r \<times> (ipc_state, 'o) posix_node) res \<Rightarrow> bool" where
  "posix_keeps P \<equiv> okE (\<lambda>(r, s'). node_ok (ports_kept P) None s')"

lemma okE_nbp_connect:
  assumes "node_ok (ports_kept P) None s"
  shows "okE (\<lambda>(r, s'). node_ok (ports_kept P) None s') (nbp_connect I (posix_env (ipc_env E)) fd addr len s)"
  unfolding nbp_connect_def
  by (insert assms) (assumption | rule okE_pair okE_pair2 call_rules | simp add: ports_kept_defs)+

lemma okE_nbp_bind:
  assumes "node_ok (ports_kept P) None s"
  shows "okE (\<lambda>(r, s'). node_ok (ports_kept P) None s') (nbp_bind I (posix_env (ipc_env E)) fd addr len s)"
  unfolding nbp_bind_def
  by (insert assms) (assumption | rule okE_pair okE_pair2 call_rules | simp add: ports_kept_defs)+

lemma okE_nbp_listen:
  assumes "node_ok (ports_kept P) None s"
  shows "okE (\<lambda>(r, s'). node_ok (ports_kept P) None s') (nbp_listen I fd b s)"
  unfolding nbp_listen_def
  by (insert assms) (assumption | rule okE_pair okE_pair2 call_rules | simp add: ports_kept_defs)+

lemma okE_nbp_accept:
  assumes "node_ok (ports_kept P) None s"
  shows "okE (\<lambda>(r, s'). node_ok (ports_kept P) None s') (nbp_accept I (posix_env (ipc_env E)) fd w s)"
  unfolding nbp_accept_def
  by (insert assms) (assumption | rule okE_pair okE_pair2 call_rules | simp add: ports_kept_defs)+

lemma okE_nbp_send:
  assumes "node_ok (ports_kept P) None s"
  shows "okE (\<lambda>(r, s'). node_ok (ports_kept P) None s') (nbp_send I (posix_env (ipc_env E)) fd buf fl s)"
  unfolding nbp_send_def
  by (insert assms) (assumption | rule okE_pair okE_pair2 call_rules | simp add: ports_kept_defs)+

lemma okE_nbp_write:
  assumes "node_ok (ports_kept P) None s"
  shows "okE (\<lambda>(r, s'). node_ok (ports_kept P) None s') (nbp_write I (posix_env (ipc_env E)) fd buf s)"
  unfolding nbp_write_def
  by (insert assms) (assumption | rule okE_pair okE_pair2 call_rules | simp add: ports_kept_defs)+

lemma okE_nbp_writev:
  assumes "node_ok (ports_kept P) None s"
  shows "okE (\<lambda>(r, s'). node_ok (ports_kept P) None s') (nbp_writev I (posix_env (ipc_env E)) fd iov s)"
  unfolding nbp_writev_def
  by (insert assms) (assumption | rule okE_pair okE_pair2 call_rules | simp add: ports_kept_defs)+

lemma okE_nbp_recv:
  assumes "node_ok (ports_kept P) None s"
  shows "okE (\<lambda>(r, s'). node_ok (ports_kept P) None s') (nbp_recv I (posix_env (ipc_env E)) fd len fl s)"
  unfolding nbp_recv_def
  by (insert assms) (assumption | rule okE_pair okE_pair2 call_rules | simp add: ports_kept_defs)+

lemma okE_nbp_setsockopt:
  assumes "node_ok (ports_kept P) None s"
  shows "okE (\<lambda>(r, s'). node_ok (ports_kept P) None s') (nbp_setsockopt I fd lv op s)"
  unfolding nbp_setsockopt_def
  by (insert assms) (assumption | rule okE_pair okE_pair2 call_rules | simp add: ports_kept_defs)+

lemma okE_nbp_ioctl:
  assumes "node_ok (ports_kept P) None s"
  shows "okE (\<lambda>(r, s'). node_ok (ports_kept P) None s') (nbp_ioctl I fd rq s)"
  unfolding nbp_ioctl_def
  by (insert assms) (assumption | rule okE_pair okE_pair2 call_rules | simp add: ports_kept_defs)+



lemma okE_nbp_read:
  assumes "node_ok (ports_kept P) None s"
  shows "posix_keeps P (nbp_read I (posix_env (ipc_env E)) fd len s)"
  unfolding nbp_read_def
  by (insert assms) (assumption | rule okE_pair okE_pair2 okE_nbp_recv call_rules | simp)+

lemma okE_nbp_select:
  assumes "node_ok (ports_kept P) None s"
  shows "posix_keeps P (nbp_select (posix_env (ipc_env E)) n R s)"
  unfolding nbp_select_def Let_def
  by (insert assms) (assumption | rule okE_pair call_rules | simp add: okE_def split: option.split)+

text \<open>\<open>fd_src_port\<close> is all zero, so closing frees entry 0, which stands for no port of \<open>find_free_port\<close>.\<close>

lemma close_update_kept:
  assumes "ports_kept P a"
  shows "okE (ports_kept P) (bindE (fd_get (fd_src_port a) fd) (\<lambda>port.
       bindE (guardE (unat port < NUM_PORTS) Out_Of_Bounds) (\<lambda>_.
       bindE (fd_set (fd_table a) fd 0) (\<lambda>t.
       bindE (fd_set (nb_fd a) fd 0) (\<lambda>n.
       Inr (a\<lparr>port_occupied := (port_occupied a)(unat port := 0), fd_table := t, nb_fd := n\<rparr>))))))"
proof (intro okE_rules)
  fix port
  assume "nat fd < length (fd_src_port a)" and port: "port = fd_src_port a ! nat fd"
  then have "port = 0" using assms by (simp add: ports_kept_defs)
  moreover have "\<forall>v \<in> set ((nb_fd a)[nat fd := 0]). v = 0 \<or> v = 1"
    by (rule ball_set_update) (use assms in \<open>auto simp: ports_kept_defs\<close>)
  ultimately show "ports_kept P (a\<lparr>port_occupied := (port_occupied a)(unat port := 0),
      fd_table := (fd_table a)[nat fd := 0], nb_fd := (nb_fd a)[nat fd := 0]\<rparr>)"
    using assms by (auto simp: ports_kept_defs)
qed

lemma okE_nbp_close:
  assumes "node_ok (ports_kept P) None s"
  shows "posix_keeps P (nbp_close I (posix_env (ipc_env E)) fd s)"
  unfolding nbp_close_def
  by (insert assms) (assumption | rule okE_pair okE_pair2 close_update_kept call_rules | simp)+

lemma net_init_hooks_app:
  "run_net_init_hooks hook_net_init ms s = Inr s' \<Longrightarrow> app_state s' = app_state s"
proof (induction ms arbitrary: s)
  case (Cons m ms)
  then show ?case
    by (cases m) (auto simp: resE Let_def identifier_hook_net_init_def default_net_init_def)
qed simp

lemma okE_nbp_default_init:
  assumes "node_ok (ports_kept P) None s"
  shows "posix_keeps P (nbp_default_init (posix_env (ipc_env E)) ip s)"
  using assms
  by (auto simp: okE_def nbp_default_init_def nb__net_init_def run_net_init_path_def node_ok_def stateE Let_def
      nb__get_time_ms_now_def timers_updE_def resE dest!: net_init_hooks_app split: prod.splits)

lemma nbp_pause_never_returns:
  assumes "nbp_pause E s = Some r"
  shows "\<exists>e. r = Inl e"
  using assms
  by (induction rule: nbp_pause.raw_induct [rotated, consumes 1, case_names step]) (auto split: sum.splits)


lemmas call_kept = okE_nbp_socket okE_nbp_connect okE_nbp_bind okE_nbp_listen okE_nbp_accept okE_nbp_send okE_nbp_write
  okE_nbp_writev okE_nbp_recv okE_nbp_read okE_nbp_setsockopt okE_nbp_ioctl okE_nbp_close okE_nbp_default_init okE_nbp_select

section \<open>Runs of an application\<close>

text \<open>A step is a call that returns; \<open>nbp_pause\<close> never does.\<close>

inductive posix_step ::
  "'o os_iface \<Rightarrow> (ipc_state, 'o posix_state) nb_env \<Rightarrow> (ipc_state, 'o) posix_node \<Rightarrow> (ipc_state, 'o) posix_node \<Rightarrow> bool"
  for I E where
  "nbp_default_init E ip s = Inr (r, s') \<Longrightarrow> posix_step I E s s'"
| "nbp_socket I s = Inr (fd, s') \<Longrightarrow> posix_step I E s s'"
| "nbp_connect I E fd addr len s = Inr (r, s') \<Longrightarrow> posix_step I E s s'"
| "nbp_bind I E fd addr len s = Inr (r, s') \<Longrightarrow> posix_step I E s s'"
| "nbp_listen I fd backlog s = Inr (r, s') \<Longrightarrow> posix_step I E s s'"
| "nbp_accept I E fd want s = Inr (ra, s') \<Longrightarrow> posix_step I E s s'"
| "nbp_send I E fd buf flags s = Inr (r, s') \<Longrightarrow> posix_step I E s s'"
| "nbp_write I E fd buf s = Inr (r, s') \<Longrightarrow> posix_step I E s s'"
| "nbp_writev I E fd iov s = Inr (r, s') \<Longrightarrow> posix_step I E s s'"
| "nbp_recv I E fd n flags s = Inr (rb, s') \<Longrightarrow> posix_step I E s s'"
| "nbp_read I E fd n s = Inr (rb, s') \<Longrightarrow> posix_step I E s s'"
| "nbp_setsockopt I fd level opt s = Inr (r, s') \<Longrightarrow> posix_step I E s s'"
| "nbp_ioctl I fd rq s = Inr (r, s') \<Longrightarrow> posix_step I E s s'"
| "nbp_close I E fd s = Inr (r, s') \<Longrightarrow> posix_step I E s s'"
| "nbp_select E nfds fds s = Inr (rs, s') \<Longrightarrow> posix_step I E s s'"

lemma posix_step_kept:
  assumes "posix_step I (posix_env (ipc_env E)) s s'" "ports_kept P (app_state s)"
  shows "ports_kept P (app_state s')"
proof -
  have s: "node_ok (ports_kept P) None s" using assms(2) by (simp add: node_ok_def)
  have "node_ok (ports_kept P) None s'"
    using assms(1) by cases (auto dest: call_kept [OF s, THEN okED])
  then show ?thesis by (simp add: node_ok_def)
qed

lemma posix_steps_kept:
  assumes "(posix_step I (posix_env (ipc_env E)))\<^sup>*\<^sup>* s s'" "ports_kept P (app_state s)"
  shows "ports_kept P (app_state s')"
  using assms by induction (auto dest: posix_step_kept)

text \<open>
  C25. The source ports that \<open>nbp_connect\<close> takes are never given back: whatever calls an
  application makes, \<open>nbp_close\<close> included, the tables stay well formed and a taken port
  stays taken.
\<close>

theorem ports_stay_occupied:
  assumes "(posix_step I (posix_env (ipc_env E)))\<^sup>*\<^sup>* s s'" "posix_inv (app_state s)"
    and "80 \<le> i" "port_occupied (app_state s) i \<noteq> 0"
  shows "posix_inv (app_state s') \<and> port_occupied (app_state s') i \<noteq> 0"
  using posix_steps_kept [OF assms(1), of "{i}"] assms(2-4) by (simp add: ports_kept_def)

lemma find_free_port_exhausted:
  assumes "\<forall>i \<in> {80..<2000}. port_occupied (app_state s) i \<noteq> 0"
  shows "find_free_port s = Inl (Assert_Fail ''0'')"
proof -
  have "port_occupied (app_state s) (i - 8000) \<noteq> 0" if "8080 \<le> i" "i < 10000" for i
    using bspec [OF assms, of "i - 8000"] that by (simp add: less_diff_conv2)
  then have "find (\<lambda>i. port_occupied (app_state s) (i - 8000) = 0) [8080..<10000] = None"
    by (auto simp: find_None_iff simp del: upt_rec_numeral)
  then show ?thesis by (simp add: find_free_port_def Let_def del: upt_rec_numeral)
qed

text \<open>
  Once the 1920 ports from 8080 to 9999 have been taken, every later call of
  \<open>nbp_connect\<close> on a descriptor of the library aborts, even if all connections have been
  closed.
\<close>

theorem connect_ports_exhausted:
  assumes "(posix_step I (posix_env (ipc_env E)))\<^sup>*\<^sup>* s s'" "posix_inv (app_state s)"
    and "\<forall>i \<in> {80..<2000}. port_occupied (app_state s) i \<noteq> 0"
    and "owned fd s' = Inr True" "16 \<le> len"
  shows "nbp_connect I (posix_env (ipc_env E)) fd addr len s' = Inl (Assert_Fail ''0'')"
proof -
  have "ports_kept {80..<2000} (app_state s')"
    using posix_steps_kept [OF assms(1), of "{80..<2000}"] assms(2,3) by (simp add: ports_kept_def)
  then have "find_free_port s' = Inl (Assert_Fail ''0'')"
    by (intro find_free_port_exhausted) (simp add: ports_kept_def)
  with assms(4,5) show ?thesis by (simp add: nbp_connect_def guardE_def)
qed

text \<open>
  \<open>find_free_port\<close> gives the smallest free port of 8080 to 9999, marks exactly that port
  as taken, and aborts when there is none.
\<close>

theorem find_free_port_smallest:
  "(\<forall>p s'. find_free_port s = Inr (p, s') \<longrightarrow> (\<exists>i. p = of_nat i \<and> 8080 \<le> i \<and> i < 10000 \<and>
      port_occupied (app_state s) (i - 8000) = 0 \<and>
      (\<forall>j. 8080 \<le> j \<and> j < i \<longrightarrow> port_occupied (app_state s) (j - 8000) \<noteq> 0) \<and>
      s' = s\<lparr>app_state := (app_state s)\<lparr>port_occupied := (port_occupied (app_state s))(i - 8000 := 1)\<rparr>\<rparr>)) \<and>
   ((\<exists>i. 8080 \<le> i \<and> i < 10000 \<and> port_occupied (app_state s) (i - 8000) = 0) \<longrightarrow> (\<exists>r. find_free_port s = Inr r))"
proof (intro conjI allI impI)
  fix p s'
  assume *: "find_free_port s = Inr (p, s')"
  then obtain i where i: "find (\<lambda>i. port_occupied (app_state s) (i - 8000) = 0) [8080..<10000] = Some i"
      "p = of_nat i" "s' = s\<lparr>app_state := (app_state s)\<lparr>port_occupied := (port_occupied (app_state s))(i - 8000 := 1)\<rparr>\<rparr>"
    by (auto simp: find_free_port_def Let_def simp del: upt_rec_numeral split: option.splits)
  from i(1) obtain k where k: "k < 1920" "i = 8080 + k" "port_occupied (app_state s) (i - 8000) = 0"
      "\<forall>j < k. port_occupied (app_state s) (8080 + j - 8000) \<noteq> 0"
    by (auto simp: find_Some_iff simp del: upt_rec_numeral)
  have "port_occupied (app_state s) (j - 8000) \<noteq> 0" if "8080 \<le> j" "j < i" for j
    using k(4) [rule_format, of "j - 8080"] k(2) that by simp
  with i k show "\<exists>i. p = of_nat i \<and> 8080 \<le> i \<and> i < 10000 \<and> port_occupied (app_state s) (i - 8000) = 0 \<and>
      (\<forall>j. 8080 \<le> j \<and> j < i \<longrightarrow> port_occupied (app_state s) (j - 8000) \<noteq> 0) \<and>
      s' = s\<lparr>app_state := (app_state s)\<lparr>port_occupied := (port_occupied (app_state s))(i - 8000 := 1)\<rparr>\<rparr>"
    by (intro exI [of _ i]) simp
next
  assume "\<exists>i. 8080 \<le> i \<and> i < 10000 \<and> port_occupied (app_state s) (i - 8000) = 0"
  then have "find (\<lambda>i. port_occupied (app_state s) (i - 8000) = 0) [8080..<10000] \<noteq> None"
    by (auto simp: find_None_iff simp del: upt_rec_numeral)
  then show "\<exists>r. find_free_port s = Inr r"
    by (auto simp: find_free_port_def Let_def simp del: upt_rec_numeral)
qed


section \<open>Waiting for events\<close>

text \<open>A descriptor is ready when an accept event is pending or its connection has data.\<close>

definition fd_ready :: "nat \<Rightarrow> ('t, 'o) posix_node \<Rightarrow> bool" where
  "fd_ready fd s \<longleftrightarrow> fd < MAX_FDS \<and>
     (fd_accept_counter (app_state s) ! fd \<noteq> 0 \<or>
      (\<exists>x. conns s (fd_table (app_state s) ! fd) = Some x \<and> dq_current_elems (input_queue x) \<noteq> 0))"

lemma select_scan_Some:
  assumes "select_scan (map int fds) s = Inr (Some fd)" "posix_inv (app_state s)"
  shows "\<exists>n. fd = int n \<and> n \<in> set fds \<and> fd_ready n s"
  using assms
  by (induction fds)
    (auto simp: resE fd_get_def conn_of_fd_def arr_get_eq_Inr stateE fd_ready_def posix_inv_def split: if_splits)

lemma select_scan_None:
  assumes "select_scan (map int fds) s = Inr None" "posix_inv (app_state s)" "fd \<in> set fds"
  shows "\<not> fd_ready fd s"
  using assms
  by (induction fds)
    (auto simp: resE fd_get_def conn_of_fd_def arr_get_eq_Inr stateE fd_ready_def posix_inv_def split: if_splits)

lemma main_loop_step_posix_inv:
  assumes "nb__main_loop_step (posix_env (ipc_env E)) s = Inr s'" "posix_inv (app_state s)"
  shows "posix_inv (app_state s')"
  using main_loop_step_kept [of "{}" s E s'] assms by (simp add: node_ok_def ports_kept_def)

lemma select_loop_result:
  assumes "select_loop (posix_env (ipc_env E)) (map int fds) n s = Inr (r, s')" "posix_inv (app_state s)"
  shows "(\<forall>fd. r = Some fd \<longrightarrow> (\<exists>k. fd = int k \<and> k \<in> set fds \<and> fd_ready k s')) \<and>
    (r = None \<and> n \<noteq> 0 \<longrightarrow> (\<forall>fd \<in> set fds. \<not> fd_ready fd s'))"
  using assms
proof (induction n arbitrary: s)
  case (Suc n)
  from Suc.prems(1) obtain s1 r1 where s1: "nb__main_loop_step (posix_env (ipc_env E)) s = Inr s1"
      "select_scan (map int fds) s1 = Inr r1"
      "(case r1 of Some fd \<Rightarrow> Inr (Some fd, s1) | None \<Rightarrow> select_loop (posix_env (ipc_env E)) (map int fds) n s1) = Inr (r, s')"
    by (auto simp: resE)
  note inv1 = main_loop_step_posix_inv [OF s1(1) Suc.prems(2)]
  show ?case
  proof (cases r1)
    case None
    with s1 Suc.IH [of s1] inv1 select_scan_None [of fds s1] show ?thesis by (cases n) auto
  next
    case (Some fd)
    with s1 inv1 select_scan_Some [of fds s1 fd] show ?thesis by auto
  qed
qed simp

text \<open>
  C26. \<open>nbp_select\<close> ends after at most 1000 steps of the main loop. When it returns 1 the
  set holds exactly one of the given descriptors below \<open>nfds\<close>, and that one has a pending
  accept event or data to read. When it returns 0 the set is empty and no given descriptor is ready.
\<close>

theorem select_reports_ready:
  assumes "nbp_select (posix_env (ipc_env E)) nfds readfds s = Inr ((r, ready), s')" "posix_inv (app_state s)"
  shows "(\<exists>fd. r = 1 \<and> ready = {fd} \<and> fd \<in> readfds \<and> fd < nfds \<and> fd_ready fd s') \<or>
    r = 0 \<and> ready = {} \<and> (\<forall>fd \<in> readfds. fd < nfds \<longrightarrow> \<not> fd_ready fd s')"
proof -
  let ?fds = "filter (\<lambda>fd. fd \<in> readfds) [0..<nfds]"
  from assms(1) obtain x where x: "select_loop (posix_env (ipc_env E)) (map int ?fds) 1000 s = Inr (x, s')"
    "(r, ready) = (case x of Some fd \<Rightarrow> (1, {nat fd}) | None \<Rightarrow> (0, {}))"
    by (auto simp: nbp_select_def Let_def resE simp del: select_loop.simps split: option.splits)
  from select_loop_result [OF x(1) assms(2)] x(2) show ?thesis
    by (auto split: option.splits)
qed

section \<open>Accepting and receiving\<close>

text \<open>
  C38. Every packet of a new peer counts as an accept event, but one call of
  \<open>nb__accept\<close> takes all packets of that peer. When the counter of a listening descriptor
  is not zero and no packet is queued, \<open>nbp_accept\<close> stores the null connection and then
  writes through it.
\<close>

theorem accept_empty_queue:
  assumes "posix_inv (app_state s)" "fd < MAX_FDS" "nb_fd (app_state s) ! fd = 1"
    and "fd_accept_counter (app_state s) ! fd \<noteq> 0" "fd_table (app_state s) ! fd = l"
    and "l \<noteq> 0" "conns s l = Some x" "aq_current_elems (accept_queue x) = 0"
    and "open_zero I (os (app_state s)) = (int new, os')" "new < MAX_FDS" "nb_fd (app_state s) ! new = 0"
  shows "nbp_accept I E (int fd) want s = Inl Null_Deref"
proof -
  have "wait_accept E (int fd) s = Some (Inr s)"
    using assms by (subst wait_accept.simps) (simp add: fd_get_def arr_get_def posix_inv_def)
  with assms show ?thesis
    by (simp add: nbp_accept_def owned_def fd_get_def fd_set_def arr_get_def arr_set_def posix_inv_def grab_free_fd_def
        guardE_def conn_of_fd_def nb__accept_def conn_get_def of_option_def posix_upd_def nb__set_user_data_def
        conn_upd_def conn_updE_def Let_def)
qed

lemma read_queued:
  assumes "c \<noteq> 0" "conns s c = Some x" "dq_inv (input_queue x)"
    and "dq_list (input_queue x) = ((p, off), n) # rest" "bufs s p = Some b" "p \<noteq> 0"
    and "0 \<le> n" "0 \<le> len" "off + nat n \<le> length b"
  shows "\<exists>x'. nb__read c len s = Inr ((min len n, take (nat (min len n)) (drop off b)), s\<lparr>conns := (conns s)(c \<mapsto> x')\<rparr>) \<and>
    dq_inv (input_queue x') \<and> dq_list (input_queue x') = rest"
proof -
  from dq_take_first_ok [OF assms(3,4)] obtain q where q: "dq_take_first (input_queue x) = Inr (((p, off), n), q)"
    "dq_inv q" "dq_list q = rest" by blast
  have "dq_current_elems (input_queue x) \<noteq> 0" using length_dq_list [OF assms(3)] assms(4) by simp
  with assms q show ?thesis
    by (intro exI [of _ "x\<lparr>input_queue := q\<rparr>"]) (auto simp: nb__read_def Let_def buf_slice_def min_def)
qed

text \<open>
  C27. \<open>nbp_recv\<close> on a connection with data returns at once: it takes the oldest payload of
  the queue and gives its first bytes, as many as fit.
\<close>

theorem recv_oldest_payload:
  assumes "posix_inv (app_state s)" "fd < MAX_FDS" "nb_fd (app_state s) ! fd = 1"
    and "fd_table (app_state s) ! fd = c" "c \<noteq> 0" "conns s c = Some x" "dq_inv (input_queue x)"
    and "dq_list (input_queue x) = ((p, off), n) # rest" "bufs s p = Some b" "p \<noteq> 0"
    and "0 < n" "0 < len" "len < 2 ^ 31" "off + nat n \<le> length b"
  shows "\<exists>x'. nbp_recv I E (int fd) len flags s =
      Inr ((min (int len) n, take (min len (nat n)) (drop off b)), s\<lparr>conns := (conns s)(c \<mapsto> x')\<rparr>) \<and>
    dq_inv (input_queue x') \<and> dq_list (input_queue x') = rest"
proof -
  have len: "sint (of_nat len :: u32) = int len"
    using assms(13) by (simp add: signed_of_nat signed_take_bit_int_eq_self)
  obtain x' where x': "nb__read c (int len) s =
      Inr ((min (int len) n, take (nat (min (int len) n)) (drop off b)), s\<lparr>conns := (conns s)(c \<mapsto> x')\<rparr>)"
    "dq_inv (input_queue x')" "dq_list (input_queue x') = rest"
    using read_queued [OF assms(5-10), of "int len"] assms(11-14) by auto
  have "recv_loop E c (int len) s =
      Some (Inr ((min (int len) n, take (nat (min (int len) n)) (drop off b)), s\<lparr>conns := (conns s)(c \<mapsto> x')\<rparr>))"
    using x'(1) assms(11,12) by (subst recv_loop.simps) (simp add: min_def)
  moreover have "nat (min (int len) n) = min len (nat n)" by linarith
  ultimately show ?thesis
    using assms(1-4) x'(2,3)
    by (intro exI [of _ x']) (simp add: nbp_recv_def owned_def conn_of_fd_def fd_get_def arr_get_def posix_inv_def len)
qed

end
