(* ===== verification/Node_Scenarios.thy ===== *)
theory Node_Scenarios
  imports Scenarios Timer_Loop Posix_Proofs
begin

text \<open>
  Concrete runs of a whole node: sending, timers that are due, and the socket calls on a node whose
  application is the POSIX layer.
\<close>

section \<open>Sending and timers\<close>

definition demo_numbering_env :: "(ipc_state, unit) nb_env" where
  "demo_numbering_env = ipc_env (demo_env\<lparr>m_registered_modules := [Inorder_Module]\<rparr>)"

lemma demo_numbering_send:
  "\<exists>r s'. nb__send demo_numbering_env 256 [104, 105] 2 demo_state = Inr (r, s')"
proof -
  let ?b = "replicate IPC_MTU 0 :: u8 list"
  obtain b' where b': "set_integer simple_layout ''sequence_number'' 1011 ?b = Inr b'"
    using int_member_put [OF simple_int_members(10), of ?b 1011] by (auto simp: IPC_MTU_def)
  have "map (\<lambda>i. 0) [0..<IPC_MTU] = ?b" by (simp add: map_replicate_const)
  with b' show ?thesis
    by (simp add: demo_numbering_env_def ipc_env_def demo_env_def nb__send_def run_send_path_def demo_state_def
        nb__request_send_buffer_def malloc_buf_def Let_def inorder_hook_send_def keep_ret_def demo_conn_def
        pkt_set_def buf_updE_def)
qed

theorem send_changes_one_connection_example:
  "\<exists>r s' sq. nb__send demo_numbering_env 256 [104, 105] 2 demo_state = Inr (r, s') \<and>
     ct_list s' = ct_list demo_state \<and>
     (\<exists>rb. conns s' 256 = Some (demo_conn\<lparr>last_sent_sequence := sq, redelivery_buffer := rb\<rparr>))"
proof -
  obtain r s' where *: "nb__send demo_numbering_env 256 [104, 105] 2 demo_state = Inr (r, s')"
    using demo_numbering_send by blast
  from send_changes_one_connection [OF * [unfolded demo_numbering_env_def]] show ?thesis
    using * by (auto simp: demo_state_def)
qed

theorem check_timers_fires_due_example:
  "\<exists>ts r. timer_inv ts [5] [] \<and> due ts 1000 5 \<and> timers_loop (ipc_env demo_env) 1000 (demo_state\<lparr>timers := ts\<rparr>) = Some r"
proof -
  let ?h = "(nb__allocated_timers demo_timers)(5 :=
      \<lparr>tm_callback = Redelivery_Timer_Cb, tm_argument = 4096, tm_next = 0, tm_prev = 0, tm_timeout = 900\<rparr>)"
  let ?ts = "demo_timers\<lparr>nb__allocated_timers := ?h, nb__timers_head := 5\<rparr>"
  let ?s = "demo_state\<lparr>timers := ?ts\<rparr>"
  have inv: "timer_inv ?ts [5] []"
    by (simp add: timer_inv_def demo_timers_def valid_timer_def MAX_TIMER_ALLOCS_def)
  have now: "nb__time_now ?s = 1000" "timers ?s = ?ts" by (simp_all add: demo_state_def)
  have "\<exists>r. timers_loop (ipc_env demo_env) 1000 ?s = Some r"
    using check_timers_fires_due [of ?s "[5]" "[]" demo_env, unfolded now] inv by auto
  moreover have "due ?ts 1000 5" by (simp add: due_def)
  ultimately show ?thesis using inv by blast
qed

section \<open>Socket calls\<close>

definition demo_posix :: "unit posix_state" where
  "demo_posix = \<lparr>fd_table = (replicate 256 0)[3 := 256], nb_fd = (replicate 256 0)[3 := 1],
     fd_accept_counter = (replicate 256 0)[3 := 1], fd_establish_status = replicate 256 0,
     fd_src_port = replicate 256 0, port_occupied = (\<lambda>i. 0)(80 := 1), os = ()\<rparr>"

text \<open>The operating system gives descriptor 4 and answers 0.\<close>

definition demo_os :: "unit os_iface" where
  "demo_os = \<lparr>open_zero = \<lambda>x. (4, x), os_exec = \<lambda>r fd x. ((0, []), x)\<rparr>"

definition demo_posix_env :: "(ipc_state, unit posix_state) nb_env" where
  "demo_posix_env =
     \<lparr>cfg = simple_config, net_packet = simple_layout, m_registered_modules = simple_modules,
      malloc_addr = \<lambda>k. of_nat (4096 + k), malloc_byte = \<lambda>k i. 0, malloc_conn = \<lambda>k. demo_conn,
      clock_ms = \<lambda>s. 1000, request_send_buffer = \<lambda>s. Inl Bad_Pointer, send_packet = \<lambda>b s. Inl Bad_Pointer,
      poll_packet = \<lambda>n s. Inl Bad_Pointer, run_callback = \<lambda>f e c s. Inr s\<rparr>"

definition demo_posix_state :: "nb__connection_t \<Rightarrow> unit posix_state \<Rightarrow> (ipc_state, unit) posix_node" where
  "demo_posix_state x a = \<lparr>bufs = [4096 \<mapsto> demo_packet 0xf3], conns = [256 \<mapsto> x], mallocs = 0, timers = demo_timers, num_conn = 0,
     active_local_app_ids = replicate 512 0, active_remote_app_ids = replicate 512 0,
     active_remote_host_ids = replicate 512 0, active_connections = replicate 512 0,
     routing_table = None, routing_table_len = 0, nb__my_host_id = 9, nb__my_local_host_id = 9,
     nb__time_now = 1000, transport_state = demo_ipc, app_state = a\<rparr>"

lemma demo_posix_inv: "posix_inv demo_posix" "posix_inv (demo_posix\<lparr>port_occupied := P\<rparr>)"
  by (auto simp: posix_inv_def demo_posix_def MAX_FDS_def set_list_update intro!: ball_set_update)

lemma demo_posix_state_simps [simp]:
  "app_state (demo_posix_state x a) = a" "conns (demo_posix_state x a) = [256 \<mapsto> x]"
  "bufs (demo_posix_state x a) = [4096 \<mapsto> demo_packet 0xf3]"
  by (simp_all add: demo_posix_state_def)

text \<open>A call that changes the tables: descriptor 4 becomes a socket.\<close>

lemma demo_socket_step:
  "\<exists>s'. posix_step demo_os E (demo_posix_state x (demo_posix\<lparr>port_occupied := P\<rparr>)) s' \<and>
     nbp_socket demo_os (demo_posix_state x (demo_posix\<lparr>port_occupied := P\<rparr>)) = Inr (4, s') \<and> owned 4 s' = Inr True"
proof -
  let ?s = "demo_posix_state x (demo_posix\<lparr>port_occupied := P\<rparr>)"
  have "\<exists>s'. nbp_socket demo_os ?s = Inr (4, s') \<and> owned 4 s' = Inr True"
    by (simp add: nbp_socket_def grab_free_fd_def demo_os_def demo_posix_def fd_get_def fd_set_def arr_get_def arr_set_def
        posix_upd_def guardE_def Let_def owned_def)
  then show ?thesis by (blast intro: posix_step.intros)
qed

theorem ports_stay_occupied_example:
  "\<exists>s'. nbp_socket demo_os (demo_posix_state demo_conn (demo_posix\<lparr>port_occupied := (\<lambda>i. 0)(80 := 1)\<rparr>)) = Inr (4, s') \<and>
     posix_inv (app_state s') \<and> port_occupied (app_state s') 80 \<noteq> 0"
proof -
  let ?s = "demo_posix_state demo_conn (demo_posix\<lparr>port_occupied := (\<lambda>i. 0)(80 := 1)\<rparr>)"
  obtain s' where s': "posix_step demo_os (posix_env (ipc_env demo_posix_env)) ?s s'" "nbp_socket demo_os ?s = Inr (4, s')"
    using demo_socket_step by blast
  with ports_stay_occupied [OF r_into_rtranclp [of "posix_step demo_os (posix_env (ipc_env demo_posix_env))", OF s'(1)], of 80]
  show ?thesis by (auto simp: demo_posix_inv)
qed

theorem connect_ports_exhausted_example:
  "\<exists>s'. nbp_socket demo_os (demo_posix_state demo_conn (demo_posix\<lparr>port_occupied := \<lambda>i. 1\<rparr>)) = Inr (4, s') \<and>
     nbp_connect demo_os (posix_env (ipc_env demo_posix_env)) 4 \<lparr>sin_port = 80, s_addr = 7\<rparr> 16 s' = Inl (Assert_Fail ''0'')"
proof -
  let ?s = "demo_posix_state demo_conn (demo_posix\<lparr>port_occupied := \<lambda>i. 1\<rparr>)"
  obtain s' where s': "posix_step demo_os (posix_env (ipc_env demo_posix_env)) ?s s'" "nbp_socket demo_os ?s = Inr (4, s')"
    "owned 4 s' = Inr True" using demo_socket_step by blast
  with connect_ports_exhausted [OF r_into_rtranclp [of "posix_step demo_os (posix_env (ipc_env demo_posix_env))", OF s'(1)], of 4 16]
  show ?thesis by (auto simp: demo_posix_inv)
qed

theorem find_free_port_smallest_example:
  "\<exists>r. find_free_port (demo_posix_state demo_conn demo_posix) = Inr r"
proof -
  have "8080 \<le> (8081::nat) \<and> (8081::nat) < 10000 \<and> port_occupied (app_state (demo_posix_state demo_conn demo_posix)) (8081 - 8000) = 0"
    by (simp add: demo_posix_def)
  with find_free_port_smallest [of "demo_posix_state demo_conn demo_posix"] show ?thesis by blast
qed

lemma demo_idle_step:
  "\<exists>s'. nb__main_loop_step (posix_env (ipc_env demo_posix_env)) (demo_posix_state x a) = Inr s' \<and> app_state s' = a"
  by (simp add: nb__main_loop_step_def Let_def demo_posix_env_def posix_env_def ipc_env_def simple_headroom nb__poll_packet_def
      demo_posix_state_def demo_ipc_def nb__cycle_connections_def nb__get_time_ms_now_def cycle_loop.simps [of _ 0]
      nb__check_timers_def timers_loop.simps demo_timers_def)

theorem select_reports_ready_example:
  "\<exists>s'. nbp_select (posix_env (ipc_env demo_posix_env)) 4 {3} (demo_posix_state demo_conn demo_posix) = Inr ((1, {3}), s') \<and>
     fd_ready 3 s'"
proof -
  let ?s = "demo_posix_state demo_conn demo_posix" and ?E = "posix_env (ipc_env demo_posix_env)"
  obtain s' where s': "nb__main_loop_step ?E ?s = Inr s'" "app_state s' = demo_posix" using demo_idle_step by blast
  have "select_loop ?E [3] (Suc 999) ?s = Inr (Some 3, s')"
    unfolding select_loop.simps using s' by (simp add: demo_posix_def fd_get_def arr_get_def)
  moreover have "filter (\<lambda>fd. fd \<in> {3}) [0..<4] = [3]" by (simp add: numeral_eq_Suc)
  ultimately have r: "nbp_select ?E 4 {3} ?s = Inr ((1, {3}), s')"
    by (simp add: nbp_select_def Let_def guardE_def FD_SETSIZE_def MAX_FDS_def del: select_loop.simps)
  with select_reports_ready [OF r] show ?thesis by (simp add: demo_posix_inv)
qed

theorem accept_empty_queue_example:
  "nbp_accept demo_os (posix_env (ipc_env demo_posix_env)) 3 False (demo_posix_state demo_conn demo_posix) = Inl Null_Deref"
  using accept_empty_queue [of "demo_posix_state demo_conn demo_posix" 3 256 demo_conn demo_os 4 "()"]
  by (simp add: demo_posix_inv) (simp add: demo_posix_def demo_conn_def demo_accept_def demo_os_def MAX_FDS_def)

definition demo_full_conn :: nb__connection_t where
  "demo_full_conn = demo_conn\<lparr>input_queue := \<lparr>data_queue_elems = replicate 512 (4096, 62),
     data_queue_elems_size = replicate 512 2, dq_current_elems = 1\<rparr>\<rparr>"

theorem recv_oldest_payload_example:
  "\<exists>s'. nbp_recv demo_os (posix_env (ipc_env demo_posix_env)) 3 16 0 (demo_posix_state demo_full_conn demo_posix) =
     Inr ((2, [104, 105]), s')"
proof -
  have q: "dq_inv (input_queue demo_full_conn)" "dq_list (input_queue demo_full_conn) = [((4096, 62), 2)]"
    by (simp_all add: dq_inv_def dq_list_def demo_full_conn_def MAX_DATA_QUEUE_ELEMS_def numeral_eq_Suc)
  have fd: "nb_fd demo_posix ! 3 = 1" "fd_table demo_posix ! 3 = 256" "3 < MAX_FDS"
    by (simp_all add: demo_posix_def MAX_FDS_def)
  have "take 2 (drop 62 (demo_packet 0xf3)) = [104, 105]" by (simp add: demo_packet_def)
  with recv_oldest_payload [of "demo_posix_state demo_full_conn demo_posix" 3 256 demo_full_conn 4096 62 2 "[]" "demo_packet 0xf3" 16
      demo_os "posix_env (ipc_env demo_posix_env)" 0] q fd
  show ?thesis by (auto simp: demo_posix_inv)
qed

end
