(* ===== verification/Hub.thy ===== *)
theory Hub
  imports NB_State
begin

text \<open>
  The packet hub (\<open>utils/hub/ipc_hub.c\<close>): a process to which the nodes of a simulated
  network connect over Unix sockets. Every message of a node is sent to all other nodes. The sockets
  of the operating system are modelled as far as the hub uses them: a queue of messages in each
  direction for every descriptor, and whether the peer has hung up. The program ends with a message
  (an \<open>Assert_Fail\<close>) when a call fails.
\<close>

section \<open>The sockets of the hub\<close>

text \<open>
  \<open>waiting\<close> are the results of the next calls of \<open>accept\<close>, \<open>inbox\<close> and
  \<open>outbox\<close> the messages from and to a peer; \<open>select_fails\<close> makes the next
  \<open>select\<close> fail.
\<close>

record hub_net =
  waiting :: "int list"
  inbox :: "int \<Rightarrow> u8 list list"
  outbox :: "int \<Rightarrow> u8 list list"
  hung_up :: "int \<Rightarrow> bool"
  select_fails :: bool

definition sock_readable :: "int \<Rightarrow> hub_net \<Rightarrow> int \<Rightarrow> bool" where
  "sock_readable ipc_socket n fd \<longleftrightarrow> (if fd = ipc_socket then waiting n \<noteq> [] else inbox n fd \<noteq> [] \<or> hung_up n fd)"

definition hub_select :: "int \<Rightarrow> int \<Rightarrow> int set \<Rightarrow> hub_net \<Rightarrow> int \<times> int set" where
  "hub_select ipc_socket nfds fdset n =
     (if select_fails n then (- 1, fdset)
      else let ready = {fd \<in> fdset. 0 \<le> fd \<and> fd < nfds \<and> sock_readable ipc_socket n fd} in (int (card ready), ready))"

definition hub_accept :: "hub_net \<Rightarrow> int \<times> hub_net" where
  "hub_accept n = (case waiting n of [] \<Rightarrow> (- 1, n) | fd # fds \<Rightarrow> (fd, n\<lparr>waiting := fds\<rparr>))"

text \<open>One message, cut to the size of the buffer; 0 at the end, \<open>-1\<close> when there is none.\<close>

definition hub_read :: "int \<Rightarrow> nat \<Rightarrow> hub_net \<Rightarrow> (int \<times> u8 list) \<times> hub_net" where
  "hub_read fd nbytes n =
     (case inbox n fd of
        m # ms \<Rightarrow> ((int (length (take nbytes m)), take nbytes m), n\<lparr>inbox := (inbox n)(fd := ms)\<rparr>)
      | [] \<Rightarrow> ((if hung_up n fd then 0 else - 1, []), n))"

text \<open>A message that does not come from the buffer as a whole is refused, and one to a peer that hung up is lost.\<close>

definition hub_send :: "int \<Rightarrow> u8 list \<Rightarrow> int \<Rightarrow> hub_net \<Rightarrow> hub_net" where
  "hub_send fd buf len n =
     (if hung_up n fd \<or> len < 0 \<or> int (length buf) < len then n
      else n\<lparr>outbox := (outbox n)(fd := outbox n fd @ [take (nat len) buf])\<rparr>)"

definition hub_close :: "int \<Rightarrow> hub_net \<Rightarrow> hub_net" where
  "hub_close fd n = n\<lparr>inbox := (inbox n)(fd := []), outbox := (outbox n)(fd := []), hung_up := (hung_up n)(fd := False)\<rparr>"

section \<open>The main loop\<close>

definition HUB_FDS :: nat where "HUB_FDS = 256"
definition HUB_BUFFER :: nat where "HUB_BUFFER = 1600"
definition SELECT_SETSIZE :: int where "SELECT_SETSIZE = 1024"

record hub_state =
  hub_buffer :: "u8 list"
  hub_fds :: "int list"
  fd_count :: nat

definition fd_set_add :: "int \<Rightarrow> int set \<Rightarrow> int set res" where
  "fd_set_add fd fdset = bindE (guardE (0 \<le> fd \<and> fd < SELECT_SETSIZE) Out_Of_Bounds) (\<lambda>_. Inr (insert fd fdset))"

text \<open>The set of all descriptors and the largest one.\<close>

definition build_set :: "int \<Rightarrow> hub_state \<Rightarrow> (int set \<times> int) res" where
  "build_set ipc_socket h =
     bindE (fd_set_add ipc_socket {}) (\<lambda>fdset.
     foldE (\<lambda>(fdset, fd_max) i.
       bindE (arr_get (hub_fds h) i) (\<lambda>fd.
       bindE (fd_set_add fd fdset) (\<lambda>fdset.
       Inr (fdset, if fd > fd_max then fd else fd_max))))
       (fdset, ipc_socket) [0..<fd_count h])"

definition accept_new :: "int \<Rightarrow> int set \<Rightarrow> hub_state \<times> hub_net \<Rightarrow> (hub_state \<times> hub_net) res" where
  "accept_new ipc_socket fdset hn =
     (case hn of (h, n) \<Rightarrow>
      if ipc_socket \<in> fdset then
        (case hub_accept n of (new_fd, n) \<Rightarrow>
         bindE (guardE (\<not> new_fd < 0) (Assert_Fail ''Accept returned -1'')) (\<lambda>_.
         bindE (arr_set (hub_fds h) (fd_count h) new_fd) (\<lambda>xs.
         Inr (h\<lparr>hub_fds := xs, fd_count := fd_count h + 1\<rparr>, n))))
      else Inr (h, n))"

text \<open>The message in the buffer goes to all descriptors but number \<open>i\<close>.\<close>

definition relay :: "nat \<Rightarrow> int \<Rightarrow> hub_state \<Rightarrow> hub_net \<Rightarrow> hub_net res" where
  "relay i len h n =
     foldE (\<lambda>n j. if i = j then Inr n else
       bindE (arr_get (hub_fds h) j) (\<lambda>fd. Inr (hub_send fd (hub_buffer h) len n)))
       n [0..<fd_count h]"

text \<open>
  The loop over \<open>i\<close>. When a socket has closed, the last descriptor takes its place and is
  looked at next.
\<close>

function serve :: "int set \<Rightarrow> nat \<Rightarrow> hub_state \<Rightarrow> hub_net \<Rightarrow> (hub_state \<times> hub_net) res" where
  "serve fdset i h n =
     (if i < fd_count h then
        bindE (arr_get (hub_fds h) i) (\<lambda>fd.
        if fd \<in> fdset then
          (case hub_read fd HUB_BUFFER n of ((len, bytes), n) \<Rightarrow>
           bindE (mem_copy 0 bytes (length bytes) (hub_buffer h)) (\<lambda>b.
           if len = 0 then
             bindE (arr_get (hub_fds h) (fd_count h - 1)) (\<lambda>fd'.
             bindE (arr_set (hub_fds h) i fd') (\<lambda>xs.
             serve fdset i (h\<lparr>hub_buffer := b, hub_fds := xs, fd_count := fd_count h - 1\<rparr>) (hub_close fd n)))
           else
             bindE (relay i len (h\<lparr>hub_buffer := b\<rparr>) n) (\<lambda>n.
             serve fdset (i + 1) (h\<lparr>hub_buffer := b\<rparr>) n)))
        else serve fdset (i + 1) h n)
      else Inr (h, n))"
  by pat_completeness auto
termination
  by (relation "measure (\<lambda>(fdset, i, h, n). fd_count h - i)") auto

definition hub_iteration :: "int \<Rightarrow> hub_state \<times> hub_net \<Rightarrow> (hub_state \<times> hub_net) res" where
  "hub_iteration ipc_socket hn =
     (case hn of (h, n) \<Rightarrow>
      bindE (build_set ipc_socket h) (\<lambda>(fdset, fd_max).
      case hub_select ipc_socket (fd_max + 1) fdset n of (ret, fdset) \<Rightarrow>
      bindE (guardE (\<not> ret < 0) (Assert_Fail ''Select returned -1'')) (\<lambda>_.
      bindE (accept_new ipc_socket fdset (h, n)) (\<lambda>(h, n).
      serve fdset 0 h n))))"


section \<open>One iteration relays every message once\<close>

declare serve.simps [simp del]

definition hub_list :: "hub_state \<Rightarrow> int list" where
  "hub_list h = take (fd_count h) (hub_fds h)"

definition hub_inv :: "int \<Rightarrow> hub_state \<Rightarrow> bool" where
  "hub_inv ipc_socket h \<longleftrightarrow> length (hub_buffer h) = HUB_BUFFER \<and> length (hub_fds h) = HUB_FDS \<and> fd_count h \<le> HUB_FDS \<and>
     distinct (hub_list h) \<and> ipc_socket \<notin> set (hub_list h) \<and> (\<forall>fd \<in> set (hub_list h). 0 \<le> fd \<and> fd < SELECT_SETSIZE)"

text \<open>What a readable descriptor has: a message for the others, or the end.\<close>

definition talks :: "hub_net \<Rightarrow> int \<Rightarrow> bool" where
  "talks n fd \<longleftrightarrow> (\<exists>m ms. inbox n fd = m # ms \<and> m \<noteq> [])"

definition message :: "hub_net \<Rightarrow> int \<Rightarrow> u8 list" where
  "message n fd = take HUB_BUFFER (hd (inbox n fd))"

definition ends :: "hub_net \<Rightarrow> int \<Rightarrow> bool" where
  "ends n fd \<longleftrightarrow> (case inbox n fd of [] \<Rightarrow> hung_up n fd | m # ms \<Rightarrow> m = [])"

definition relayed :: "nat \<Rightarrow> int \<Rightarrow> hub_state \<Rightarrow> hub_net \<Rightarrow> int set \<Rightarrow> int \<Rightarrow> u8 list list" where
  "relayed i len h n fds fd =
     (if fd \<in> fds \<and> fd \<noteq> hub_list h ! i \<and> \<not> hung_up n fd \<and> 0 \<le> len \<and> len \<le> int (length (hub_buffer h))
      then outbox n fd @ [take (nat len) (hub_buffer h)] else outbox n fd)"

lemma hub_list_nth: "j < fd_count h \<Longrightarrow> fd_count h \<le> length (hub_fds h) \<Longrightarrow> hub_list h ! j = hub_fds h ! j"
  by (simp add: hub_list_def)

lemma length_hub_list: "fd_count h \<le> length (hub_fds h) \<Longrightarrow> length (hub_list h) = fd_count h"
  by (simp add: hub_list_def)

lemma relay_to:
  assumes "fd_count h \<le> length (hub_fds h)" "distinct (hub_list h)" "i < fd_count h" "k \<le> fd_count h"
  shows "foldE (\<lambda>n j. if i = j then Inr n else
       bindE (arr_get (hub_fds h) j) (\<lambda>fd. Inr (hub_send fd (hub_buffer h) len n))) n [0..<k] =
     Inr (n\<lparr>outbox := relayed i len h n (set (take k (hub_list h)))\<rparr>)"
  using assms(4)
proof (induction k)
  case 0
  then show ?case by (simp add: relayed_def cong: hub_net.fold_congs)
next
  case (Suc k)
  let ?L = "hub_list h"
  have k: "k < length ?L" "?L ! k = hub_fds h ! k" "k < length (hub_fds h)"
    using Suc.prems assms(1) by (simp_all add: hub_list_def)
  have fresh: "?L ! k \<notin> set (take k ?L)"
    using assms(2) k(1) by (auto simp: in_set_conv_nth nth_eq_iff_index_eq)
  have i: "?L ! k = ?L ! i \<longleftrightarrow> k = i"
    using assms(1-3) k(1) by (auto simp: nth_eq_iff_index_eq length_hub_list)
  have s: "set (take (Suc k) ?L) = insert (?L ! k) (set (take k ?L))"
    using k(1) by (simp add: take_Suc_conv_app_nth)
  show ?case
    using Suc fresh i k unfolding s
    by (auto simp: foldE_append relayed_def hub_send_def fun_eq_iff intro!: hub_net.equality)
qed

lemma relay_ok:
  assumes "fd_count h \<le> length (hub_fds h)" "distinct (hub_list h)" "i < fd_count h"
  shows "relay i len h n = Inr (n\<lparr>outbox := relayed i len h n (set (hub_list h))\<rparr>)"
  using relay_to [OF assms order_refl] by (simp add: relay_def length_hub_list assms(1))

lemma swap_remove_parts:
  assumes "i < length xs"
  shows "take i (butlast (xs[i := last xs])) = take i xs" "mset (drop i (butlast (xs[i := last xs]))) = mset (drop (Suc i) xs)"
proof -
  from assms obtain ys y where xs: "xs = ys @ [y]" by (cases xs rule: rev_cases) auto
  have upd: "butlast (xs[i := last xs]) = (if i < length ys then ys[i := y] else ys)"
    using assms by (auto simp: xs list_update_append split: nat.splits)
  show "take i (butlast (xs[i := last xs])) = take i xs"
    unfolding upd using assms by (auto simp: xs)
  have "drop i (ys[i := y]) = y # drop (Suc i) ys" if "i < length ys"
    using that by (simp add: upd_conv_take_nth_drop)
  then show "mset (drop i (butlast (xs[i := last xs]))) = mset (drop (Suc i) xs)"
    unfolding upd using assms by (auto simp: xs)
qed

text \<open>The descriptors from index \<open>i\<close> on, and what has come of them after the loop.\<close>

definition served :: "int set \<Rightarrow> nat \<Rightarrow> hub_state \<Rightarrow> hub_net \<Rightarrow> hub_state \<Rightarrow> hub_net \<Rightarrow> bool" where
  "served fdset i h n h' n' \<longleftrightarrow>
     (\<forall>fd. fd \<in> set (hub_list h') \<longleftrightarrow>
        fd \<in> set (take i (hub_list h)) \<or> fd \<in> set (drop i (hub_list h)) \<and> \<not> (fd \<in> fdset \<and> ends n fd)) \<and>
     (\<forall>fd \<in> set (hub_list h'). hung_up n' fd = hung_up n fd \<and>
        inbox n' fd = (if fd \<in> set (drop i (hub_list h)) \<and> fd \<in> fdset \<and> talks n fd then tl (inbox n fd) else inbox n fd) \<and>
        (\<not> hung_up n fd \<longrightarrow> (\<exists>ms. outbox n' fd = outbox n fd @ ms \<and>
           mset ms = image_mset (message n) (filter_mset (\<lambda>f. f \<in> fdset \<and> talks n f \<and> f \<noteq> fd) (mset (drop i (hub_list h)))))))"

lemma hub_read_ends: "ends n fd \<Longrightarrow> \<exists>n'. hub_read fd HUB_BUFFER n = ((0, []), n') \<and> hub_close fd n' = hub_close fd n"
  by (auto simp: ends_def hub_read_def hub_close_def split: list.splits)

lemma hub_read_talks:
  "talks n fd \<Longrightarrow> hub_read fd HUB_BUFFER n = ((int (length (message n fd)), message n fd), n\<lparr>inbox := (inbox n)(fd := tl (inbox n fd))\<rparr>) \<and>
     message n fd \<noteq> [] \<and> length (message n fd) \<le> HUB_BUFFER"
  by (auto simp: talks_def hub_read_def message_def HUB_BUFFER_def)

lemma hub_read_silent: "\<not> ends n fd \<Longrightarrow> \<not> talks n fd \<Longrightarrow> hub_read fd HUB_BUFFER n = ((- 1, []), n)"
  by (auto simp: ends_def talks_def hub_read_def split: list.splits)

lemma hub_list_buffer [simp]: "hub_list (h\<lparr>hub_buffer := b\<rparr>) = hub_list h"
  by (simp add: hub_list_def)

lemma parts_fresh:
  assumes "distinct xs" "i < length xs"
  shows "drop i xs = xs ! i # drop (Suc i) xs" "take (Suc i) xs = take i xs @ [xs ! i]"
    "xs ! i \<notin> set (take i xs)" "xs ! i \<notin> set (drop (Suc i) xs)"
proof -
  show d: "drop i xs = xs ! i # drop (Suc i) xs" using assms(2) by (simp add: Cons_nth_drop_Suc)
  show "take (Suc i) xs = take i xs @ [xs ! i]" using assms(2) by (simp add: take_Suc_conv_app_nth)
  have "distinct (take i xs @ xs ! i # drop (Suc i) xs)" using assms(1) d append_take_drop_id [of i xs] by simp
  then show "xs ! i \<notin> set (take i xs)" "xs ! i \<notin> set (drop (Suc i) xs)" by auto
qed

lemma inbox_cong:
  assumes "inbox n' fd = inbox n fd"
  shows "talks n' fd = talks n fd" "message n' fd = message n fd" "hung_up n' fd = hung_up n fd \<Longrightarrow> ends n' fd = ends n fd"
  using assms by (simp_all add: talks_def message_def ends_def cong: list.case_cong)

lemma served_subset: "served fdset i h n h' n' \<Longrightarrow> fd \<in> set (hub_list h') \<Longrightarrow> fd \<in> set (hub_list h)"
  unfolding served_def by (metis in_set_dropD in_set_takeD)

text \<open>The sum over the rest does not depend on what happened to the descriptor served before.\<close>

lemma relayed_mset_cong:
  assumes "\<And>f. f \<in> set xs \<Longrightarrow> inbox n1 f = inbox n f"
  shows "image_mset (message n1) (filter_mset (\<lambda>f. f \<in> fdset \<and> talks n1 f \<and> f \<noteq> g) (mset xs)) =
    image_mset (message n) (filter_mset (\<lambda>f. f \<in> fdset \<and> talks n f \<and> f \<noteq> g) (mset xs))"
proof -
  have "filter_mset (\<lambda>f. f \<in> fdset \<and> talks n1 f \<and> f \<noteq> g) (mset xs) = filter_mset (\<lambda>f. f \<in> fdset \<and> talks n f \<and> f \<noteq> g) (mset xs)"
    by (rule filter_mset_cong) (simp_all add: inbox_cong(1) [OF assms])
  moreover have "image_mset (message n1) M = image_mset (message n) M" if "M \<subseteq># mset xs" for M
    using that by (intro image_mset_cong inbox_cong(2) assms) (metis mset_subset_eqD set_mset_mset)
  ultimately show ?thesis by (simp add: multiset_filter_subset)
qed

text \<open>One descriptor is served, and stays: the others got its message, if it had one.\<close>

lemma served_step:
  fixes h n i fdset
  defines "fd \<equiv> hub_list h ! i"
  defines "T \<equiv> fd \<in> fdset \<and> talks n fd"
  assumes S: "served fdset (i + 1) h n1 h' n'" and dist: "distinct (hub_list h)" and i: "i < length (hub_list h)"
    and stays: "\<not> (fd \<in> fdset \<and> ends n fd)"
    and box: "inbox n1 = (if T then (inbox n)(fd := tl (inbox n fd)) else inbox n)" "hung_up n1 = hung_up n"
    and out: "\<And>g. g \<in> set (hub_list h) \<Longrightarrow> \<not> hung_up n g \<Longrightarrow>
      outbox n1 g = (if T \<and> g \<noteq> fd then outbox n g @ [message n fd] else outbox n g)"
  shows "served fdset i h n h' n'"
proof -
  let ?R = "drop (Suc i) (hub_list h)"
  note parts = parts_fresh [OF dist i, folded fd_def]
  have sets: "set (drop i (hub_list h)) = insert fd (set ?R)" "set (take (i + 1) (hub_list h)) = insert fd (set (take i (hub_list h)))"
    using parts(1,2) by simp_all
  have box1: "inbox n1 f = inbox n f" if "f \<noteq> fd" for f using that box by simp
  have ne: "f \<noteq> fd" if "f \<in> set ?R" for f using that parts(4) by blast
  have same: "ends n1 f = ends n f" "talks n1 f = talks n f" "message n1 f = message n f" if "f \<noteq> fd" for f
    by (simp_all only: inbox_cong [OF box1 [OF that]] box(2))
  have sums: "image_mset (message n1) (filter_mset (\<lambda>f. f \<in> fdset \<and> talks n1 f \<and> f \<noteq> g) (mset ?R)) =
      image_mset (message n) (filter_mset (\<lambda>f. f \<in> fdset \<and> talks n f \<and> f \<noteq> g) (mset ?R))" for g
    using box1 ne by (intro relayed_mset_cong) blast
  have mem: "f \<in> set (hub_list h') \<longleftrightarrow>
      f \<in> set (take i (hub_list h)) \<or> f \<in> set (drop i (hub_list h)) \<and> \<not> (f \<in> fdset \<and> ends n f)" for f
    using S stays same [of f] unfolding served_def sets by (cases "f = fd") auto
  have rest: "hung_up n' g = hung_up n g"
    "inbox n' g = (if g \<in> set (drop i (hub_list h)) \<and> g \<in> fdset \<and> talks n g then tl (inbox n g) else inbox n g)"
    if g: "g \<in> set (hub_list h')" for g
    using S g parts(4) same [of g] box box1 [of g] unfolding served_def sets T_def by (cases "g = fd"; simp)+
  have "\<exists>ms. outbox n' g = outbox n g @ ms \<and>
       mset ms = image_mset (message n) (filter_mset (\<lambda>f. f \<in> fdset \<and> talks n f \<and> f \<noteq> g) (mset (drop i (hub_list h))))"
    if g: "g \<in> set (hub_list h')" "\<not> hung_up n g" for g
  proof -
    from S g box(2) obtain ms where ms: "outbox n' g = outbox n1 g @ ms"
      "mset ms = image_mset (message n) (filter_mset (\<lambda>f. f \<in> fdset \<and> talks n f \<and> f \<noteq> g) (mset ?R))"
      unfolding served_def using sums by auto
    show ?thesis
      using ms out [OF served_subset [OF S g(1)] g(2)] parts(1)
      by (cases "T \<and> g \<noteq> fd") (auto simp: T_def)
  qed
  with mem rest show ?thesis unfolding served_def by blast
qed


text \<open>A descriptor is closed: the last one takes its place.\<close>

lemma served_close:
  fixes h n i fdset
  defines "fd \<equiv> hub_list h ! i"
  assumes S: "served fdset i h1 (hub_close fd n) h' n'" and dist: "distinct (hub_list h)" and i: "i < length (hub_list h)"
    and h1: "hub_list h1 = butlast ((hub_list h)[i := last (hub_list h)])" and fd: "fd \<in> fdset" "ends n fd"
  shows "served fdset i h n h' n'"
proof -
  let ?R = "drop (Suc i) (hub_list h)" and ?n1 = "hub_close fd n"
  note parts = parts_fresh [OF dist i, folded fd_def]
  have L1: "take i (hub_list h1) = take i (hub_list h)" "mset (drop i (hub_list h1)) = mset ?R"
    using swap_remove_parts [OF i] by (simp_all add: h1)
  have R1: "set (drop i (hub_list h1)) = set ?R" using L1(2) by (metis set_mset_mset)
  have D: "set (drop i (hub_list h)) = insert fd (set ?R)" "mset (drop i (hub_list h)) = add_mset fd (mset ?R)"
    using parts(1) by simp_all
  have box: "inbox ?n1 f = inbox n f" "hung_up ?n1 f = hung_up n f" "outbox ?n1 f = outbox n f" if "f \<noteq> fd" for f
    using that by (simp_all add: hub_close_def)
  have same: "ends ?n1 f = ends n f" "talks ?n1 f = talks n f" if "f \<noteq> fd" for f
    by (simp_all only: inbox_cong [OF box(1) [OF that]] box(2) [OF that])
  have sums: "image_mset (message ?n1) (filter_mset (\<lambda>f. f \<in> fdset \<and> talks ?n1 f \<and> f \<noteq> g) (mset ?R)) =
      image_mset (message n) (filter_mset (\<lambda>f. f \<in> fdset \<and> talks n f \<and> f \<noteq> g) (mset ?R))" for g
    by (intro relayed_mset_cong box(1)) (metis parts(4))
  have ntalks: "\<not> talks n fd" using fd(2) by (auto simp: ends_def talks_def)
  have mem: "f \<in> set (hub_list h') \<longleftrightarrow>
      f \<in> set (take i (hub_list h)) \<or> f \<in> set (drop i (hub_list h)) \<and> \<not> (f \<in> fdset \<and> ends n f)" for f
    using S parts(3,4) fd same(1) [of f] unfolding served_def L1 R1 D by (cases "f = fd") auto
  have ne: "g \<noteq> fd" if "g \<in> set (hub_list h')" for g
    using that parts(3) fd unfolding mem by blast
  have "hung_up n' g = hung_up n g \<and>
        inbox n' g = (if g \<in> set (drop i (hub_list h)) \<and> g \<in> fdset \<and> talks n g then tl (inbox n g) else inbox n g) \<and>
        (\<not> hung_up n g \<longrightarrow> (\<exists>ms. outbox n' g = outbox n g @ ms \<and>
           mset ms = image_mset (message n) (filter_mset (\<lambda>f. f \<in> fdset \<and> talks n f \<and> f \<noteq> g) (mset (drop i (hub_list h))))))"
    if g: "g \<in> set (hub_list h')" for g
    using bspec [OF conjunct2 [OF S [unfolded served_def L1 R1]] g] ne [OF g] ntalks
    unfolding D box [OF ne [OF g]] same [OF ne [OF g]] sums by simp
  with mem show ?thesis unfolding served_def by blast
qed

lemma hub_list_swap:
  assumes "i < fd_count h" "fd_count h \<le> length (hub_fds h)"
  shows "hub_list (h\<lparr>hub_buffer := b, hub_fds := (hub_fds h)[i := hub_fds h ! (fd_count h - 1)], fd_count := fd_count h - 1\<rparr>) =
    butlast ((hub_list h)[i := last (hub_list h)])"
proof -
  have "last (hub_list h) = hub_fds h ! (fd_count h - 1)"
    using assms by (subst last_conv_nth) (auto simp: hub_list_def)
  then show ?thesis
    using assms by (intro nth_equalityI) (auto simp: hub_list_def nth_butlast nth_list_update)
qed

lemma hub_inv_swap:
  assumes "hub_inv sock h" "hub_list h1 = butlast ((hub_list h)[i := last (hub_list h)])" "i < length (hub_list h)"
    and "length (hub_buffer h1) = HUB_BUFFER" "length (hub_fds h1) = HUB_FDS" "fd_count h1 \<le> HUB_FDS"
  shows "hub_inv sock h1"
proof -
  have "mset (hub_list h1) = mset (hub_list h) - {#hub_list h ! i#}"
    using assms(2,3) by (simp add: mset_swap_remove)
  from distinct_swap_remove [where f = id, OF _ assms(3) this] assms(1)
  have "set (hub_list h1) \<subseteq> set (hub_list h)" "distinct (hub_list h1)" by (auto simp: hub_inv_def)
  with assms show ?thesis by (auto simp: hub_inv_def)
qed

lemma serve_ok:
  assumes "hub_inv sock h"
  shows "\<exists>h' n'. serve fdset i h n = Inr (h', n') \<and> hub_inv sock h' \<and> served fdset i h n h' n'"
  using assms
proof (induction fdset i h n rule: serve.induct)
  case (1 fdset i h n)
  let ?L = "hub_list h" and ?fd = "hub_list h ! i"
  have inv: "fd_count h \<le> length (hub_fds h)" "distinct ?L" "length (hub_buffer h) = HUB_BUFFER"
    using "1.prems" by (auto simp: hub_inv_def)
  show ?case
  proof (cases "i < fd_count h")
    case False
    then show ?thesis
      using "1.prems" inv(1) by (subst serve.simps) (auto simp: served_def length_hub_list)
  next
    case i: True
    then have iL: "i < length ?L" "arr_get (hub_fds h) i = Inr ?fd" "i < length (hub_fds h)"
      using inv(1) by (auto simp: hub_list_def)
    consider (skip) "?fd \<notin> fdset" | (talk) "?fd \<in> fdset" "talks n ?fd" | (silent) "?fd \<in> fdset" "\<not> talks n ?fd" "\<not> ends n ?fd"
      | (close) "?fd \<in> fdset" "ends n ?fd" by blast
    then show ?thesis
    proof cases
      case skip
      from "1.IH"(3) [OF i iL(2) skip "1.prems"] obtain h' n' where r: "serve fdset (i + 1) h n = Inr (h', n')"
        "hub_inv sock h'" "served fdset (i + 1) h n h' n'" by blast
      have "served fdset i h n h' n'" using skip by (intro served_step [OF r(3) inv(2) iL(1)]) auto
      with r i iL skip show ?thesis by (subst serve.simps) simp
    next
      case talk
      let ?m = "message n ?fd" and ?n0 = "n\<lparr>inbox := (inbox n)(?fd := tl (inbox n ?fd))\<rparr>"
      note rd = hub_read_talks [OF talk(2)]
      obtain b where b: "mem_copy 0 ?m (length ?m) (hub_buffer h) = Inr b" "length b = HUB_BUFFER" "take (length ?m) b = ?m"
        using rd inv(3) by (auto simp: mem_copy_def)
      let ?h = "h\<lparr>hub_buffer := b\<rparr>" and ?n1 = "?n0\<lparr>outbox := relayed i (int (length ?m)) (h\<lparr>hub_buffer := b\<rparr>) ?n0 (set ?L)\<rparr>"
      have inv': "hub_inv sock ?h" using "1.prems" b(2) by (simp add: hub_inv_def)
      have rl: "relay i (int (length ?m)) ?h ?n0 = Inr ?n1"
        using relay_ok [of ?h i] inv(1,2) i by simp
      from "1.IH"(2) [OF i iL(2) talk(1) conjunct1 [OF rd, symmetric] refl b(1) _ rl inv'] rd
      obtain h' n' where r: "serve fdset (i + 1) ?h ?n1 = Inr (h', n')" "hub_inv sock h'" "served fdset (i + 1) ?h ?n1 h' n'"
        by auto
      have "served fdset i ?h n h' n'"
        using talk rd b inv iL(1)
        by (intro served_step [OF r(3)]) (auto simp: relayed_def ends_def talks_def)
      then have "served fdset i h n h' n'" by (simp add: served_def)
      with r i iL talk(1) rd b(1) rl show ?thesis by (subst serve.simps) auto
    next
      case silent
      note rd = hub_read_silent [OF silent(3,2)]
      have b: "mem_copy 0 [] (length []) (hub_buffer h) = Inr (hub_buffer h)" by (simp add: mem_copy_def)
      have rl: "relay i (- 1) (h\<lparr>hub_buffer := hub_buffer h\<rparr>) n = Inr n"
        using relay_ok [OF inv(1,2) i, of "- 1" n] by (simp add: relayed_def [abs_def])
      have inv': "hub_inv sock (h\<lparr>hub_buffer := hub_buffer h\<rparr>)" using "1.prems" by simp
      from "1.IH"(2) [OF i iL(2) silent(1) rd [symmetric] refl b _ rl inv']
      obtain h' n' where r: "serve fdset (i + 1) h n = Inr (h', n')" "hub_inv sock h'" "served fdset (i + 1) h n h' n'"
        by auto
      have "served fdset i h n h' n'"
        using silent by (intro served_step [OF r(3) inv(2) iL(1)]) auto
      with r i iL silent(1) rd b rl show ?thesis by (subst serve.simps) simp
    next
      case close
      from hub_read_ends [OF close(2)] obtain n0 where rd: "hub_read ?fd HUB_BUFFER n = ((0, []), n0)" "hub_close ?fd n0 = hub_close ?fd n"
        by blast
      have b: "mem_copy 0 [] (length []) (hub_buffer h) = Inr (hub_buffer h)" by (simp add: mem_copy_def)
      let ?xs = "(hub_fds h)[i := hub_fds h ! (fd_count h - 1)]"
      let ?h = "h\<lparr>hub_buffer := hub_buffer h, hub_fds := ?xs, fd_count := fd_count h - 1\<rparr>"
      have L1: "hub_list ?h = butlast (?L[i := last ?L])" by (rule hub_list_swap [OF i inv(1)])
      have inv': "hub_inv sock ?h"
        by (rule hub_inv_swap [OF "1.prems" L1 iL(1)]) (use "1.prems" in \<open>auto simp: hub_inv_def\<close>)
      have g: "arr_get (hub_fds h) (fd_count h - 1) = Inr (hub_fds h ! (fd_count h - 1))" "arr_set (hub_fds h) i (hub_fds h ! (fd_count h - 1)) = Inr ?xs"
        using i inv(1) by auto
      from "1.IH"(1) [OF i iL(2) close(1) rd(1) [symmetric] refl b refl g inv']
      obtain h' n' where r: "serve fdset i ?h (hub_close ?fd n0) = Inr (h', n')" "hub_inv sock h'" "served fdset i ?h (hub_close ?fd n) h' n'"
        unfolding rd(2) by auto
      from served_close [OF r(3) inv(2) iL(1) L1 close] have "served fdset i h n h' n'" .
      with r i iL close(1) rd b g show ?thesis by (subst serve.simps) simp
    qed
  qed
qed


lemma build_set_to:
  assumes "hub_inv sock h" "0 \<le> sock" "sock < SELECT_SETSIZE" "k \<le> fd_count h"
  shows "\<exists>m. foldE (\<lambda>(fdset, fd_max) i.
       bindE (arr_get (hub_fds h) i) (\<lambda>fd.
       bindE (fd_set_add fd fdset) (\<lambda>fdset.
       Inr (fdset, if fd > fd_max then fd else fd_max))))
       ({sock}, sock) [0..<k] = Inr (insert sock (set (take k (hub_list h))), m) \<and>
     (\<forall>fd \<in> insert sock (set (take k (hub_list h))). fd \<le> m)"
  using assms(4)
proof (induction k)
  case (Suc k)
  let ?L = "hub_list h"
  have k: "k < length ?L" "k < length (hub_fds h)" "hub_fds h ! k = ?L ! k"
    using Suc.prems assms(1) by (auto simp: hub_inv_def hub_list_def)
  then have fd: "0 \<le> ?L ! k" "?L ! k < SELECT_SETSIZE" using assms(1) nth_mem [of k ?L] unfolding hub_inv_def by blast+
  have s: "set (take (Suc k) ?L) = insert (?L ! k) (set (take k ?L))"
    using k(1) by (simp add: take_Suc_conv_app_nth)
  from Suc obtain m where m: "foldE (\<lambda>(fdset, fd_max) i.
       bindE (arr_get (hub_fds h) i) (\<lambda>fd. bindE (fd_set_add fd fdset) (\<lambda>fdset.
       Inr (fdset, if fd > fd_max then fd else fd_max)))) ({sock}, sock) [0..<k] = Inr (insert sock (set (take k ?L)), m)"
     "\<forall>fd \<in> insert sock (set (take k ?L)). fd \<le> m" by auto
  show ?case
    using m k fd unfolding s
    by (intro exI [of _ "if ?L ! k > m then ?L ! k else m"])
      (auto simp: foldE_append fd_set_add_def insert_commute)
qed simp

lemma build_set_ok:
  assumes "hub_inv sock h" "0 \<le> sock" "sock < SELECT_SETSIZE"
  shows "\<exists>m. build_set sock h = Inr (insert sock (set (hub_list h)), m) \<and> (\<forall>fd \<in> insert sock (set (hub_list h)). fd \<le> m)"
  using build_set_to [OF assms order_refl] assms
  by (simp add: build_set_def fd_set_add_def hub_inv_def length_hub_list)

lemma hub_select_ready:
  assumes "hub_inv sock h" "0 \<le> sock" "\<forall>fd \<in> insert sock (set (hub_list h)). fd \<le> m" "\<not> select_fails n"
  shows "\<exists>ret. hub_select sock (m + 1) (insert sock (set (hub_list h))) n =
    (ret, {fd \<in> insert sock (set (hub_list h)). sock_readable sock n fd}) \<and> \<not> ret < 0"
  using assms by (auto simp: hub_select_def Let_def hub_inv_def intro!: Collect_cong)

text \<open>
  C14. One iteration of the hub, when no new node connects: every node that has sent a message has it
  relayed, once, to each of the other nodes and not to itself, after what these were sent before.
  Nodes that have hung up are dropped from the table, and no others, although entries are moved while
  the loop runs. The loop ends and stays within the arrays.
\<close>

theorem hub_relays_once:
  assumes inv: "hub_inv sock h" and sock: "0 \<le> sock" "sock < SELECT_SETSIZE" and n: "waiting n = []" "\<not> select_fails n"
  shows "\<exists>h' n'. hub_iteration sock (h, n) = Inr (h', n') \<and> hub_inv sock h' \<and>
    set (hub_list h') = {fd \<in> set (hub_list h). \<not> ends n fd} \<and>
    (\<forall>g \<in> set (hub_list h'). inbox n' g = (if talks n g then tl (inbox n g) else inbox n g) \<and>
       (\<not> hung_up n g \<longrightarrow> (\<exists>ms. outbox n' g = outbox n g @ ms \<and>
          mset ms = image_mset (message n) (filter_mset (\<lambda>f. talks n f \<and> f \<noteq> g) (mset (hub_list h))))))"
proof -
  let ?L = "hub_list h"
  from build_set_ok [OF inv sock] obtain m where m: "build_set sock h = Inr (insert sock (set ?L), m)"
    "\<forall>fd \<in> insert sock (set ?L). fd \<le> m" by blast
  let ?ready = "{fd \<in> insert sock (set ?L). sock_readable sock n fd}"
  from hub_select_ready [OF inv sock(1) m(2) n(2)] obtain ret where ret:
    "hub_select sock (m + 1) (insert sock (set ?L)) n = (ret, ?ready)" "\<not> ret < 0" by blast
  have acc: "accept_new sock ?ready (h, n) = Inr (h, n)"
    using n(1) by (simp add: accept_new_def sock_readable_def)
  obtain h' n' where r: "serve ?ready 0 h n = Inr (h', n')" "hub_inv sock h'" "served ?ready 0 h n h' n'"
    using serve_ok [OF inv] by blast
  have ns: "fd \<noteq> sock" if "fd \<in> set ?L" for fd using that inv by (auto simp: hub_inv_def)
  have rd: "fd \<in> ?ready \<longleftrightarrow> inbox n fd \<noteq> [] \<or> hung_up n fd" if "fd \<in> set ?L" for fd
    using that ns by (auto simp: sock_readable_def)
  have ends: "fd \<in> ?ready \<and> ends n fd \<longleftrightarrow> ends n fd" "fd \<in> ?ready \<and> talks n fd \<longleftrightarrow> talks n fd" if "fd \<in> set ?L" for fd
    using rd [OF that] by (auto simp: ends_def talks_def split: list.splits)
  have sums: "filter_mset (\<lambda>f. f \<in> ?ready \<and> talks n f \<and> f \<noteq> g) (mset ?L) = filter_mset (\<lambda>f. talks n f \<and> f \<noteq> g) (mset ?L)" for g
    using ends(2) by (intro filter_mset_cong) auto
  have "hub_iteration sock (h, n) = Inr (h', n')"
    using m(1) ret acc r(1) by (simp add: hub_iteration_def)
  moreover have "set (hub_list h') = {fd \<in> set ?L. \<not> ends n fd}"
    using r(3) ends(1) unfolding served_def by auto
  moreover have "inbox n' g = (if talks n g then tl (inbox n g) else inbox n g) \<and>
       (\<not> hung_up n g \<longrightarrow> (\<exists>ms. outbox n' g = outbox n g @ ms \<and>
          mset ms = image_mset (message n) (filter_mset (\<lambda>f. talks n f \<and> f \<noteq> g) (mset ?L))))"
    if g: "g \<in> set (hub_list h')" for g
    using bspec [OF conjunct2 [OF r(3) [unfolded served_def drop_0 sums]] g] ends(2) [OF served_subset [OF r(3) g]]
      served_subset [OF r(3) g] by (simp only: simp_thms) blast
  ultimately show ?thesis using r(2) by blast
qed

text \<open>
  The table has room for 256 nodes, and the hub does not check it: the next node that connects
  makes it write outside the array.
\<close>

theorem hub_full:
  assumes "hub_inv sock h" "0 \<le> sock" "sock < SELECT_SETSIZE" "fd_count h = HUB_FDS"
    and "waiting n = new # fds" "0 \<le> new" "\<not> select_fails n"
  shows "hub_iteration sock (h, n) = Inl Out_Of_Bounds"
proof -
  from build_set_ok [OF assms(1-3)] obtain m where m: "build_set sock h = Inr (insert sock (set (hub_list h)), m)"
    "\<forall>fd \<in> insert sock (set (hub_list h)). fd \<le> m" by blast
  from hub_select_ready [OF assms(1,2) m(2) assms(7)] m(1) assms show ?thesis
    by (auto simp: hub_iteration_def accept_new_def sock_readable_def hub_accept_def arr_set_def hub_inv_def)
qed

end
