(* ===== verification/Mlx5_Transport.thy ===== *)
theory Mlx5_Transport
  imports NB_State
begin

text \<open>
  The transport over mlx5 network cards (\<open>runtime/mlx5_impl/transport.cc\<close>,
  \<open>runtime/mlx5_impl/transport.h\<close>, \<open>runtime/nb_mlx5_transport.cc\<close>). Packets
  arrive in strides of 1024 bytes of eight buffers with 512 strides each; the card reports progress
  in a ring of eight completion entries, which the code reads without the library. The code works on
  addresses; the card is modelled by the entries it writes, and the verbs library by the results of
  its calls.
\<close>

section \<open>State\<close>

definition MAX_INLINE_DATA_SIZE :: int where "MAX_INLINE_DATA_SIZE = 972"
definition IBV_FRAME_SIZE :: u64 where "IBV_FRAME_SIZE = 1024"
definition MLX5_ETH_INLINE_HEADER_SIZE :: int where "MLX5_ETH_INLINE_HEADER_SIZE = 18"
definition MLX5_MTU :: int where "MLX5_MTU = 1024"

text \<open>An entry of the completion ring; both members are in network order.\<close>

record mlx5_cqe64 =
  wqe_id :: u16
  wqe_counter :: u16

record ibv_sge =
  sge_addr :: u64
  sge_length :: u32
  sge_lkey :: u32

record ibv_recv_wr =
  recv_wr_id :: nat
  recv_wr_sg :: ibv_sge

record ibv_send_wr =
  send_inline :: bool
  send_sg :: ibv_sge

text \<open>
  \<open>recv_cqes\<close> is the ring the card writes; \<open>posted_recvs\<close> and
  \<open>posted_sends\<close> are the requests that were handed to the card. \<open>pending_recv\<close>
  is the counter of \<open>nb_mlx5_transport.cc\<close>.
\<close>

record transport_t =
  send_buffer :: u64
  recv_buffer :: u64
  mp_recv_sge :: "ibv_sge list"
  send_key :: u32
  recv_key :: u32
  per_size :: u64
  send_buffer_index :: int
  recv_buffer_index :: int
  recv_cqes :: "mlx5_cqe64 list"
  cqe_idx :: nat
  recv_index_cycle :: u64
  recv_index_to_post :: int
  recvs_to_post :: int
  sends_to_signal :: int
  posted_recvs :: "ibv_recv_wr list"
  posted_sends :: "ibv_send_wr list"
  pending_recv :: int

definition int_add :: "int \<Rightarrow> int \<Rightarrow> int res" where
  "int_add a b = (if - (2 ^ 31) \<le> a + b \<and> a + b < 2 ^ 31 then Inr (a + b) else Inl Signed_Overflow)"

definition get_recv_cycle :: "int \<Rightarrow> int \<Rightarrow> u64" where
  "get_recv_cycle wid counter = word_of_int (wid * 512 + counter)"

section \<open>Setting up the buffers\<close>

text \<open>
  The end of \<open>mlx5_try_transport\<close>: the completion ring is filled as if all strides had been
  used, and the eight buffers are posted. \<open>num_cqe\<close> is the number of entries of the ring,
  \<open>rbuf\<close> and \<open>sbuf\<close> are the results of the two allocations, \<open>post_ok k\<close>
  the result of call \<open>k\<close> of \<open>ibv_post_wq_recv\<close>.
\<close>

definition shape_cq :: "nat \<Rightarrow> transport_t \<Rightarrow> transport_t" where
  "shape_cq num_cqe tr =
     tr\<lparr>recv_cqes := replicate num_cqe \<lparr>wqe_id = htons 0xffff, wqe_counter = htons 511\<rparr>,
        recv_index_cycle := get_recv_cycle 0xffff 511, cqe_idx := 0\<rparr>"

definition fill_recv_wr :: "int \<Rightarrow> transport_t \<Rightarrow> ibv_recv_wr" where
  "fill_recv_wr idx tr =
     \<lparr>recv_wr_id = nat idx,
      recv_wr_sg = \<lparr>sge_addr = recv_buffer tr + per_size tr * word_of_int idx, sge_length = ucast (per_size tr),
        sge_lkey = recv_key tr\<rparr>\<rparr>"

definition post_wq_recv :: "(nat \<Rightarrow> bool) \<Rightarrow> string \<Rightarrow> int \<Rightarrow> transport_t \<Rightarrow> transport_t res" where
  "post_wq_recv post_ok msg idx tr =
     (let wr = fill_recv_wr idx tr in
      bindE (arr_set (mp_recv_sge tr) (nat idx) (recv_wr_sg wr)) (\<lambda>sges.
      bindE (guardE (post_ok (length (posted_recvs tr))) (Assert_Fail msg)) (\<lambda>_.
      Inr (tr\<lparr>mp_recv_sge := sges, posted_recvs := posted_recvs tr @ [wr]\<rparr>))))"

definition setup_recv :: "(nat \<Rightarrow> bool) \<Rightarrow> nat \<Rightarrow> u64 \<times> u32 \<Rightarrow> transport_t \<Rightarrow> transport_t res" where
  "setup_recv post_ok num_cqe rbuf tr =
     (let tr = shape_cq num_cqe tr in
      bindE (guardE (fst rbuf \<noteq> 0) (Assert_Fail ''Failed to allocate recv buffer'')) (\<lambda>_.
      let tr = tr\<lparr>per_size := IBV_FRAME_SIZE * 512, recv_buffer := fst rbuf + 4096, recv_key := snd rbuf\<rparr> in
      foldE (\<lambda>tr i. post_wq_recv post_ok ''Failed to post wq_recv'' (int i) tr) tr [0..<8]))"

definition setup_send :: "u64 \<times> u32 \<Rightarrow> transport_t \<Rightarrow> transport_t" where
  "setup_send sbuf tr =
     tr\<lparr>send_buffer := fst sbuf, send_key := snd sbuf, send_buffer_index := 0, recv_buffer_index := 0,
        recvs_to_post := 0, sends_to_signal := 0, recv_index_to_post := 0\<rparr>"

section \<open>Sending\<close>

definition mlx5_try_send :: "(nat \<Rightarrow> bool) \<Rightarrow> u64 \<Rightarrow> int \<Rightarrow> transport_t \<Rightarrow> (int \<times> transport_t) res" where
  "mlx5_try_send post_ok buffer len tr =
     (let sgl = \<lparr>sge_addr = buffer, sge_length = word_of_int len, sge_lkey = send_key tr\<rparr>;
          wr = \<lparr>send_inline = (len < MAX_INLINE_DATA_SIZE + MLX5_ETH_INLINE_HEADER_SIZE), send_sg = sgl\<rparr> in
      bindE (guardE (post_ok (length (posted_sends tr))) (Assert_Fail ''Failed to post send'')) (\<lambda>_.
      bindE (int_add (sends_to_signal tr) 1) (\<lambda>k.
      Inr (0, tr\<lparr>posted_sends := posted_sends tr @ [wr], sends_to_signal := k\<rparr>))))"

definition mlx5_get_next_send_buffer :: "transport_t \<Rightarrow> u64 \<times> transport_t" where
  "mlx5_get_next_send_buffer tr =
     (send_buffer tr + IBV_FRAME_SIZE * word_of_int (send_buffer_index tr),
      tr\<lparr>send_buffer_index := (send_buffer_index tr + 1) mod 512\<rparr>)"

section \<open>Receiving\<close>

definition total_cycles :: u64 where "total_cycles = 65536 * 512"

definition get_packet_count :: "transport_t \<Rightarrow> (int \<times> transport_t) res" where
  "get_packet_count tr =
     bindE (arr_get (recv_cqes tr) (cqe_idx tr)) (\<lambda>cqe.
     let wid = uint (ntohs (wqe_id cqe)); counter = uint (ntohs (wqe_counter cqe));
         new_cycle = get_recv_cycle wid counter;
         diff = (new_cycle + total_cycles - recv_index_cycle tr) mod total_cycles in
     if diff = 0 \<or> diff > 4096 then Inr (0, tr)
     else Inr (uint diff, tr\<lparr>cqe_idx := (cqe_idx tr + 1) mod 8, recv_index_cycle := new_cycle\<rparr>))"

text \<open>The loop of \<open>mlx5_try_recv\<close>: every 512 packets one buffer is posted again.\<close>

function repost :: "(nat \<Rightarrow> bool) \<Rightarrow> transport_t \<Rightarrow> transport_t res" where
  "repost post_ok tr =
     (if recvs_to_post tr \<ge> 512 then
        (let idx = recv_index_to_post tr; tr = tr\<lparr>recv_index_to_post := (idx + 1) mod 8\<rparr> in
         bindE (post_wq_recv post_ok ''Failed to post recv_wq'' idx tr) (\<lambda>tr'.
         repost post_ok (tr'\<lparr>recvs_to_post := recvs_to_post tr - 512\<rparr>)))
      else Inr tr)"
  by pat_completeness auto
termination
  by (relation "measure (\<lambda>(ok, tr). nat (recvs_to_post tr))") auto

definition mlx5_try_recv :: "(nat \<Rightarrow> bool) \<Rightarrow> transport_t \<Rightarrow> (int \<times> transport_t) res" where
  "mlx5_try_recv post_ok tr =
     bindE (get_packet_count tr) (\<lambda>(ret, tr).
     bindE (int_add (recvs_to_post tr) ret) (\<lambda>k.
     bindE (repost post_ok (tr\<lparr>recvs_to_post := k\<rparr>)) (\<lambda>tr.
     Inr (ret, tr))))"

definition mlx5_get_next_recv_buffer :: "transport_t \<Rightarrow> u64 \<times> transport_t" where
  "mlx5_get_next_recv_buffer tr =
     (recv_buffer tr + IBV_FRAME_SIZE * word_of_int (recv_buffer_index tr),
      tr\<lparr>recv_buffer_index := (recv_buffer_index tr + 1) mod 4096\<rparr>)"

section \<open>The interface of the transport\<close>

definition mlx5_request_send_buffer :: "transport_t \<Rightarrow> u64 \<times> transport_t" where
  "mlx5_request_send_buffer tr = mlx5_get_next_send_buffer tr"

definition mlx5_return_send_buffer :: "u64 \<Rightarrow> transport_t \<Rightarrow> u64 \<times> transport_t" where
  "mlx5_return_send_buffer buff tr = (0, tr)"

definition mlx5_send_packet :: "(nat \<Rightarrow> bool) \<Rightarrow> u64 \<Rightarrow> int \<Rightarrow> transport_t \<Rightarrow> (int \<times> transport_t) res" where
  "mlx5_send_packet post_ok buff len tr =
     bindE (mlx5_try_send post_ok buff len tr) (\<lambda>(_, tr). Inr (len, tr))"

text \<open>The result is the address of the packet, null when there is none, and \<open>*size\<close>.\<close>

definition mlx5_poll_packet :: "(nat \<Rightarrow> bool) \<Rightarrow> int \<Rightarrow> transport_t \<Rightarrow> ((u64 \<times> int) \<times> transport_t) res" where
  "mlx5_poll_packet post_ok headroom tr =
     bindE (if pending_recv tr = 0
            then bindE (mlx5_try_recv post_ok tr) (\<lambda>(n, tr). Inr (tr\<lparr>pending_recv := n\<rparr>)) else Inr tr) (\<lambda>tr.
     if pending_recv tr \<noteq> 0 then
       (case mlx5_get_next_recv_buffer tr of (packet_addr, tr) \<Rightarrow>
        Inr ((packet_addr - word_of_int headroom, MLX5_MTU), tr\<lparr>pending_recv := pending_recv tr - 1\<rparr>))
     else Inr ((0, 0), tr))"


section \<open>The card\<close>

text \<open>
  The card reports packets in completions. After \<open>k\<close> packets the position is
  \<open>k - 1\<close>, counted modulo 65536 requests of 512 strides, and the completion with number
  \<open>j\<close> is written to entry \<open>j mod 8\<close>.
\<close>

definition T_cycles :: nat where "T_cycles = 65536 * 512"

definition position :: "nat \<Rightarrow> nat" where
  "position k = (k + T_cycles - 1) mod T_cycles"

definition cqe_of :: "nat \<Rightarrow> mlx5_cqe64" where
  "cqe_of pos = \<lparr>wqe_id = htons (of_nat (pos div 512)), wqe_counter = htons (of_nat (pos mod 512))\<rparr>"

definition csum_to :: "nat list \<Rightarrow> nat \<Rightarrow> nat" where
  "csum_to cs j = sum_list (take j cs)"

definition card_complete :: "nat \<Rightarrow> nat list \<Rightarrow> transport_t \<Rightarrow> transport_t" where
  "card_complete c cs tr =
     tr\<lparr>recv_cqes := (recv_cqes tr)[length cs mod 8 := cqe_of (position (sum_list cs + c))]\<rparr>"

lemma position_less: "position k < T_cycles"
  by (simp add: position_def T_cycles_def)

lemma cycle_of_cqe:
  assumes "pos < T_cycles"
  shows "get_recv_cycle (uint (ntohs (wqe_id (cqe_of pos)))) (uint (ntohs (wqe_counter (cqe_of pos)))) = of_nat pos"
proof -
  have "uint (of_nat (pos div 512) :: u16) = int (pos div 512)" "uint (of_nat (pos mod 512) :: u16) = int (pos mod 512)"
    using assms by (auto simp: T_cycles_def uint_nat unat_of_nat)
  then show ?thesis by (simp add: cqe_of_def get_recv_cycle_def) (metis div_mult_mod_eq of_int_of_nat_eq of_nat_add of_nat_mult of_nat_numeral)
qed

lemma unat_cycle: "x < 2 * T_cycles \<Longrightarrow> unat (of_nat x :: u64) = x"
  by (simp add: unat_of_nat T_cycles_def)

lemma cycle_diff:
  assumes "x < T_cycles" "y < T_cycles"
  shows "unat (((of_nat y :: u64) + total_cycles - of_nat x) mod total_cycles) = (y + T_cycles - x) mod T_cycles"
proof -
  have "(of_nat y :: u64) + total_cycles - of_nat x = of_nat (y + T_cycles - x)"
    using assms by (simp add: T_cycles_def total_cycles_def of_nat_diff)
  moreover have "unat (of_nat (y + T_cycles - x) :: u64) = y + T_cycles - x"
    using assms by (intro unat_cycle) auto
  moreover have "unat total_cycles = T_cycles" by (simp add: total_cycles_def T_cycles_def)
  ultimately show ?thesis by (simp add: unat_mod_distrib)
qed

lemma position_add: "position (a + d) = (position a + d) mod T_cycles"
  by (simp add: position_def T_cycles_def mod_simps ac_simps)

lemma position_forward: "d < T_cycles \<Longrightarrow> (position (a + d) + T_cycles - position a) mod T_cycles = d"
  using position_less [of a] unfolding position_add
  by (cases "position a + d < T_cycles") (auto simp: le_mod_geq not_less)

lemma position_back:
  "0 < d \<Longrightarrow> d < T_cycles \<Longrightarrow> (position a + T_cycles - position (a + d)) mod T_cycles = T_cycles - d"
  using position_less [of a] unfolding position_add
  by (cases "position a + d < T_cycles") (auto simp: le_mod_geq not_less)


section \<open>Every completion is counted once\<close>

text \<open>\<open>cs\<close> are the packets per completion so far, \<open>r\<close> of them have been read.\<close>

definition rx_inv :: "transport_t \<Rightarrow> nat list \<Rightarrow> nat \<Rightarrow> bool" where
  "rx_inv tr cs r \<longleftrightarrow> r \<le> length cs \<and> length cs \<le> r + 8 \<and> (\<forall>c \<in> set cs. 1 \<le> c \<and> c \<le> 4096) \<and>
     length (recv_cqes tr) = 8 \<and> cqe_idx tr = r mod 8 \<and> recv_index_cycle tr = of_nat (position (csum_to cs r)) \<and>
     (\<forall>j < length cs. length cs \<le> j + 8 \<longrightarrow> recv_cqes tr ! (j mod 8) = cqe_of (position (csum_to cs (Suc j)))) \<and>
     (\<forall>e < 8. length cs \<le> e \<longrightarrow> recv_cqes tr ! e = cqe_of (position 0))"

lemma csum_to_Suc: "j < length cs \<Longrightarrow> csum_to cs (Suc j) = csum_to cs j + cs ! j"
  by (simp add: csum_to_def take_Suc_conv_app_nth)

lemma csum_to_append: "j \<le> length cs \<Longrightarrow> csum_to (cs @ ds) j = csum_to cs j"
  by (simp add: csum_to_def)

lemma csum_to_all: "csum_to cs (length cs) = sum_list cs"
  by (simp add: csum_to_def)

lemma csum_to_le:
  assumes "\<forall>c \<in> set cs. 1 \<le> c \<and> c \<le> 4096" "i \<le> j" "j \<le> length cs"
  shows "csum_to cs i + (j - i) \<le> csum_to cs j \<and> csum_to cs j \<le> csum_to cs i + 4096 * (j - i)"
  using assms(2,3)
proof (induction j rule: dec_induct)
  case (step k)
  then have "1 \<le> cs ! k" "cs ! k \<le> 4096" using assms(1) by auto
  with step show ?case by (auto simp: csum_to_Suc Suc_diff_le)
qed simp

lemma card_complete_inv:
  assumes "rx_inv tr cs r" "length cs < r + 8" "1 \<le> c" "c \<le> 4096"
  shows "rx_inv (card_complete c cs tr) (cs @ [c]) r"
proof -
  have len: "csum_to (cs @ [c]) (Suc (length cs)) = sum_list cs + c" by (simp add: csum_to_def)
  have "recv_cqes (card_complete c cs tr) ! (j mod 8) = cqe_of (position (csum_to (cs @ [c]) (Suc j)))"
    if j: "j < Suc (length cs)" "Suc (length cs) \<le> j + 8" for j
  proof (cases "j = length cs")
    case True
    with assms(1) len show ?thesis by (simp add: card_complete_def rx_inv_def)
  next
    case False
    with j have "j < length cs" by simp
    moreover from False j have "j mod 8 \<noteq> length cs mod 8" by (intro mod_neq_near) auto
    ultimately show ?thesis
      using assms(1) j by (simp add: card_complete_def rx_inv_def csum_to_append)
  qed
  moreover have "recv_cqes (card_complete c cs tr) ! e = cqe_of (position 0)" if "e < 8" "Suc (length cs) \<le> e" for e
    using assms(1) that by (simp add: card_complete_def rx_inv_def)
  moreover have "r \<le> length cs" "\<forall>x \<in> set (cs @ [c]). 1 \<le> x \<and> x \<le> 4096" "length (recv_cqes tr) = 8" "cqe_idx tr = r mod 8"
    "recv_index_cycle tr = of_nat (position (csum_to (cs @ [c]) r))"
    using assms by (simp_all add: rx_inv_def csum_to_append)
  ultimately show ?thesis
    using assms(2) unfolding rx_inv_def by (simp add: card_complete_def)
qed

lemma packet_count_read:
  assumes inv: "rx_inv tr cs r" and r: "r < length cs"
  shows "\<exists>tr'. get_packet_count tr = Inr (int (cs ! r), tr') \<and> rx_inv tr' cs (Suc r) \<and>
    tr' = tr\<lparr>cqe_idx := cqe_idx tr', recv_index_cycle := recv_index_cycle tr'\<rparr>"
proof -
  let ?p = "position (csum_to cs (Suc r))"
  have c: "1 \<le> cs ! r" "cs ! r \<le> 4096" using inv r by (auto simp: rx_inv_def)
  have cqe: "recv_cqes tr ! (r mod 8) = cqe_of ?p" "cqe_idx tr = r mod 8" "length (recv_cqes tr) = 8"
    "recv_index_cycle tr = of_nat (position (csum_to cs r))" using inv r by (auto simp: rx_inv_def)
  let ?d = "(of_nat ?p + total_cycles - recv_index_cycle tr) mod total_cycles"
  have d: "unat ?d = cs ! r"
    unfolding cqe(4) cycle_diff [OF position_less position_less] csum_to_Suc [OF r]
    using c by (intro position_forward) (simp add: T_cycles_def)
  have "w \<noteq> 0 \<and> \<not> w > 4096" if "unat w = cs ! r" for w :: u64
    using that c by (auto simp: word_less_nat_alt)
  from this [OF d] have ok: "\<not> (?d = 0 \<or> ?d > 4096)" by simp
  have "uint ?d = int (cs ! r)" using d by (simp add: uint_nat)
  with ok have g: "get_packet_count tr = Inr (int (cs ! r), tr\<lparr>cqe_idx := (r mod 8 + 1) mod 8, recv_index_cycle := of_nat ?p\<rparr>)"
    unfolding get_packet_count_def by (simp add: cqe(1-3) cycle_of_cqe [OF position_less] Let_def)
  have "rx_inv (tr\<lparr>cqe_idx := (r mod 8 + 1) mod 8, recv_index_cycle := of_nat ?p\<rparr>) cs (Suc r)"
    using inv r by (auto simp: rx_inv_def mod_Suc_eq)
  with g show ?thesis by fastforce
qed

lemma packet_count_none:
  assumes inv: "rx_inv tr cs r" and r: "r = length cs"
  shows "get_packet_count tr = Inr (0, tr)"
proof -
  obtain p d where p: "recv_cqes tr ! (r mod 8) = cqe_of (position p)" "csum_to cs r = p + d" "d \<le> 4096 * 7"
  proof (cases "r < 8")
    case True
    have "csum_to cs r \<le> csum_to cs 0 + 4096 * (r - 0)"
      using inv r by (intro csum_to_le [THEN conjunct2]) (auto simp: rx_inv_def)
    with True inv r that [of 0 "csum_to cs r"] show ?thesis by (auto simp: rx_inv_def csum_to_def)
  next
    case False
    have "recv_cqes tr ! ((r - 8) mod 8) = cqe_of (position (csum_to cs (Suc (r - 8))))"
      using inv r False by (auto simp: rx_inv_def)
    moreover have "(r - 8) mod 8 = r mod 8" using False by (simp add: le_mod_geq)
    moreover have "csum_to cs (r - 7) + 7 \<le> csum_to cs r \<and> csum_to cs r \<le> csum_to cs (r - 7) + 4096 * 7"
      using inv r False csum_to_le [of cs "r - 7" r] by (auto simp: rx_inv_def)
    moreover have "Suc (r - 8) = r - 7" using False by simp
    ultimately show ?thesis by (intro that [of "csum_to cs (r - 7)" "csum_to cs r - csum_to cs (r - 7)"]) (simp, linarith, linarith)
  qed
  have cqe: "cqe_idx tr = r mod 8" "length (recv_cqes tr) = 8" "recv_index_cycle tr = of_nat (position (p + d))"
    using inv p(2) by (auto simp: rx_inv_def)
  let ?d = "(of_nat (position p) + total_cycles - recv_index_cycle tr) mod total_cycles"
  have "unat ?d = (if d = 0 then 0 else T_cycles - d)"
    unfolding cqe(3) cycle_diff [OF position_less position_less]
    using p(3) position_back [of d p] by (auto simp: T_cycles_def)
  moreover have "w = 0 \<or> w > 4096" if "unat w = (if d = 0 then 0 else T_cycles - d)" for w :: u64
    using that p(3) by (auto simp: word_less_nat_alt T_cycles_def unat_eq_0 split: if_splits)
  ultimately have "?d = 0 \<or> ?d > 4096" by blast
  then show ?thesis
    unfolding get_packet_count_def by (simp add: cqe(1,2) p(1) cycle_of_cqe [OF position_less] Let_def)
qed


section \<open>Buffers are posted in turn\<close>

text \<open>
  The card has been given request \<open>i\<close> with buffer \<open>i mod 8\<close>, and with
  \<open>k\<close> packets counted there have been \<open>8 + k div 512\<close> requests.
\<close>

definition post_inv :: "transport_t \<Rightarrow> nat \<Rightarrow> bool" where
  "post_inv tr k \<longleftrightarrow> length (mp_recv_sge tr) = 8 \<and> length (posted_recvs tr) = 8 + k div 512 \<and>
     (\<forall>i < length (posted_recvs tr). posted_recvs tr ! i = fill_recv_wr (int (i mod 8)) tr) \<and>
     recvs_to_post tr = int (k mod 512) \<and> recv_index_to_post tr = int ((k div 512) mod 8)"

declare repost.simps [simp del]

text \<open>Only the requests and their counters change.\<close>

definition post_frame :: "transport_t \<Rightarrow> transport_t \<Rightarrow> bool" where
  "post_frame tr tr' \<longleftrightarrow> recv_buffer tr' = recv_buffer tr \<and> per_size tr' = per_size tr \<and> recv_key tr' = recv_key tr \<and>
     recv_cqes tr' = recv_cqes tr \<and> cqe_idx tr' = cqe_idx tr \<and> recv_index_cycle tr' = recv_index_cycle tr \<and>
     recv_buffer_index tr' = recv_buffer_index tr \<and> pending_recv tr' = pending_recv tr"

lemma fill_recv_wr_cong:
  "recv_buffer tr' = recv_buffer tr \<Longrightarrow> per_size tr' = per_size tr \<Longrightarrow> recv_key tr' = recv_key tr \<Longrightarrow>
   fill_recv_wr i tr' = fill_recv_wr i tr"
  by (simp add: fill_recv_wr_def)

lemma repost_once:
  assumes inv: "length (mp_recv_sge tr) = 8" "length (posted_recvs tr) = 8 + N"
      "\<forall>i < length (posted_recvs tr). posted_recvs tr ! i = fill_recv_wr (int (i mod 8)) tr"
      "recv_index_to_post tr = int (N mod 8)"
    and ok: "post_wq_recv post_ok msg (recv_index_to_post tr) (tr\<lparr>recv_index_to_post := (recv_index_to_post tr + 1) mod 8\<rparr>) = Inr tr1"
  shows "length (mp_recv_sge tr1) = 8" "length (posted_recvs tr1) = 8 + Suc N"
    "\<forall>i < length (posted_recvs tr1). posted_recvs tr1 ! i = fill_recv_wr (int (i mod 8)) tr1"
    "recv_index_to_post tr1 = int (Suc N mod 8)" "recvs_to_post tr1 = recvs_to_post tr" "post_frame tr tr1"
proof -
  let ?i = "recv_index_to_post tr"
  have tr1: "tr1 = tr\<lparr>recv_index_to_post := (?i + 1) mod 8,
       mp_recv_sge := (mp_recv_sge tr)[nat ?i := recv_wr_sg (fill_recv_wr ?i tr)],
       posted_recvs := posted_recvs tr @ [fill_recv_wr ?i tr]\<rparr>"
    using ok by (auto simp: post_wq_recv_def Let_def resE arr_set_eq_Inr fill_recv_wr_def)
  show "length (mp_recv_sge tr1) = 8" "length (posted_recvs tr1) = 8 + Suc N" "recvs_to_post tr1 = recvs_to_post tr" "post_frame tr tr1"
    using inv(1,2) by (simp_all add: tr1 post_frame_def)
  have "(int (N mod 8) + 1) mod 8 = int (Suc N mod 8)" by (simp add: zmod_int mod_simps ac_simps)
  then show "recv_index_to_post tr1 = int (Suc N mod 8)" using inv(4) by (simp add: tr1)
  have f: "fill_recv_wr i tr1 = fill_recv_wr i tr" for i by (simp add: tr1 fill_recv_wr_def)
  have "posted_recvs tr1 ! i = fill_recv_wr (int (i mod 8)) tr" if "i < 8 + Suc N" for i
    using inv(2-4) that by (cases "i = 8 + N") (auto simp: tr1 nth_append)
  then show "\<forall>i < length (posted_recvs tr1). posted_recvs tr1 ! i = fill_recv_wr (int (i mod 8)) tr1"
    unfolding f using inv(2) by (simp add: tr1)
qed

lemma repost_inv:
  assumes "repost post_ok tr = Inr tr'" "length (mp_recv_sge tr) = 8" "length (posted_recvs tr) = 8 + N"
      "\<forall>i < length (posted_recvs tr). posted_recvs tr ! i = fill_recv_wr (int (i mod 8)) tr"
      "recv_index_to_post tr = int (N mod 8)" "recvs_to_post tr = int m"
  shows "post_inv tr' (512 * N + m) \<and> post_frame tr tr'"
  using assms
proof (induction post_ok tr arbitrary: N m rule: repost.induct)
  case (1 post_ok tr)
  show ?case
  proof (cases "recvs_to_post tr \<ge> 512")
    case False
    then have "m < 512" "repost post_ok tr = Inr tr" using "1.prems"(6) by (simp_all add: repost.simps)
    with "1.prems" show ?thesis by (auto simp: post_inv_def post_frame_def)
  next
    case True
    then obtain tr1 where tr1: "post_wq_recv post_ok ''Failed to post recv_wq'' (recv_index_to_post tr)
        (tr\<lparr>recv_index_to_post := (recv_index_to_post tr + 1) mod 8\<rparr>) = Inr tr1"
      "repost post_ok (tr1\<lparr>recvs_to_post := recvs_to_post tr - 512\<rparr>) = Inr tr'"
      using "1.prems"(1) by (subst (asm) repost.simps) (auto simp: Let_def resE)
    note o = repost_once [OF "1.prems"(2-5) tr1(1)]
    let ?tr = "tr1\<lparr>recvs_to_post := recvs_to_post tr - 512\<rparr>"
    have m: "512 \<le> m" "recvs_to_post ?tr = int (m - 512)" using True "1.prems"(6) by auto
    have "fill_recv_wr i ?tr = fill_recv_wr i tr1" for i by (simp add: fill_recv_wr_def)
    with "1.IH" [OF True refl refl tr1(1), of "Suc N" "m - 512"] tr1(2) o m(2)
    have "post_inv tr' (512 * Suc N + (m - 512)) \<and> post_frame ?tr tr'" by simp
    moreover have "512 * Suc N + (m - 512) = 512 * N + m" using m(1) by simp
    moreover have "post_frame tr tr'" if "post_frame ?tr tr'"
      using that o(6) unfolding post_frame_def by simp
    ultimately show ?thesis by simp
  qed
qed


lemma try_recv_read:
  assumes rx: "rx_inv tr cs r" and post: "post_inv tr (csum_to cs r)" and r: "r < length cs"
    and ok: "mlx5_try_recv post_ok tr = Inr (n, tr')"
  shows "n = int (cs ! r)" "rx_inv tr' cs (Suc r)" "post_inv tr' (csum_to cs (Suc r))"
    "recv_buffer tr' = recv_buffer tr" "per_size tr' = per_size tr" "recv_buffer_index tr' = recv_buffer_index tr"
proof -
  let ?k = "csum_to cs r"
  from packet_count_read [OF rx r] obtain tr1 where tr1: "get_packet_count tr = Inr (int (cs ! r), tr1)" "rx_inv tr1 cs (Suc r)"
    "tr1 = tr\<lparr>cqe_idx := cqe_idx tr1, recv_index_cycle := recv_index_cycle tr1\<rparr>" by blast
  have same: "mp_recv_sge tr1 = mp_recv_sge tr" "posted_recvs tr1 = posted_recvs tr" "recvs_to_post tr1 = recvs_to_post tr"
    "recv_index_to_post tr1 = recv_index_to_post tr" "recv_buffer tr1 = recv_buffer tr" "per_size tr1 = per_size tr"
    "recv_key tr1 = recv_key tr" "recv_buffer_index tr1 = recv_buffer_index tr"
    by (subst tr1(3), simp)+
  let ?tr = "tr1\<lparr>recvs_to_post := int (?k mod 512 + cs ! r)\<rparr>"
  have rp: "repost post_ok ?tr = Inr tr'" and n: "n = int (cs ! r)"
    using ok tr1(1) post same(3) by (auto simp: mlx5_try_recv_def resE int_add_def post_inv_def split: if_splits)
  have fill: "fill_recv_wr i ?tr = fill_recv_wr i tr" for i using same by (simp add: fill_recv_wr_def)
  have "post_inv tr' (512 * (?k div 512) + (?k mod 512 + cs ! r)) \<and> post_frame ?tr tr'"
    using post same fill by (intro repost_inv [OF rp]) (simp_all add: post_inv_def)
  moreover have "512 * (?k div 512) + (?k mod 512 + cs ! r) = csum_to cs (Suc r)" using r by (simp add: csum_to_Suc)
  ultimately have p: "post_inv tr' (csum_to cs (Suc r))" "post_frame ?tr tr'" by simp_all
  show "n = int (cs ! r)" "post_inv tr' (csum_to cs (Suc r))" "recv_buffer tr' = recv_buffer tr"
    "per_size tr' = per_size tr" "recv_buffer_index tr' = recv_buffer_index tr"
    using n p same by (simp_all add: post_frame_def)
  show "rx_inv tr' cs (Suc r)" using tr1(2) p(2) by (simp add: rx_inv_def post_frame_def)
qed

lemma try_recv_none:
  assumes "rx_inv tr cs r" "post_inv tr k" "r = length cs"
  shows "mlx5_try_recv post_ok tr = Inr (0, tr)"
proof -
  have "recvs_to_post tr = int (k mod 512)" using assms(2) by (simp add: post_inv_def)
  then have "\<not> recvs_to_post tr \<ge> 512" "0 \<le> recvs_to_post tr" by simp_all
  then show ?thesis
    using packet_count_none [OF assms(1,3)] by (simp add: mlx5_try_recv_def int_add_def repost.simps)
qed

section \<open>Packets are handed out in order\<close>

text \<open>
  Runs of the card and the code. The card may be up to eight completions ahead; \<open>cs\<close> are its
  completions, \<open>r\<close> how many of them have been read, \<open>out\<close> the addresses that
  \<open>nb__poll_packet\<close> has returned.
\<close>

inductive mlx5_run :: "(nat \<Rightarrow> bool) \<Rightarrow> int \<Rightarrow> transport_t \<Rightarrow> nat list \<Rightarrow> nat \<Rightarrow> u64 list \<Rightarrow> bool"
  for post_ok headroom where
  run_setup: "setup_recv post_ok 8 rbuf tr0 = Inr tr \<Longrightarrow> pending_recv tr0 = 0 \<Longrightarrow> posted_recvs tr0 = [] \<Longrightarrow>
    length (mp_recv_sge tr0) = 8 \<Longrightarrow> mlx5_run post_ok headroom (setup_send sbuf tr) [] 0 []"
| run_complete: "mlx5_run post_ok headroom tr cs r out \<Longrightarrow> length cs < r + 8 \<Longrightarrow> 1 \<le> c \<Longrightarrow> c \<le> 4096 \<Longrightarrow>
    mlx5_run post_ok headroom (card_complete c cs tr) (cs @ [c]) r out"
| run_packet: "mlx5_run post_ok headroom tr cs r out \<Longrightarrow> mlx5_poll_packet post_ok headroom tr = Inr ((a, n), tr') \<Longrightarrow> n \<noteq> 0 \<Longrightarrow>
    mlx5_run post_ok headroom tr' cs (if pending_recv tr = 0 then Suc r else r) (out @ [a])"
| run_nothing: "mlx5_run post_ok headroom tr cs r out \<Longrightarrow> mlx5_poll_packet post_ok headroom tr = Inr ((a, 0), tr') \<Longrightarrow>
    mlx5_run post_ok headroom tr' cs r out"

definition stride_addr :: "transport_t \<Rightarrow> int \<Rightarrow> nat \<Rightarrow> u64" where
  "stride_addr tr headroom k = recv_buffer tr + IBV_FRAME_SIZE * of_nat (k mod 4096) - word_of_int headroom"

definition run_inv :: "int \<Rightarrow> transport_t \<Rightarrow> nat list \<Rightarrow> nat \<Rightarrow> u64 list \<Rightarrow> bool" where
  "run_inv headroom tr cs r out \<longleftrightarrow> rx_inv tr cs r \<and> post_inv tr (csum_to cs r) \<and> per_size tr = IBV_FRAME_SIZE * 512 \<and>
     0 \<le> pending_recv tr \<and> int (length out) + pending_recv tr = int (csum_to cs r) \<and>
     recv_buffer_index tr = int (length out mod 4096) \<and> out = map (stride_addr tr headroom) [0..<length out]"

lemma setup_posts:
  assumes "foldE (\<lambda>tr i. post_wq_recv post_ok msg (int i) tr) tr [0..<k] = Inr tr'" "length (mp_recv_sge tr) = 8" "k \<le> 8"
  shows "\<exists>sges. length sges = 8 \<and> tr' = tr\<lparr>mp_recv_sge := sges, posted_recvs := posted_recvs tr @ map (\<lambda>i. fill_recv_wr (int i) tr) [0..<k]\<rparr>"
  using assms(1,3)
proof (induction k arbitrary: tr')
  case 0
  with assms(2) show ?case by (auto intro!: exI [of _ "mp_recv_sge tr"])
next
  case (Suc k)
  then obtain tr1 where tr1: "foldE (\<lambda>tr i. post_wq_recv post_ok msg (int i) tr) tr [0..<k] = Inr tr1"
    "post_wq_recv post_ok msg (int k) tr1 = Inr tr'" by (auto simp: foldE_append resE)
  from Suc.IH [OF tr1(1)] Suc.prems obtain sges where s: "length sges = 8"
    "tr1 = tr\<lparr>mp_recv_sge := sges, posted_recvs := posted_recvs tr @ map (\<lambda>i. fill_recv_wr (int i) tr) [0..<k]\<rparr>" by auto
  have f: "fill_recv_wr (int k) tr1 = fill_recv_wr (int k) tr" by (simp add: s fill_recv_wr_def)
  show ?case
    using tr1(2) s(1) unfolding post_wq_recv_def f
    by (intro exI [of _ "sges[k := recv_wr_sg (fill_recv_wr (int k) tr)]"]) (auto simp: Let_def resE arr_set_eq_Inr s(2))
qed

lemma run_inv_setup:
  assumes "setup_recv post_ok 8 rbuf tr0 = Inr tr1" "pending_recv tr0 = 0" "posted_recvs tr0 = []" "length (mp_recv_sge tr0) = 8"
  shows "run_inv headroom (setup_send sbuf tr1) [] 0 []"
proof -
  let ?tr = "(shape_cq 8 tr0)\<lparr>per_size := IBV_FRAME_SIZE * 512, recv_buffer := fst rbuf + 4096, recv_key := snd rbuf\<rparr>"
  let ?s = "setup_send sbuf tr1"
  have tr1: "foldE (\<lambda>tr i. post_wq_recv post_ok ''Failed to post wq_recv'' (int i) tr) ?tr [0..<8] = Inr tr1"
    using assms(1) by (auto simp: setup_recv_def Let_def resE)
  from setup_posts [OF tr1] assms(4) obtain sges where s: "length sges = 8"
    "tr1 = ?tr\<lparr>mp_recv_sge := sges, posted_recvs := posted_recvs ?tr @ map (\<lambda>i. fill_recv_wr (int i) ?tr) [0..<8]\<rparr>"
    by (auto simp: shape_cq_def)
  have f: "fill_recv_wr i ?s = fill_recv_wr i ?tr" for i by (simp add: setup_send_def s(2) fill_recv_wr_def)
  have cqe: "\<lparr>wqe_id = htons 0xffff, wqe_counter = htons 511\<rparr> = cqe_of (position 0)"
    by (simp add: cqe_of_def position_def T_cycles_def)
  have cyc: "get_recv_cycle 0xffff 511 = of_nat (position 0)"
    by (simp add: get_recv_cycle_def position_def T_cycles_def)
  have "rx_inv ?s [] 0"
    by (simp add: rx_inv_def setup_send_def s(2) shape_cq_def cqe cyc csum_to_def)
  moreover have "post_inv ?s 0"
    using s(1) assms(3) unfolding post_inv_def f by (simp add: setup_send_def s(2) shape_cq_def)
  ultimately show ?thesis
    using assms(2) by (simp add: run_inv_def csum_to_def setup_send_def s(2) shape_cq_def)
qed

lemma run_inv_hand_out:
  assumes inv: "run_inv headroom tr cs r out" and p: "0 < pending_recv tr"
    and tr': "tr' = tr\<lparr>recv_buffer_index := (recv_buffer_index tr + 1) mod 4096, pending_recv := pending_recv tr - 1\<rparr>"
  shows "run_inv headroom tr' cs r (out @ [fst (mlx5_get_next_recv_buffer tr) - word_of_int headroom])"
proof -
  have a: "fst (mlx5_get_next_recv_buffer tr) - word_of_int headroom = stride_addr tr headroom (length out)"
    using inv by (simp add: run_inv_def mlx5_get_next_recv_buffer_def stride_addr_def)
  have s: "stride_addr tr' headroom = stride_addr tr headroom" by (simp add: fun_eq_iff stride_addr_def tr')
  have "(int (length out mod 4096) + 1) mod 4096 = int (Suc (length out) mod 4096)" by (simp add: zmod_int mod_simps ac_simps)
  moreover have "rx_inv tr' cs r" "post_inv tr' (csum_to cs r)"
    using inv by (simp_all add: run_inv_def rx_inv_def post_inv_def tr' fill_recv_wr_def)
  ultimately show ?thesis
    using inv p unfolding a run_inv_def s by (auto simp: tr')
qed

lemma run_inv_poll:
  assumes inv: "run_inv headroom tr cs r out" and ok: "mlx5_poll_packet post_ok headroom tr = Inr ((a, n), tr')"
  shows "if n \<noteq> 0 then run_inv headroom tr' cs (if pending_recv tr = 0 then Suc r else r) (out @ [a])
    else run_inv headroom tr' cs r out \<and> length out = sum_list cs"
proof (cases "pending_recv tr = 0")
  case False
  with inv have "0 < pending_recv tr" by (simp add: run_inv_def)
  with ok have "n = MLX5_MTU" "a = fst (mlx5_get_next_recv_buffer tr) - word_of_int headroom"
    "tr' = tr\<lparr>recv_buffer_index := (recv_buffer_index tr + 1) mod 4096, pending_recv := pending_recv tr - 1\<rparr>"
    by (auto simp: mlx5_poll_packet_def mlx5_get_next_recv_buffer_def)
  with run_inv_hand_out [OF inv \<open>0 < pending_recv tr\<close>] False show ?thesis by (simp add: MLX5_MTU_def)
next
  case True
  have rx: "rx_inv tr cs r" "post_inv tr (csum_to cs r)" and r: "r \<le> length cs" using inv by (auto simp: run_inv_def rx_inv_def)
  show ?thesis
  proof (cases "r < length cs")
    case False
    with r have "r = length cs" by simp
    moreover have "tr\<lparr>pending_recv := 0\<rparr> = tr" using True by simp
    ultimately have "n = 0" "tr' = tr"
      using ok True try_recv_none [OF rx] by (auto simp: mlx5_poll_packet_def)
    moreover have "length out = sum_list cs" using inv True \<open>r = length cs\<close> by (simp add: run_inv_def csum_to_all)
    ultimately show ?thesis using inv by simp
  next
    case lt: True
    from ok True obtain m tr1 where tr1: "mlx5_try_recv post_ok tr = Inr (m, tr1)"
      by (auto simp: mlx5_poll_packet_def resE split: if_splits)
    note tr = try_recv_read [OF rx lt tr1]
    let ?tr = "tr1\<lparr>pending_recv := m\<rparr>"
    have "1 \<le> cs ! r" using rx(1) lt by (auto simp: rx_inv_def)
    then have m: "0 < pending_recv ?tr" using tr(1) by simp
    have "out = map (stride_addr ?tr headroom) [0..<length out]"
      using inv tr(4) by (simp add: run_inv_def stride_addr_def [abs_def])
    then have inv1: "run_inv headroom ?tr cs (Suc r) out"
      using inv tr True lt by (simp add: run_inv_def rx_inv_def post_inv_def fill_recv_wr_def csum_to_Suc)
    from ok True tr1 m have "n = MLX5_MTU" "a = fst (mlx5_get_next_recv_buffer ?tr) - word_of_int headroom"
      "tr' = ?tr\<lparr>recv_buffer_index := (recv_buffer_index ?tr + 1) mod 4096, pending_recv := pending_recv ?tr - 1\<rparr>"
      by (auto simp: mlx5_poll_packet_def mlx5_get_next_recv_buffer_def)
    with run_inv_hand_out [OF inv1 m] True show ?thesis by (simp add: MLX5_MTU_def)
  qed
qed

lemma run_inv_reach: "mlx5_run post_ok headroom tr cs r out \<Longrightarrow> run_inv headroom tr cs r out"
proof (induction rule: mlx5_run.induct)
  case (run_setup rbuf tr0 tr sbuf)
  then show ?case by (rule run_inv_setup)
next
  case (run_complete tr cs r out c)
  then have "rx_inv (card_complete c cs tr) (cs @ [c]) r" by (intro card_complete_inv) (auto simp: run_inv_def)
  moreover have "csum_to (cs @ [c]) r = csum_to cs r" using run_complete by (intro csum_to_append) (auto simp: run_inv_def rx_inv_def)
  moreover have "stride_addr (card_complete c cs tr) headroom = stride_addr tr headroom"
    by (simp add: fun_eq_iff stride_addr_def card_complete_def)
  ultimately show ?case
    using run_complete.IH by (simp add: run_inv_def post_inv_def fill_recv_wr_def card_complete_def)
next
  case (run_packet tr cs r out a n tr')
  then show ?case using run_inv_poll [of headroom tr cs r out post_ok a n tr'] by simp
next
  case (run_nothing tr cs r out a tr')
  then show ?case using run_inv_poll [of headroom tr cs r out post_ok a 0 tr'] by simp
qed

text \<open>
  C13. However the card and the code interleave, as long as the card is at most eight completions
  ahead: packets are handed out in the order in which they arrived, each once. The address of packet
  \<open>k\<close> is the place where the card has written it, stride \<open>k mod 512\<close> of request
  \<open>k div 512\<close>, less the headroom. No packet is handed out before the card has reported it,
  and a poll that finds nothing means that all reported packets have been handed out.
\<close>

theorem mlx5_packets_in_order:
  assumes run: "mlx5_run post_ok headroom tr cs r out"
  shows "length out \<le> sum_list cs \<and>
    (\<forall>k < length out. k div 512 < length (posted_recvs tr) \<and>
       out ! k = sge_addr (recv_wr_sg (posted_recvs tr ! (k div 512))) + IBV_FRAME_SIZE * of_nat (k mod 512) - word_of_int headroom) \<and>
    (\<forall>a tr'. mlx5_poll_packet post_ok headroom tr = Inr ((a, 0), tr') \<longrightarrow> length out = sum_list cs)"
proof -
  note inv = run_inv_reach [OF run]
  have rx: "rx_inv tr cs r" and post: "post_inv tr (csum_to cs r)" and out: "out = map (stride_addr tr headroom) [0..<length out]"
    and len: "int (length out) \<le> int (csum_to cs r)" and ps: "per_size tr = IBV_FRAME_SIZE * 512"
    using inv by (auto simp: run_inv_def)
  have "csum_to cs r \<le> sum_list cs"
    using csum_to_le [of cs r "length cs"] rx by (auto simp: rx_inv_def csum_to_all)
  moreover have "k div 512 < length (posted_recvs tr) \<and>
       out ! k = sge_addr (recv_wr_sg (posted_recvs tr ! (k div 512))) + IBV_FRAME_SIZE * of_nat (k mod 512) - word_of_int headroom"
    if k: "k < length out" for k
  proof -
    have "k div 512 \<le> csum_to cs r div 512" using k len by (intro div_le_mono) simp
    then have i: "k div 512 < length (posted_recvs tr)" using post by (simp add: post_inv_def)
    then have wr: "posted_recvs tr ! (k div 512) = fill_recv_wr (int ((k div 512) mod 8)) tr"
      using post by (simp add: post_inv_def)
    have "k mod 4096 = 512 * ((k div 512) mod 8) + k mod 512"
      using mod_mult2_eq [of k 512 8] by simp
    then have "(of_nat (k mod 4096) :: u64) = 512 * of_nat ((k div 512) mod 8) + of_nat (k mod 512)" by (metis of_nat_add of_nat_mult of_nat_numeral)
    then have "stride_addr tr headroom k = sge_addr (recv_wr_sg (fill_recv_wr (int ((k div 512) mod 8)) tr)) + IBV_FRAME_SIZE * of_nat (k mod 512) - word_of_int headroom"
      by (simp only: stride_addr_def fill_recv_wr_def ibv_recv_wr.simps ibv_sge.simps ps of_int_of_nat_eq algebra_simps)
    then show ?thesis using i wr k by (subst out) simp
  qed
  ultimately show ?thesis
    using len run_inv_poll [OF inv] by fastforce
qed


lemma repost_returns:
  assumes "\<forall>k. post_ok k" "length (mp_recv_sge tr) = 8" "0 \<le> recv_index_to_post tr" "recv_index_to_post tr < 8"
  shows "\<exists>tr'. repost post_ok tr = Inr tr'"
  using assms
proof (induction "nat (recvs_to_post tr)" arbitrary: tr rule: less_induct)
  case less
  show ?case
  proof (cases "recvs_to_post tr \<ge> 512")
    case True
    let ?tr = "tr\<lparr>recv_index_to_post := (recv_index_to_post tr + 1) mod 8\<rparr>" and ?i = "recv_index_to_post tr"
    obtain tr1 where p: "post_wq_recv post_ok ''Failed to post recv_wq'' ?i ?tr = Inr tr1" "length (mp_recv_sge tr1) = 8"
      "recv_index_to_post tr1 = (?i + 1) mod 8"
      using less.prems by (auto simp: post_wq_recv_def Let_def)
    have "\<exists>tr'. repost post_ok (tr1\<lparr>recvs_to_post := recvs_to_post tr - 512\<rparr>) = Inr tr'"
      by (rule less.hyps) (use True p less.prems(1) in auto)
    with True p(1) show ?thesis by (subst repost.simps) (simp add: Let_def)
  qed (simp add: repost.simps)
qed

lemma poll_hands_out:
  assumes run: "mlx5_run post_ok headroom tr cs r out" and posts: "\<forall>k. post_ok k" and more: "length out < sum_list cs"
  shows "\<exists>a tr'. mlx5_poll_packet post_ok headroom tr = Inr ((a, MLX5_MTU), tr')"
proof -
  have inv: "run_inv headroom tr cs r out" using run by (rule run_inv_reach)
  then have rx: "rx_inv tr cs r" "post_inv tr (csum_to cs r)" by (auto simp: run_inv_def)
  show ?thesis
  proof (cases "pending_recv tr = 0")
    case False
    then show ?thesis by (simp add: mlx5_poll_packet_def mlx5_get_next_recv_buffer_def)
  next
    case True
    then have "csum_to cs r \<noteq> sum_list cs" using inv more by (simp add: run_inv_def)
    then have r: "r < length cs" using rx(1) by (cases "r = length cs") (auto simp: csum_to_all rx_inv_def)
    obtain tr1 where tr1: "get_packet_count tr = Inr (int (cs ! r), tr1)"
      "tr1 = tr\<lparr>cqe_idx := cqe_idx tr1, recv_index_cycle := recv_index_cycle tr1\<rparr>"
      using packet_count_read [OF rx(1) r] by blast
    have same: "mp_recv_sge tr1 = mp_recv_sge tr" "recvs_to_post tr1 = recvs_to_post tr" "recv_index_to_post tr1 = recv_index_to_post tr"
      by (subst tr1(2), simp)+
    have c: "1 \<le> cs ! r" "cs ! r \<le> 4096" using rx(1) r by (auto simp: rx_inv_def)
    have k: "0 \<le> recvs_to_post tr" "recvs_to_post tr < 512" "0 \<le> recv_index_to_post tr" "recv_index_to_post tr < 8" "length (mp_recv_sge tr) = 8"
      using rx(2) by (simp_all add: post_inv_def)
    obtain tr2 where "repost post_ok (tr1\<lparr>recvs_to_post := recvs_to_post tr + int (cs ! r)\<rparr>) = Inr tr2"
      using repost_returns [OF posts, of "tr1\<lparr>recvs_to_post := recvs_to_post tr + int (cs ! r)\<rparr>"] same k by auto
    then have "mlx5_try_recv post_ok tr = Inr (int (cs ! r), tr2)"
      using tr1(1) same(2) c k by (simp add: mlx5_try_recv_def int_add_def)
    then show ?thesis using True c by (simp add: mlx5_poll_packet_def mlx5_get_next_recv_buffer_def)
  qed
qed

text \<open>
  C28. As long as the card accepts the requests, a poll returns, and while there are reported packets
  that have not been handed out, every poll hands one out.
\<close>

theorem mlx5_poll_progress:
  assumes "mlx5_run post_ok headroom tr cs r out" "\<forall>k. post_ok k" "length out < sum_list cs"
  shows "\<exists>a tr'. mlx5_poll_packet post_ok headroom tr = Inr ((a, MLX5_MTU), tr')"
  using assms by (rule poll_hands_out)

text \<open>
  C39. A buffer is posted again when its 512 packets have been counted, not when they have been handed
  out: if packet \<open>k\<close> is still to be handed out and a request of 512 packets behind it has
  been counted, the card already holds a second request with the buffer that packet is in.
\<close>

theorem mlx5_reposted_unread:
  assumes run: "mlx5_run post_ok headroom tr cs r out" and k: "length out \<le> k" "k < csum_to cs r"
    and counted: "k div 512 < csum_to cs r div 512"
  shows "k div 512 + 8 < length (posted_recvs tr) \<and> posted_recvs tr ! (k div 512 + 8) = posted_recvs tr ! (k div 512)"
  using run_inv_reach [OF run] counted by (simp add: run_inv_def post_inv_def)

section \<open>Send buffers\<close>

fun request_buffers :: "nat \<Rightarrow> transport_t \<Rightarrow> u64 list \<times> transport_t" where
  "request_buffers 0 tr = ([], tr)"
| "request_buffers (Suc n) tr =
     (case mlx5_request_send_buffer tr of (p, tr1) \<Rightarrow>
      case request_buffers n tr1 of (ps, tr2) \<Rightarrow> (p # ps, tr2))"

lemma request_buffers_addrs:
  assumes "send_buffer_index tr = int i"  "i < 512"
  shows "fst (request_buffers n tr) = map (\<lambda>j. send_buffer tr + IBV_FRAME_SIZE * of_nat ((i + j) mod 512)) [0..<n]"
  using assms
proof (induction n arbitrary: tr i)
  case (Suc n)
  let ?tr = "tr\<lparr>send_buffer_index := (send_buffer_index tr + 1) mod 512\<rparr>"
  have "send_buffer_index ?tr = int (Suc i mod 512)" using Suc.prems by (simp add: zmod_int ac_simps)
  from Suc.IH [OF this]
  have "fst (request_buffers n ?tr) = map (\<lambda>j. send_buffer tr + IBV_FRAME_SIZE * of_nat ((Suc i + j) mod 512)) [0..<n]"
    by (simp add: mod_simps)
  then show ?case
    using Suc.prems
    by (simp add: mlx5_request_send_buffer_def mlx5_get_next_send_buffer_def map_upt_Suc case_prod_unfold del: upt_Suc)
qed simp

text \<open>
  Of 512 consecutive send buffers no two are the same, and the next request gives the first of
  them again, whether or not it has been returned: a packet that the reliable module keeps for
  redelivery is overwritten when 512 more packets have been prepared.
\<close>

theorem mlx5_send_buffers_distinct:
  assumes "send_buffer_index tr = int i" "i < 512"
  shows "distinct (fst (request_buffers 512 tr)) \<and>
    fst (request_buffers 513 tr) ! 512 = fst (request_buffers 513 tr) ! 0"
proof -
  have inj: "IBV_FRAME_SIZE * of_nat x = IBV_FRAME_SIZE * of_nat y \<longleftrightarrow> x = y" if "x < 512" "y < 512" for x y
  proof -
    have "IBV_FRAME_SIZE * of_nat x = of_nat (1024 * x)" "IBV_FRAME_SIZE * of_nat y = of_nat (1024 * y)" by (simp_all add: IBV_FRAME_SIZE_def)
    moreover have "unat (of_nat (1024 * x) :: u64) = 1024 * x" "unat (of_nat (1024 * y) :: u64) = 1024 * y"
      using that by (simp_all only: unat_of_nat) auto
    ultimately show ?thesis by (metis mult_cancel1 zero_neq_numeral)
  qed
  have neq: "(i + x) mod 512 \<noteq> (i + y) mod 512" if "x < y" "y < 512" for x y
    using that by (intro mod_neq_near) auto
  have "inj_on (\<lambda>j. send_buffer tr + IBV_FRAME_SIZE * of_nat ((i + j) mod 512)) (set [0..<512])"
  proof (rule inj_onI)
    fix x y
    assume "x \<in> set [0..<512]" "y \<in> set [0..<512]"
      "send_buffer tr + IBV_FRAME_SIZE * of_nat ((i + x) mod 512) = send_buffer tr + IBV_FRAME_SIZE * of_nat ((i + y) mod 512)"
    then have "x < 512" "y < 512" "(i + x) mod 512 = (i + y) mod 512" by (simp_all only: set_upt atLeastLessThan_iff add_left_cancel inj mod_less_divisor zero_less_numeral)
    with neq [of x y] neq [of y x] show "x = y" by (metis linorder_neqE_nat)
  qed
  then have "distinct (fst (request_buffers 512 tr))"
    unfolding request_buffers_addrs [OF assms] distinct_map by (simp only: distinct_upt simp_thms)
  moreover have "fst (request_buffers 513 tr) ! 512 = fst (request_buffers 513 tr) ! 0"
    unfolding request_buffers_addrs [OF assms] by (simp del: upt_rec_numeral)
  ultimately show ?thesis by simp
qed

end
