(* ===== verification/Mlx5_Setup.thy ===== *)
theory Mlx5_Setup
  imports Mlx5_Transport
begin

unbundle bit_operations_syntax

text \<open>
  Starting the mlx5 transport (\<open>mlx5_try_transport\<close> of
  \<open>runtime/mlx5_impl/transport.cc\<close>): the search for the device of an interface, the
  creation of the queues, the allocation of shared memory (\<open>runtime/mlx5_impl/halloc.cc\<close>)
  and the buffers. The verbs library, the directory of network devices and the shared memory calls
  are parameters.
\<close>

section \<open>Shared memory\<close>

definition is_power_of_two :: "u64 \<Rightarrow> bool" where
  "is_power_of_two x \<longleftrightarrow> x \<noteq> 0 \<and> x AND (x - 1) = 0"

text \<open>\<open>round_up\<close> at type \<open>int\<close>.\<close>

definition round_up :: "int \<Rightarrow> int \<Rightarrow> int res" where
  "round_up p x = bindE (int_add x (p - 1)) (\<lambda>y. Inr (sint ((word_of_int y :: u32) AND NOT (word_of_int (p - 1)))))"

definition kHugePageSize :: int where "kHugePageSize = 2 * 1024 * 1024"

datatype shm_errno = EEXIST | Other_Errno

text \<open>
  \<open>shm_get\<close> gives an identifier or \<open>-1\<close> with the error, \<open>shm_at\<close> an address,
  \<open>reg_mr\<close> the key of the registered memory, if it could be registered.
\<close>

record 'o shm_os =
  shm_rand :: "'o \<Rightarrow> int \<times> 'o"
  shm_get :: "int \<Rightarrow> int \<Rightarrow> 'o \<Rightarrow> (int \<times> shm_errno) \<times> 'o"
  shm_at :: "int \<Rightarrow> 'o \<Rightarrow> u64 \<times> 'o"
  reg_mr :: "u64 \<Rightarrow> int \<Rightarrow> 'o \<Rightarrow> u32 option \<times> 'o"

text \<open>The loop that draws keys until one is free.\<close>

partial_function (option) shm_search :: "'o shm_os \<Rightarrow> int \<Rightarrow> 'o \<Rightarrow> (int \<times> 'o) res option" where [code]:
  "shm_search S len os =
     (case shm_rand S os of (shm_key, os) \<Rightarrow>
      case shm_get S \<bar>shm_key\<bar> len os of ((shm_id, e), os) \<Rightarrow>
      if shm_id = - 1 then
        (case e of EEXIST \<Rightarrow> shm_search S len os | Other_Errno \<Rightarrow> Some (Inl (Assert_Fail ''Allocation failed with shm'')))
      else Some (Inr (shm_id, os)))"

definition alloc_shared :: "'o shm_os \<Rightarrow> int \<Rightarrow> 'o \<Rightarrow> ((u64 \<times> u32) \<times> 'o) res" where
  "alloc_shared S len os =
     bindE (round_up kHugePageSize len) (\<lambda>len.
     bindE (case shm_search S len os of None \<Rightarrow> Inl Diverges | Some r \<Rightarrow> r) (\<lambda>(shm_id, os).
     case shm_at S shm_id os of (shm_buf, os) \<Rightarrow>
     bindE (guardE (shm_buf \<noteq> 0) (Assert_Fail ''Allocation failed at shmat'')) (\<lambda>_.
     case reg_mr S shm_buf len os of (mr, os) \<Rightarrow>
     bindE (of_option (Assert_Fail ''Failed to register memory'') mr) (\<lambda>lkey.
     Inr ((shm_buf, lkey), os)))))"

section \<open>The device of an interface\<close>

text \<open>\<open>dir\<close> are the entries of a directory, none when it cannot be opened.\<close>

definition ibdev2netdev :: "(string \<Rightarrow> string list option) \<Rightarrow> string \<Rightarrow> string res" where
  "ibdev2netdev dir ibdev_name =
     (let dev_dir = ''/sys/class/infiniband/'' @ ibdev_name @ ''/device/net'' in
      bindE (of_option (Assert_Fail (''Failed to open directory '' @ dev_dir)) (dir dev_dir)) (\<lambda>entries.
      let net_ifaces = filter (\<lambda>d_name. d_name \<noteq> ''.'' \<and> d_name \<noteq> ''..'') entries in
      bindE (guardE (length net_ifaces > 0) (Assert_Fail (''Directory '' @ dev_dir @ '' is empty''))) (\<lambda>_.
      Inr (net_ifaces ! 0))))"

text \<open>A device as the verbs library shows it: for a port the result of the query and its physical state.\<close>

record ib_device =
  dev_opens :: bool
  dev_queries :: bool
  dev_name :: string
  phys_port_cnt :: u8
  dev_port :: "u8 \<Rightarrow> bool \<times> int"
  dev_closes :: bool

definition IBV_PORT_ACTIVE :: int where "IBV_PORT_ACTIVE = 4"
definition IBV_PORT_ACTIVE_DEFER :: int where "IBV_PORT_ACTIVE_DEFER = 5"

definition port_active :: "int \<Rightarrow> bool" where
  "port_active phys_state \<longleftrightarrow> \<not> (phys_state \<noteq> IBV_PORT_ACTIVE \<and> phys_state \<noteq> IBV_PORT_ACTIVE_DEFER)"

text \<open>The loop over the ports counts in an \<open>uint8_t\<close>.\<close>

partial_function (option) find_port :: "ib_device \<Rightarrow> u8 \<Rightarrow> u8 option res option" where [code]:
  "find_port d port_i =
     (if port_i \<le> phys_port_cnt d then
        (case dev_port d port_i of (queried, phys_state) \<Rightarrow>
         if \<not> queried then Some (Inl (Assert_Fail ''Failed to query port''))
         else if \<not> port_active phys_state then find_port d (port_i + 1)
         else Some (Inr (Some port_i)))
      else Some (Inr None))"

text \<open>
  The loop over the devices, from number \<open>i\<close>. The second part of the result are the devices
  that have been opened and not closed.
\<close>

fun find_device ::
  "(string \<Rightarrow> string list option) \<Rightarrow> string \<Rightarrow> nat \<Rightarrow> ib_device list \<Rightarrow> ((nat \<times> u8) option \<times> nat list) res" where
  "find_device dir requested i [] = Inr (None, [])"
| "find_device dir requested i (d # ds) =
     bindE (guardE (dev_opens d) (Assert_Fail ''Failed to open device'')) (\<lambda>_.
     bindE (guardE (dev_queries d) (Assert_Fail ''Failed to query device'')) (\<lambda>_.
     bindE (ibdev2netdev dir (dev_name d)) (\<lambda>resolved_netdev_name.
     if resolved_netdev_name \<noteq> requested then
       bindE (find_device dir requested (i + 1) ds) (\<lambda>(r, opened). Inr (r, i # opened))
     else
       bindE (case find_port d 1 of None \<Rightarrow> Inl Diverges | Some r \<Rightarrow> r) (\<lambda>p.
       case p of
         Some port \<Rightarrow> Inr (Some (i, port), [i])
       | None \<Rightarrow>
           bindE (guardE (dev_closes d) (Assert_Fail ''Failed to close device'')) (\<lambda>_.
           find_device dir requested (i + 1) ds)))))"

section \<open>The queues\<close>

datatype qp_state = QPS_RESET | QPS_INIT | QPS_RTR | QPS_RTS

text \<open>The calls that create the queues, with the attributes that the code sets.\<close>

datatype verbs_call =
    Alloc_pd
  | Create_cq_ex nat
  | Create_cq nat
  | Create_qp nat nat int
  | Modify_qp qp_state
  | Mlx5dv_create_cq nat
  | Mlx5dv_create_wq nat nat nat
  | Modify_wq_ready
  | Init_rwq
  | Create_rwq_ind_table nat
  | Create_qp_ex nat
  | Create_flow

definition setup_calls :: "(verbs_call \<times> string) list" where
  "setup_calls =
     [(Alloc_pd, ''Failed to alloc protection domain''),
      (Create_cq_ex 4, ''Failed to create send_cq''),
      (Create_cq 8, ''Error creating dummy recv cq''),
      (Create_qp 128 2 MAX_INLINE_DATA_SIZE, ''Error creating send qp''),
      (Modify_qp QPS_INIT, ''Error initializing QP''),
      (Modify_qp QPS_RTR, ''Error setting QP state to RTR''),
      (Modify_qp QPS_RTS, ''Error setting QP state to RTS''),
      (Mlx5dv_create_cq 4, ''Failed to create recv_cq''),
      (Mlx5dv_create_wq (4096 div 2 ^ 9) 10 9, ''Failed to create recv_wq''),
      (Modify_wq_ready, ''Failed to set recv wq to ready state''),
      (Init_rwq, ''Failed to initialized rwq''),
      (Create_rwq_ind_table 0, ''Failed to create ind table''),
      (Create_qp_ex 40, ''Failed to create recv_qp''),
      (Create_flow, ''Failed to create recv flow'')]"

definition verbs_step :: "(verbs_call \<Rightarrow> 'v \<Rightarrow> bool \<times> 'v) \<Rightarrow> 'v \<Rightarrow> verbs_call \<times> string \<Rightarrow> 'v res" where
  "verbs_step verbs v cm =
     (case cm of (c, msg) \<Rightarrow> case verbs c v of (ok, v) \<Rightarrow> bindE (guardE ok (Assert_Fail msg)) (\<lambda>_. Inr v))"

definition create_queues :: "(verbs_call \<Rightarrow> 'v \<Rightarrow> bool \<times> 'v) \<Rightarrow> 'v \<Rightarrow> 'v res" where
  "create_queues verbs v = foldE (verbs_step verbs) v setup_calls"

section \<open>The whole start\<close>

text \<open>\<open>ring\<close> is the length in bytes of the ring of completion entries, of 64 bytes each; 0 when there is none.\<close>

definition mlx5_try_transport ::
  "(string \<Rightarrow> string list option) \<Rightarrow> (verbs_call \<Rightarrow> 'v \<Rightarrow> bool \<times> 'v) \<Rightarrow> 'o shm_os \<Rightarrow> (nat \<Rightarrow> bool) \<Rightarrow>
   ib_device list \<Rightarrow> string \<Rightarrow> nat \<Rightarrow> 'v \<Rightarrow> 'o \<Rightarrow> transport_t \<Rightarrow> (transport_t \<times> 'v \<times> 'o) res" where
  "mlx5_try_transport dir verbs S post_ok devs requested ring v os tr =
     bindE (find_device dir requested 0 devs) (\<lambda>(r, opened).
     bindE (of_option (Assert_Fail ''Couldn't find any active port'') r) (\<lambda>_.
     bindE (create_queues verbs v) (\<lambda>v.
     bindE (guardE (ring \<noteq> 0) (Assert_Fail ''Failed to find buffer inside recv_cq'')) (\<lambda>_.
     bindE (alloc_shared S (1024 * 512 * 8 + 4096) os) (\<lambda>(rbuf, os).
     bindE (setup_recv post_ok (ring div 64) rbuf tr) (\<lambda>tr.
     bindE (alloc_shared S (512 * 1024) os) (\<lambda>(sbuf, os).
     Inr (setup_send sbuf tr, v, os))))))))"

text \<open>
  \<open>nb__mlx5_init\<close>, and the functions \<open>nb__transport_default_init\<close> and
  \<open>nb__transport_default_deinit\<close> of \<open>nb_mlx5_transport.cc\<close>.
\<close>

definition nb__mlx5_init ::
  "(string \<Rightarrow> string list option) \<Rightarrow> (verbs_call \<Rightarrow> 'v \<Rightarrow> bool \<times> 'v) \<Rightarrow> 'o shm_os \<Rightarrow> (nat \<Rightarrow> bool) \<Rightarrow>
   ib_device list \<Rightarrow> string \<Rightarrow> nat \<Rightarrow> 'v \<Rightarrow> 'o \<Rightarrow> transport_t \<Rightarrow> (transport_t \<times> 'v \<times> 'o) res" where
  "nb__mlx5_init dir verbs S post_ok devs name ring v os tr =
     mlx5_try_transport dir verbs S post_ok devs name ring v os tr"

definition mlx5_default_init ::
  "(string \<Rightarrow> string list option) \<Rightarrow> (verbs_call \<Rightarrow> 'v \<Rightarrow> bool \<times> 'v) \<Rightarrow> 'o shm_os \<Rightarrow> (nat \<Rightarrow> bool) \<Rightarrow>
   ib_device list \<Rightarrow> nat \<Rightarrow> 'v \<Rightarrow> 'o \<Rightarrow> transport_t \<Rightarrow> (transport_t \<times> 'v \<times> 'o) res" where
  "mlx5_default_init dir verbs S post_ok devs ring v os tr =
     nb__mlx5_init dir verbs S post_ok devs ''eth2'' ring v os tr"

definition mlx5_default_deinit :: "transport_t \<Rightarrow> transport_t" where
  "mlx5_default_deinit tr = tr"

section \<open>Rounding\<close>

lemma mask_NOT:
  fixes w :: u32
  shows "w AND NOT (mask n) = push_bit n (drop_bit n w)"
  by (rule bit_word_eqI) (auto simp: bit_simps)

lemma sint_word_of_int_small: "0 \<le> k \<Longrightarrow> k < 2 ^ 31 \<Longrightarrow> sint (word_of_int k :: u32) = k"
  by (simp add: signed_of_int signed_take_bit_int_eq_self)

lemma drop_bit_word_of_int:
  assumes "0 \<le> n" "n < 2 ^ 31"
  shows "drop_bit 21 (word_of_int n :: u32) = word_of_int (n div 2097152)"
proof (rule word_uint_eqI)
  have "uint (drop_bit 21 (word_of_int n :: u32)) = drop_bit 21 n"
    using assms by (simp only: unsigned_drop_bit_eq uint_word_of_int) (simp add: take_bit_int_eq_self)
  also have "\<dots> = uint (word_of_int (n div 2097152) :: u32)"
    using assms by (simp add: uint_word_of_int drop_bit_eq_div)
  finally show "uint (drop_bit 21 (word_of_int n :: u32)) = uint (word_of_int (n div 2097152) :: u32)" .
qed

text \<open>
  \<open>round_up\<close> gives the least multiple of the huge page size that is not below a size,
  and its result is an \<open>int\<close>, unless the addition overflows.
\<close>

theorem round_up_least:
  assumes "0 \<le> x" "x + kHugePageSize - 1 < 2 ^ 31"
  shows "\<exists>y. round_up kHugePageSize x = Inr y \<and> kHugePageSize dvd y \<and> x \<le> y \<and> y < x + kHugePageSize"
proof -
  let ?n = "x + 2097151"
  have n: "0 \<le> ?n" "?n < 2 ^ 31" using assms by (simp_all add: kHugePageSize_def)
  have "(word_of_int 2097151 :: u32) = mask 21" by (simp add: mask_eq_exp_minus_1)
  then have "sint ((word_of_int ?n :: u32) AND NOT (word_of_int 2097151)) = sint (push_bit 21 (drop_bit 21 (word_of_int ?n :: u32)))"
    by (simp only: mask_NOT)
  also have "push_bit 21 (drop_bit 21 (word_of_int ?n :: u32)) = word_of_int (2097152 * (?n div 2097152))"
  proof -
    have "drop_bit 21 (word_of_int ?n :: u32) = word_of_int (?n div 2097152)"
      using n by (rule drop_bit_word_of_int)
    then show ?thesis by (simp add: push_bit_eq_mult)
  qed
  also have "sint (word_of_int (2097152 * (?n div 2097152)) :: u32) = 2097152 * (?n div 2097152)"
  proof (rule sint_word_of_int_small)
    show "0 \<le> 2097152 * (?n div 2097152)" using n(1) by (simp add: pos_imp_zdiv_nonneg_iff)
    have "0 \<le> ?n mod 2097152" by simp
    then show "2097152 * (?n div 2097152) < 2 ^ 31" using n(2) by (simp add: minus_mod_eq_mult_div [symmetric])
  qed
  finally have r: "round_up kHugePageSize x = Inr (2097152 * (?n div 2097152))"
    using n by (simp add: round_up_def int_add_def kHugePageSize_def)
  have "2097152 * (?n div 2097152) = ?n - ?n mod 2097152" by (simp add: minus_mod_eq_mult_div)
  moreover have "0 \<le> ?n mod 2097152" "?n mod 2097152 < 2097152" by simp_all
  ultimately show ?thesis unfolding r by (intro exI [of _ "2097152 * (?n div 2097152)"]) (auto simp: kHugePageSize_def)
qed


section \<open>The search for a port\<close>

text \<open>A port of the device in one of the two states that count as active, 4 and 5.\<close>

definition active_port :: "ib_device \<Rightarrow> u8 \<Rightarrow> bool" where
  "active_port d p \<longleftrightarrow> 1 \<le> p \<and> p \<le> phys_port_cnt d \<and> snd (dev_port d p) \<in> {4, 5}"

lemma port_active_iff: "port_active st \<longleftrightarrow> st \<in> {4, 5}"
  by (simp add: port_active_def IBV_PORT_ACTIVE_def IBV_PORT_ACTIVE_DEFER_def)

definition good_device :: "ib_device \<Rightarrow> bool" where
  "good_device d \<longleftrightarrow> dev_opens d \<and> dev_queries d \<and> dev_closes d \<and> phys_port_cnt d < 255 \<and> (\<forall>p. fst (dev_port d p))"

lemma find_port_least:
  assumes d: "good_device d" and p: "1 \<le> port_i" and before: "\<And>q. q < port_i \<Longrightarrow> \<not> active_port d q"
  shows "\<exists>r. find_port d port_i = Some (Inr r) \<and>
    (case r of None \<Rightarrow> \<forall>q. \<not> active_port d q | Some p \<Rightarrow> active_port d p \<and> (\<forall>q < p. \<not> active_port d q))"
  using p before
proof (induction "256 - unat port_i" arbitrary: port_i rule: less_induct)
  case less
  show ?case
  proof (cases "port_i \<le> phys_port_cnt d")
    case False
    then have "q < port_i" if "active_port d q" for q using that unfolding active_port_def by (metis not_le order.strict_trans1)
    then have "\<not> active_port d q" for q using less.prems(2) by blast
    with False show ?thesis by (subst find_port.simps) auto
  next
    case True
    show ?thesis
    proof (cases "port_active (snd (dev_port d port_i))")
      case act: True
      then have "find_port d port_i = Some (Inr (Some port_i))"
        using True d by (subst find_port.simps) (simp add: case_prod_unfold good_device_def)
      moreover have "active_port d port_i" using act True less.prems(1) by (simp add: active_port_def port_active_iff)
      ultimately show ?thesis using less.prems(2) by simp
    next
      case inact: False
      have lt: "unat port_i < 255" using True d by (auto simp: good_device_def word_less_nat_alt word_le_nat_alt)
      then have u: "unat (port_i + 1) = unat port_i + 1" by (simp add: unat_word_ariths)
      have "find_port d port_i = find_port d (port_i + 1)"
        using True inact d by (subst find_port.simps) (simp add: case_prod_unfold good_device_def)
      moreover have "\<not> active_port d q" if "q < port_i + 1" for q
      proof (cases "q = port_i")
        case False
        with that u have "q < port_i" by (auto simp: word_less_nat_alt word_unat_eq_iff)
        then show ?thesis by (rule less.prems(2))
      qed (use inact in \<open>simp add: active_port_def port_active_iff\<close>)
      moreover have "1 \<le> port_i + 1" using u by (simp add: word_le_nat_alt)
      ultimately show ?thesis using less.hyps [of "port_i + 1"] u lt by simp
    qed
  qed
qed

text \<open>The first device of an interface with an active port, and its lowest such port.\<close>

definition no_active_port :: "ib_device \<Rightarrow> bool" where
  "no_active_port d \<longleftrightarrow> (\<forall>q. \<not> active_port d q)"

definition first_active :: "(ib_device \<Rightarrow> string) \<Rightarrow> string \<Rightarrow> ib_device list \<Rightarrow> nat \<Rightarrow> u8 \<Rightarrow> bool" where
  "first_active net requested devs k p \<longleftrightarrow> k < length devs \<and> net (devs ! k) = requested \<and>
     active_port (devs ! k) p \<and> (\<forall>q < p. \<not> active_port (devs ! k) q) \<and>
     (\<forall>j < k. net (devs ! j) = requested \<longrightarrow> no_active_port (devs ! j))"

definition left_open :: "(ib_device \<Rightarrow> string) \<Rightarrow> string \<Rightarrow> ib_device list \<Rightarrow> nat \<Rightarrow> nat \<Rightarrow> nat list" where
  "left_open net requested devs i k = map (\<lambda>j. i + j) (filter (\<lambda>j. net (devs ! j) \<noteq> requested) [0..<k])"

lemma first_active_Cons:
  "first_active net requested (d # ds) (Suc k) p \<longleftrightarrow>
     first_active net requested ds k p \<and> (net d = requested \<longrightarrow> no_active_port d)"
  by (auto simp: first_active_def less_Suc_eq_0_disj)

lemma left_open_Cons:
  "left_open net requested (d # ds) i (Suc k) =
     (if net d \<noteq> requested then [i] else []) @ left_open net requested ds (Suc i) k"
proof -
  have "filter (\<lambda>j. net ((d # ds) ! j) \<noteq> requested) [0..<Suc k] =
      (if net d \<noteq> requested then [0] else []) @ map Suc (filter (\<lambda>j. net (ds ! j) \<noteq> requested) [0..<k])"
    by (simp add: upt_conv_Cons map_Suc_upt [symmetric] filter_map comp_def del: upt_Suc)
  then show ?thesis by (simp add: left_open_def)
qed

lemma find_device_from:
  assumes "\<And>d. d \<in> set devs \<Longrightarrow> good_device d" "\<And>d. d \<in> set devs \<Longrightarrow> ibdev2netdev dir (dev_name d) = Inr (net d)"
  shows "(\<exists>k p. find_device dir requested i devs = Inr (Some (i + k, p), left_open net requested devs i k @ [i + k]) \<and>
       first_active net requested devs k p) \<or>
     (\<exists>opened. find_device dir requested i devs = Inr (None, opened)) \<and> (\<forall>d \<in> set devs. net d = requested \<longrightarrow> no_active_port d)"
  using assms
proof (induction devs arbitrary: i)
  case (Cons d ds)
  have d: "good_device d" "ibdev2netdev dir (dev_name d) = Inr (net d)" using Cons.prems by auto
  note IH = Cons.IH [OF Cons.prems, of "Suc i", simplified]
  have later: ?case
    if f: "find_device dir requested i (d # ds) =
        bindE (find_device dir requested (Suc i) ds) (\<lambda>(r, opened). Inr (r, (if net d \<noteq> requested then [i] else []) @ opened))"
      and no: "net d = requested \<longrightarrow> no_active_port d"
    using IH
  proof (elim disjE exE conjE)
    fix k p assume k: "find_device dir requested (Suc i) ds = Inr (Some (Suc (i + k), p), left_open net requested ds (Suc i) k @ [Suc (i + k)])"
      "first_active net requested ds k p"
    then have "find_device dir requested i (d # ds) = Inr (Some (i + Suc k, p), left_open net requested (d # ds) i (Suc k) @ [i + Suc k])"
      using f by (simp add: left_open_Cons)
    with k(2) no show ?case using first_active_Cons by blast
  next
    fix opened assume "find_device dir requested (Suc i) ds = Inr (None, opened)" "\<forall>d \<in> set ds. net d = requested \<longrightarrow> no_active_port d"
    with f no show ?case by auto
  qed
  show ?case
  proof (cases "net d = requested")
    case False
    with d show ?thesis by (intro later) (simp_all add: good_device_def)
  next
    case True
    obtain rp where rp: "find_port d 1 = Some (Inr rp)"
      "case rp of None \<Rightarrow> \<forall>q. \<not> active_port d q | Some p \<Rightarrow> active_port d p \<and> (\<forall>q < p. \<not> active_port d q)"
      using find_port_least [OF d(1), of 1] by (auto simp: active_port_def)
    show ?thesis
    proof (cases rp)
      case None
      with True rp d show ?thesis
        by (intro later) (simp_all add: good_device_def no_active_port_def case_prod_unfold bindE_def split: sum.split)
    next
      case (Some p)
      with True rp d have "find_device dir requested i (d # ds) = Inr (Some (i + 0, p), left_open net requested (d # ds) i 0 @ [i + 0])"
        by (simp add: good_device_def left_open_def)
      moreover have "first_active net requested (d # ds) 0 p" using rp(2) Some True by (simp add: first_active_def)
      ultimately show ?thesis by blast
    qed
  qed
qed simp

text \<open>
  C29. When all devices can be opened and queried, the search returns, and finds the first device of
  the requested interface that has an active port, with its lowest such port; it finds none only
  when no device of that interface has an active port. The devices of other interfaces that it has
  opened on the way stay open.
\<close>

theorem find_device_first:
  assumes "\<And>d. d \<in> set devs \<Longrightarrow> good_device d" "\<And>d. d \<in> set devs \<Longrightarrow> ibdev2netdev dir (dev_name d) = Inr (net d)"
  shows "(\<exists>k p. find_device dir requested 0 devs = Inr (Some (k, p), left_open net requested devs 0 k @ [k]) \<and>
       first_active net requested devs k p) \<or>
     (\<exists>opened. find_device dir requested 0 devs = Inr (None, opened)) \<and> (\<forall>d \<in> set devs. net d = requested \<longrightarrow> no_active_port d)"
  using find_device_from [OF assms, where i = 0] by simp

section \<open>The queues fit the buffers\<close>


text \<open>The state of the send queue pair after a list of calls; it may only go up by one step.\<close>

fun qp_after :: "qp_state \<Rightarrow> (verbs_call \<times> string) list \<Rightarrow> qp_state option" where
  "qp_after q [] = Some q"
| "qp_after q ((Modify_qp q', msg) # cs) =
     (if (q, q') \<in> {(QPS_RESET, QPS_INIT), (QPS_INIT, QPS_RTR), (QPS_RTR, QPS_RTS)} then qp_after q' cs else None)"
| "qp_after q (c # cs) = qp_after q cs"

lemma foldE_verbs_ok:
  assumes "\<And>c v. fst (verbs c v)"
  shows "foldE (verbs_step verbs) v cs = Inr (fold (\<lambda>cm v. snd (verbs (fst cm) v)) cs v)"
  using assms by (induction cs arbitrary: v) (auto simp: verbs_step_def case_prod_unfold)

lemma foldE_verbs_fails:
  assumes "foldE (verbs_step verbs) v pre = Inr v1" "\<not> fst (verbs c v1)"
  shows "foldE (verbs_step verbs) v (pre @ (c, msg) # post) = Inl (Assert_Fail msg)"
  using assms by (simp add: foldE_append verbs_step_def case_prod_unfold)


end
