(* ===== verification/Device_Scenarios.thy ===== *)
theory Device_Scenarios
  imports Hub Mlx5_Setup
begin

text \<open>Concrete runs of the hub and of the mlx5 transport.\<close>

section \<open>The hub\<close>

definition demo_hub :: "nat \<Rightarrow> hub_state" where
  "demo_hub k = \<lparr>hub_buffer = replicate 1600 0, hub_fds = map int [10..<266], fd_count = k\<rparr>"

text \<open>Node 10 has sent two messages, node 11 has hung up.\<close>

definition demo_hub_net :: hub_net where
  "demo_hub_net = \<lparr>waiting = [], inbox = (\<lambda>_. [])(10 := [[1, 2], [3]]), outbox = \<lambda>_. [], hung_up = (\<lambda>_. False)(11 := True), select_fails = False\<rparr>"

lemma demo_hub_list: "k \<le> 256 \<Longrightarrow> hub_list (demo_hub k) = map int [10..<10 + k]"
  by (simp add: hub_list_def demo_hub_def take_map take_upt del: upt_rec_numeral)

lemma demo_hub_inv: "k \<le> 256 \<Longrightarrow> hub_inv 3 (demo_hub k)"
  by (auto simp: hub_inv_def demo_hub_list distinct_map SELECT_SETSIZE_def) (simp_all add: demo_hub_def HUB_BUFFER_def HUB_FDS_def)

theorem hub_relays_once_example:
  "\<exists>h' n'. hub_iteration 3 (demo_hub 3, demo_hub_net) = Inr (h', n') \<and> set (hub_list h') = {10, 12} \<and>
     outbox n' 12 = [[1, 2]] \<and> outbox n' 10 = []"
proof -
  have L: "hub_list (demo_hub 3) = [10, 11, 12]" by (simp add: demo_hub_list upt_rec)
  have n: "waiting demo_hub_net = []" "\<not> select_fails demo_hub_net" by (simp_all add: demo_hub_net_def)
  have sock: "0 \<le> (3::int)" "3 < SELECT_SETSIZE" by (simp_all add: SELECT_SETSIZE_def)
  have t: "talks demo_hub_net 10" "\<not> talks demo_hub_net 11" "\<not> talks demo_hub_net 12" "\<not> ends demo_hub_net 10" "ends demo_hub_net 11"
    "\<not> ends demo_hub_net 12" "message demo_hub_net 10 = [1, 2]" "\<not> hung_up demo_hub_net 10" "\<not> hung_up demo_hub_net 12"
    "outbox demo_hub_net 10 = []" "outbox demo_hub_net 12 = []"
    by (simp_all add: talks_def ends_def message_def demo_hub_net_def HUB_BUFFER_def)
  from hub_relays_once [OF demo_hub_inv [of 3] sock n] obtain h' n' where r: "hub_iteration 3 (demo_hub 3, demo_hub_net) = Inr (h', n')"
    "set (hub_list h') = {fd \<in> set [10, 11, 12]. \<not> ends demo_hub_net fd}"
    "\<And>g. g \<in> set (hub_list h') \<Longrightarrow> \<not> hung_up demo_hub_net g \<Longrightarrow> \<exists>ms. outbox n' g = outbox demo_hub_net g @ ms \<and>
       mset ms = image_mset (message demo_hub_net) (filter_mset (\<lambda>f. talks demo_hub_net f \<and> f \<noteq> g) (mset [10, 11, 12]))"
    unfolding L by auto
  have s: "set (hub_list h') = {10, 12}" using r(2) t by auto
  from r(3) [of 12] s t have "outbox n' 12 = [[1, 2]]" by auto
  moreover from r(3) [of 10] s t have "outbox n' 10 = []" by auto
  ultimately show ?thesis using r(1) s by blast
qed

theorem hub_full_example:
  "hub_iteration 3 (demo_hub 256, demo_hub_net\<lparr>waiting := [300]\<rparr>) = Inl Out_Of_Bounds"
  using hub_full [OF demo_hub_inv [of 256], of "demo_hub_net\<lparr>waiting := [300]\<rparr>" 300 "[]"]
  by (simp add: SELECT_SETSIZE_def) (simp add: demo_hub_def demo_hub_net_def HUB_FDS_def)

section \<open>The mlx5 transport\<close>

definition demo_card :: transport_t where
  "demo_card =
     \<lparr>send_buffer = 0, recv_buffer = 0, mp_recv_sge = replicate 8 \<lparr>sge_addr = 0, sge_length = 0, sge_lkey = 0\<rparr>, send_key = 0,
      recv_key = 0, per_size = 0, send_buffer_index = 0, recv_buffer_index = 0, recv_cqes = [], cqe_idx = 0, recv_index_cycle = 0,
      recv_index_to_post = 0, recvs_to_post = 0, sends_to_signal = 0, posted_recvs = [], posted_sends = [], pending_recv = 0\<rparr>"

text \<open>The card reports 1024 packets before the first poll.\<close>

lemma demo_setup: "\<exists>tr. setup_recv (\<lambda>_. True) 8 (65536, 7) demo_card = Inr tr"
  by (simp add: demo_card_def setup_recv_def shape_cq_def post_wq_recv_def fill_recv_wr_def arr_set_def Let_def upt_rec)

lemma demo_reported:
  obtains tr where "mlx5_run (\<lambda>_. True) 32 tr [1024] 0 []" "pending_recv tr = 0"
proof -
  from demo_setup obtain tr where tr: "setup_recv (\<lambda>_. True) 8 (65536, 7) demo_card = Inr tr" by blast
  have "mlx5_run (\<lambda>_. True) 32 (setup_send (131072, 9) tr) [] 0 []"
    by (rule run_setup [OF tr]) (simp_all add: demo_card_def)
  from run_complete [OF this, of 1024] have "mlx5_run (\<lambda>_. True) 32 (card_complete 1024 [] (setup_send (131072, 9) tr)) [1024] 0 []"
    by simp
  moreover from run_inv_reach [OF this] have "pending_recv (card_complete 1024 [] (setup_send (131072, 9) tr)) = 0"
    by (simp add: run_inv_def csum_to_def)
  ultimately show ?thesis by (rule that)
qed

lemma demo_first:
  obtains a tr where "mlx5_run (\<lambda>_. True) 32 tr [1024] 1 [a]"
proof -
  obtain tr where tr: "mlx5_run (\<lambda>_. True) 32 tr [1024] 0 []" "pending_recv tr = 0" by (rule demo_reported)
  from poll_hands_out [OF this(1)] obtain a tr' where "mlx5_poll_packet (\<lambda>_. True) 32 tr = Inr ((a, MLX5_MTU), tr')" by auto
  from run_packet [OF tr(1) this] tr(2) that show ?thesis by (simp add: MLX5_MTU_def)
qed

theorem mlx5_poll_progress_example:
  "\<exists>tr a tr'. mlx5_run (\<lambda>_. True) 32 tr [1024] 0 [] \<and> mlx5_poll_packet (\<lambda>_. True) 32 tr = Inr ((a, MLX5_MTU), tr')"
proof -
  obtain tr where "mlx5_run (\<lambda>_. True) 32 tr [1024] 0 []" by (rule demo_reported)
  with mlx5_poll_progress [OF this] show ?thesis by fastforce
qed

theorem mlx5_packets_in_order_example:
  "\<exists>tr a. mlx5_run (\<lambda>_. True) 32 tr [1024] 1 [a] \<and> a = sge_addr (recv_wr_sg (posted_recvs tr ! 0)) - 32"
proof -
  obtain a tr where "mlx5_run (\<lambda>_. True) 32 tr [1024] 1 [a]" by (rule demo_first)
  with mlx5_packets_in_order [OF this] show ?thesis by auto
qed

theorem mlx5_reposted_unread_example:
  "\<exists>tr a. mlx5_run (\<lambda>_. True) 32 tr [1024] 1 [a] \<and> 8 < length (posted_recvs tr) \<and> posted_recvs tr ! 8 = posted_recvs tr ! 0"
proof -
  obtain a tr where "mlx5_run (\<lambda>_. True) 32 tr [1024] 1 [a]" by (rule demo_first)
  with mlx5_reposted_unread [OF this, of 1] show ?thesis by (auto simp: csum_to_def)
qed

theorem mlx5_send_buffers_distinct_example:
  "distinct (fst (request_buffers 512 demo_card)) \<and> fst (request_buffers 513 demo_card) ! 512 = fst (request_buffers 513 demo_card) ! 0"
  by (rule mlx5_send_buffers_distinct [of demo_card 0]) (simp_all add: demo_card_def)

section \<open>Starting the mlx5 transport\<close>

theorem round_up_least_example: "round_up kHugePageSize (1024 * 512 * 8 + 4096) = Inr (3 * kHugePageSize)"
proof -
  have "(0 :: int) \<le> 1024 * 512 * 8 + 4096" "1024 * 512 * 8 + 4096 + kHugePageSize - 1 < 2 ^ 31" by (simp_all add: kHugePageSize_def)
  from round_up_least [OF this] obtain y where y: "round_up kHugePageSize (1024 * 512 * 8 + 4096) = Inr y" "kHugePageSize dvd y"
    "1024 * 512 * 8 + 4096 \<le> y" "y < 1024 * 512 * 8 + 4096 + kHugePageSize" by blast
  from y(2) obtain m where m: "y = kHugePageSize * m" ..
  with y(3,4) have "m = 3" by (simp add: kHugePageSize_def)
  with y(1) m show ?thesis by simp
qed

text \<open>Two cards; the interface belongs to the second, whose port 2 is active.\<close>

definition demo_device :: "string \<Rightarrow> ib_device" where
  "demo_device name = \<lparr>dev_opens = True, dev_queries = True, dev_name = name, phys_port_cnt = 2,
     dev_port = (\<lambda>p. (True, if p = 2 then IBV_PORT_ACTIVE_DEFER else 3)), dev_closes = True\<rparr>"

definition demo_netdev :: "ib_device \<Rightarrow> string" where
  "demo_netdev d = (if dev_name d = ''mlx5_0'' then ''eth0'' else ''eth1'')"

definition demo_dir :: "string \<Rightarrow> string list option" where
  "demo_dir d =
     (if d = ''/sys/class/infiniband/mlx5_0/device/net'' then Some [''.'', ''..'', ''eth0'']
      else if d = ''/sys/class/infiniband/mlx5_1/device/net'' then Some [''.'', ''..'', ''eth1''] else None)"

theorem find_device_first_example:
  "find_device demo_dir ''eth1'' 0 [demo_device ''mlx5_0'', demo_device ''mlx5_1''] = Inr (Some (1, 2), [0, 1])"
proof -
  let ?devs = "[demo_device ''mlx5_0'', demo_device ''mlx5_1'']"
  have g: "good_device d" "ibdev2netdev demo_dir (dev_name d) = Inr (demo_netdev d)" if "d \<in> set ?devs" for d
    using that by (auto simp: good_device_def demo_device_def demo_netdev_def ibdev2netdev_def demo_dir_def)
  have act: "active_port (demo_device name) p \<longleftrightarrow> p = 2" for name p
    by (auto simp: active_port_def demo_device_def port_active_def IBV_PORT_ACTIVE_def IBV_PORT_ACTIVE_DEFER_def split: if_splits)
  have net: "demo_netdev (demo_device ''mlx5_0'') = ''eth0''" "demo_netdev (demo_device ''mlx5_1'') = ''eth1''"
    by (simp_all add: demo_netdev_def demo_device_def)
  have "\<not> no_active_port (demo_device ''mlx5_1'')" by (simp add: no_active_port_def act)
  then obtain k p where "find_device demo_dir ''eth1'' 0 ?devs = Inr (Some (k, p), left_open demo_netdev ''eth1'' ?devs 0 k @ [k])"
    "first_active demo_netdev ''eth1'' ?devs k p"
    using find_device_first [OF g, where requested = "''eth1''"] net by fastforce
  moreover from this(2) have "k = 1" "p = 2"
    by (auto simp: first_active_def act net nth_Cons' less_Suc_eq split: if_splits)
  ultimately show ?thesis by (simp add: left_open_def net)
qed


end
