(* ===== verification/Ip_Checksum.thy ===== *)
theory Ip_Checksum
  imports Checksum_Module Routing_Module
begin

unbundle bit_operations_syntax

text \<open>
  The header checksum of the Internet protocol (\<open>nb__do_ip_checksum\<close> of
  \<open>runtime/nb_runtime.c\<close>) against its definition: the complement of the sum of the 16-bit
  words in ones' complement arithmetic, where the carry of every addition is added again. The code
  adds in 32 bits and folds the carries twice at the end.
\<close>

section \<open>Ones' complement arithmetic\<close>

definition oc_add :: "nat \<Rightarrow> nat \<Rightarrow> nat" where
  "oc_add a b = (a + b) mod 65536 + (a + b) div 65536"

definition ones_sum :: "nat list \<Rightarrow> nat" where
  "ones_sum ws = fold oc_add ws 0"

text \<open>The representative of a sum: zero only for zero, otherwise 1 to 65535.\<close>

definition oc_norm :: "nat \<Rightarrow> nat" where
  "oc_norm s = (if s = 0 then 0 else (s - 1) mod 65535 + 1)"

lemma oc_norm_le: "oc_norm s \<le> 65535"
  using mod_less_divisor [of 65535 "s - 1"] by (auto simp: oc_norm_def)

lemma oc_norm_unique:
  assumes "s = 65535 * q + x" "0 < x" "x \<le> 65535"
  shows "oc_norm s = x"
proof -
  obtain y where y: "x = Suc y" "y < 65535" using assms(2,3) by (cases x) auto
  then have "s - 1 = 65535 * q + y" using assms(1) by simp
  with y assms(1) show ?thesis by (simp add: oc_norm_def)
qed

lemma oc_normE:
  assumes "0 < s"
  obtains q where "s = 65535 * q + oc_norm s" "0 < oc_norm s"
proof
  show "s = 65535 * ((s - 1) div 65535) + oc_norm s"
    using assms mult_div_mod_eq [of 65535 "s - 1"] by (simp add: oc_norm_def)
  show "0 < oc_norm s" using assms by (simp add: oc_norm_def)
qed

lemma oc_norm_id: "x \<le> 65535 \<Longrightarrow> oc_norm x = x"
  using oc_norm_unique [of x 0 x] by (cases "x = 0") (auto simp: oc_norm_def)

text \<open>Folding the carry keeps the representative.\<close>

lemma oc_norm_fold: "oc_norm (s mod 65536 + s div 65536) = oc_norm s"
proof (cases "s = 0")
  case False
  let ?t = "s mod 65536 + s div 65536"
  have s: "s = 65535 * (s div 65536) + ?t" using mult_div_mod_eq [of 65536 s] by simp
  with False have "0 < ?t" by (cases "s div 65536 = 0") auto
  then obtain q where q: "?t = 65535 * q + oc_norm ?t" "0 < oc_norm ?t" by (rule oc_normE)
  have "s = 65535 * (s div 65536 + q) + oc_norm ?t" using s q(1) by (simp only: distrib_left add.assoc)
  then show ?thesis by (rule oc_norm_unique [symmetric]) (use q oc_norm_le in auto)
qed simp

lemma oc_norm_add: "oc_norm (oc_norm s + x) = oc_norm (s + x)"
proof (cases "s = 0")
  case False
  then obtain q where q: "s = 65535 * q + oc_norm s" "0 < oc_norm s" using oc_normE by blast
  let ?t = "oc_norm s + x"
  obtain q' where q': "?t = 65535 * q' + oc_norm ?t" "0 < oc_norm ?t" using q(2) oc_normE [of ?t] by auto
  have "s + x = 65535 * (q + q') + oc_norm ?t" using q(1) q'(1) by simp
  then show ?thesis by (rule oc_norm_unique [symmetric]) (use q' oc_norm_le in auto)
qed (simp add: oc_norm_def)

lemma oc_add_norm:
  assumes "a \<le> 65535" "b \<le> 65535"
  shows "oc_add a b = oc_norm (a + b)"
proof -
  have "oc_add a b \<le> 65535"
  proof (cases "a + b < 65536")
    case False
    then have "(a + b) div 65536 = 1" "(a + b) mod 65536 = a + b - 65536" using assms by (auto simp: div_nat_eqI le_mod_geq)
    then show ?thesis using assms by (simp add: oc_add_def)
  qed (simp add: oc_add_def)
  then show ?thesis using oc_norm_fold [of "a + b"] by (simp add: oc_add_def oc_norm_id)
qed

lemma ones_sum_norm: "(\<And>w. w \<in> set ws \<Longrightarrow> w \<le> 65535) \<Longrightarrow> ones_sum ws = oc_norm (sum_list ws)"
proof (induction ws rule: rev_induct)
  case (snoc w ws)
  then have "ones_sum (ws @ [w]) = oc_add w (oc_norm (sum_list ws))" by (simp add: ones_sum_def)
  also have "\<dots> = oc_norm (sum_list ws + w)"
    using snoc.prems oc_norm_add [of "sum_list ws" w] by (simp add: oc_add_norm oc_norm_le add.commute)
  finally show ?case by simp
qed (simp add: ones_sum_def oc_norm_def)

section \<open>The sum of the code\<close>

text \<open>The words of the header in network order.\<close>

definition be16 :: "u8 \<Rightarrow> u8 \<Rightarrow> nat" where
  "be16 b0 b1 = 256 * unat b0 + unat b1"

definition header_words :: "u8 list \<Rightarrow> nat \<Rightarrow> nat \<Rightarrow> nat list" where
  "header_words b off n = map (\<lambda>i. be16 (b ! (off + 2 * i)) (b ! (off + 2 * i + 1))) [0..<n]"

lemma unat_u8: "unat (w :: u8) < 256"
  by (rule order_less_le_trans [OF unsigned_less]) simp

lemma be16_le: "be16 b0 b1 \<le> 65535"
  using unat_u8 [of b0] unat_u8 [of b1] by (simp add: be16_def)

lemma sum_header_words: "sum_list (header_words b off n) \<le> 65535 * n"
  by (induction n) (use be16_le in \<open>auto simp: header_words_def add_mono add.commute\<close>)

lemma unat_ntohs_le16: "unat (ntohs (le16 b0 b1)) = be16 b0 b1"
proof -
  have "ntohs (le16 b0 b1) = push_bit 8 (ucast b0) OR ucast b1"
    by (rule bit_word_eqI) (auto simp: ntohs_def htons_def bit_le16 bit_simps bit_imp_le_length dest: bit_imp_le_length)
  also have "\<dots> = push_bit 8 (ucast b0) + ucast b1"
    by (rule disjunctive_add [symmetric]) (auto simp: bit_simps dest: bit_imp_le_length)
  finally show ?thesis
    using be16_le [of b0 b1] unat_u8 [of b0]
    by (simp add: be16_def push_bit_eq_mult unat_word_ariths unsigned_ucast_eq take_bit_nat_eq_self)
qed

lemma ip_word_sum_ok:
  assumes "off + 2 * n \<le> length b" "n \<le> 65536"
  shows "\<exists>w. ip_word_sum b off (2 * n) = Inr w \<and> unat w = sum_list (header_words b off n)"
  using assms
proof (induction n)
  case (Suc n)
  then obtain w where w: "ip_word_sum b off (2 * n) = Inr w" "unat w = sum_list (header_words b off n)" by auto
  let ?x = "ntohs (le16 (b ! (off + 2 * n)) (b ! Suc (off + 2 * n)))"
  have step: "ip_word_sum b off (2 * Suc n) = Inr (w + ucast ?x)"
    using w(1) Suc.prems(1) by (simp add: ip_word_sum_def foldE_append buf_read_2 le16_def)
  have "sum_list (header_words b off (Suc n)) = unat w + unat ?x"
    using w(2) by (simp add: header_words_def unat_ntohs_le16)
  moreover have "unat w + unat ?x < 2 ^ 32"
    using calculation sum_header_words [of b off "Suc n"] Suc.prems(2) by simp
  ultimately show ?case
    using step by (simp add: unat_word_ariths unsigned_ucast_eq take_bit_nat_eq_self)
qed (simp add: ip_word_sum_def header_words_def)

text \<open>The two folds at the end.\<close>

lemma fold_carry:
  fixes w :: u32
  shows "unat ((w AND 0xffff) + (drop_bit 16 w AND 0xffff)) = unat w mod 65536 + unat w div 65536"
proof -
  have "0xffff = (mask 16 :: u32)" by (simp add: mask_eq_exp_minus_1)
  then have 1: "unat (w AND 0xffff) = unat w mod 65536" "unat (drop_bit 16 w AND 0xffff) = unat w div 65536 mod 65536"
    by (simp_all only: take_bit_eq_mask [symmetric] unsigned_take_bit_eq) (simp_all add: take_bit_eq_mod drop_bit_eq_div unat_div_distrib)
  have "unat w < 4294967296" by (rule order_less_le_trans [OF unsigned_less]) simp
  then have "unat w div 65536 < 65536" by (simp add: less_mult_imp_div_less)
  with 1 show ?thesis by (simp add: unat_word_ariths)
qed

lemma fold_twice:
  assumes "s < 2 ^ 32"
  defines "t \<equiv> s mod 65536 + s div 65536"
  shows "t mod 65536 + t div 65536 = oc_norm s"
proof -
  have "s div 65536 < 65536" using assms(1) by (simp add: less_mult_imp_div_less)
  then have t: "t \<le> 131070" using mod_less_divisor [of 65536 s] by (simp add: t_def)
  have "t mod 65536 + t div 65536 \<le> 65535"
  proof (cases "t < 65536")
    case False
    then have "t div 65536 = 1" "t mod 65536 = t - 65536" using t by (auto simp: div_nat_eqI le_mod_geq)
    then show ?thesis using t by simp
  qed simp
  then show ?thesis using oc_norm_fold [of t] oc_norm_fold [of s] by (simp add: t_def oc_norm_id)
qed

lemma complement_16:
  assumes "x \<le> 65535"
  shows "(of_nat x AND 0xffff :: u32) XOR 0xffff = of_nat (65535 - x)"
proof -
  define v where "v = (of_nat x :: u32)"
  have m: "0xffff = (mask 16 :: u32)" by (simp add: mask_eq_exp_minus_1)
  have t: "take_bit 16 v = v"
    using assms by (intro word_unat_eq_iff [THEN iffD2]) (simp add: v_def unsigned_take_bit_eq unat_of_nat take_bit_nat_eq_self)
  then have a: "v AND 0xffff = v" unfolding m by (simp only: take_bit_eq_mask)
  have low: "k < 16" if "bit v k" for k using that t by (metis bit_take_bit_iff)
  have "v + (v XOR mask 16) = v OR (v XOR mask 16)"
    by (rule disjunctive_add) (auto simp: bit_simps dest: low)
  also have "\<dots> = mask 16" by (rule bit_word_eqI) (auto simp: bit_simps dest: low)
  finally have "v + (v XOR 0xffff) = 0xffff" by (simp only: m)
  then have "v XOR 0xffff = 65535 - v" by (metis add_diff_cancel_left')
  with a show ?thesis using assms by (simp add: v_def of_nat_diff)
qed

lemma ip_checksum_norm:
  assumes "off + 2 * n \<le> length b" "n \<le> 65536"
  shows "nb__do_ip_checksum b off (2 * n) = Inr (htons (of_nat (65535 - oc_norm (sum_list (header_words b off n)))))"
proof -
  obtain w where w: "ip_word_sum b off (2 * n) = Inr w" "unat w = sum_list (header_words b off n)"
    using ip_word_sum_ok [OF assms] by blast
  let ?f = "\<lambda>w :: u32. (w AND 0xffff) + (drop_bit 16 w AND 0xffff)"
  have "unat w < 2 ^ 32" by (rule order_less_le_trans [OF unsigned_less]) simp
  then have f: "unat (?f (?f w)) = oc_norm (unat w)" by (simp only: fold_carry fold_twice)
  let ?x = "oc_norm (unat w)"
  have "?f (?f w) = of_nat ?x" using f oc_norm_le [of "unat w"] by (intro word_unat_eq_iff [THEN iffD2]) (simp add: unat_of_nat)
  moreover have "(of_nat ?x AND 0xffff :: u32) XOR 0xffff = of_nat (65535 - ?x)" using oc_norm_le by (rule complement_16)
  ultimately show ?thesis
    using w by (simp add: nb__do_ip_checksum_def Let_def unsigned_of_nat take_bit_nat_eq_self)
qed

section \<open>Sending and checking a header\<close>

lemma sum_list_map_upd:
  assumes "j < n" "f j = (0 :: nat)" "\<And>i. i < n \<Longrightarrow> i \<noteq> j \<Longrightarrow> g i = f i"
  shows "sum_list (map g [0..<n]) = sum_list (map f [0..<n]) + g j"
proof -
  have "sum f {..<n} = sum f ({..<n} - {j})" "sum g {..<n} = g j + sum g ({..<n} - {j})"
    using assms(1,2) by (simp_all add: sum.remove [of _ j])
  moreover have "sum g ({..<n} - {j}) = sum f ({..<n} - {j})" using assms(3) by (intro sum.cong) auto
  ultimately show ?thesis by (simp add: interv_sum_list_conv_sum_set_nat atLeast0LessThan)
qed

lemma header_words_put:
  assumes "off + 2 * n \<le> length b" "j < n" "b ! (off + 2 * j) = 0" "b ! (off + 2 * j + 1) = 0"
    and "buf_write 2 (off + 2 * j) (ucast (htons (of_nat x))) b = Inr b'" "x \<le> 65535"
  shows "sum_list (header_words b' off n) = sum_list (header_words b off n) + x"
proof -
  let ?v = "ucast (htons (of_nat x)) :: u64"
  have b': "b' = b[off + 2 * j := ucast ?v, Suc (off + 2 * j) := ucast (drop_bit 8 ?v)]"
    using assms(1,2,5) write_2 [of "off + 2 * j" b ?v] by simp
  have "le16 (ucast ?v) (ucast (drop_bit 8 ?v)) = htons (of_nat x)"
    by (rule bit_word_eqI) (auto simp: bit_le16 bit_simps)
  then have "be16 (ucast ?v) (ucast (drop_bit 8 ?v)) = unat (ntohs (htons (of_nat x)))"
    using unat_ntohs_le16 by metis
  also have "\<dots> = x" using assms(6) by (simp add: unat_of_nat)
  finally have x: "be16 (b' ! (off + 2 * j)) (b' ! (off + 2 * j + 1)) = x" using assms(1,2) by (simp add: b')
  have "off + 2 * i \<noteq> off + 2 * j + 1" "off + 2 * i + 1 \<noteq> off + 2 * j" for i by presburger+
  then have "be16 (b' ! (off + 2 * i)) (b' ! (off + 2 * i + 1)) = be16 (b ! (off + 2 * i)) (b ! (off + 2 * i + 1))" if "i < n" "i \<noteq> j" for i
    using that by (simp add: b')
  with assms(2-4) x show ?thesis
    unfolding header_words_def by (subst sum_list_map_upd [of j n]) (auto simp: be16_def)
qed

text \<open>
  C15. For headers of up to 65536 words \<open>nb__do_ip_checksum\<close> is the complement of the ones'
  complement sum of the words in network order, itself in network order. When it is stored in a word
  of the header that was zero, the checksum over the header becomes zero, which is what a receiver
  tests.
\<close>

theorem ip_checksum_ones_complement:
  assumes "off + 2 * n \<le> length b" "n \<le> 65536"
  shows "nb__do_ip_checksum b off (2 * n) = Inr (htons (of_nat (65535 - ones_sum (header_words b off n)))) \<and>
    (\<forall>j b' ck. j < n \<and> b ! (off + 2 * j) = 0 \<and> b ! (off + 2 * j + 1) = 0 \<and> nb__do_ip_checksum b off (2 * n) = Inr ck \<and>
       buf_write 2 (off + 2 * j) (ucast ck) b = Inr b' \<longrightarrow> nb__do_ip_checksum b' off (2 * n) = Inr 0)"
proof -
  let ?s = "sum_list (header_words b off n)"
  have "ones_sum (header_words b off n) = oc_norm ?s" by (rule ones_sum_norm) (auto simp: header_words_def be16_le)
  then have ck: "nb__do_ip_checksum b off (2 * n) = Inr (htons (of_nat (65535 - ones_sum (header_words b off n))))"
    using ip_checksum_norm [OF assms] by simp
  have "nb__do_ip_checksum b' off (2 * n) = Inr 0"
    if j: "j < n" "b ! (off + 2 * j) = 0" "b ! (off + 2 * j + 1) = 0" and w: "buf_write 2 (off + 2 * j) (ucast (htons (of_nat (65535 - oc_norm ?s)))) b = Inr b'" for j b'
  proof -
    have s': "sum_list (header_words b' off n) = ?s + (65535 - oc_norm ?s)" using header_words_put [OF assms(1) j w] by simp
    have "oc_norm (?s + (65535 - oc_norm ?s)) = 65535"
    proof (cases "?s = 0")
      case False
      then obtain q where "?s = 65535 * q + oc_norm ?s" using oc_normE by blast
      then have "?s + (65535 - oc_norm ?s) = 65535 * q + 65535" using oc_norm_le [of ?s] by linarith
      then show ?thesis by (rule oc_norm_unique) auto
    qed (simp add: oc_norm_def)
    then show ?thesis
      using ip_checksum_norm [of off n b'] assms length_buf_write [OF w] s' by (simp add: htons_def)
  qed
  with ck show ?thesis using ip_checksum_norm [OF assms] by auto
qed

end
