(* ===== verification/Wireshark_Plugin.thy ===== *)
theory Wireshark_Plugin
  imports Framework Packet_Fields
begin

text \<open>
  The generator of a Wireshark plugin (\<open>src/core/genplugin.cpp\<close>) and the functions
  \<open>serialize_for_debug\<close> of the members (\<open>include/core/packet.h\<close>): the generated
  function shows for every member on the wire its name, its value, and the bytes it occupies.
  Memory is a list of characters; \<open>malloc k n\<close> gives the contents of call \<open>k\<close>,
  or nothing when there is no memory.
\<close>

section \<open>Formatted output\<close>

text \<open>The conversions \<open>%llu\<close> and \<open>%02x\<close> of \<open>sprintf\<close>.\<close>

definition dec_digit :: "nat \<Rightarrow> char" where
  "dec_digit d = char_of (48 + d)"

fun fmt_llu :: "nat \<Rightarrow> string" where
  "fmt_llu n = (if n < 10 then [dec_digit n] else fmt_llu (n div 10) @ [dec_digit (n mod 10)])"

declare fmt_llu.simps [simp del]

definition hex_digit :: "nat \<Rightarrow> char" where
  "hex_digit d = (if d < 10 then char_of (48 + d) else char_of (87 + d))"

definition fmt_02x :: "u8 \<Rightarrow> string" where
  "fmt_02x b = [hex_digit (unat b div 16), hex_digit (unat b mod 16)]"

text \<open>\<open>sprintf\<close> writes the characters and a terminating zero and returns their number.\<close>

definition sprintf_at :: "nat \<Rightarrow> string \<Rightarrow> string \<Rightarrow> (nat \<times> string) res" where
  "sprintf_at seek str mem =
     (if seek + length str + 1 \<le> length mem
      then Inr (length str, take seek mem @ str @ [CHR 0x00] @ drop (seek + length str + 1) mem)
      else Inl Out_Of_Bounds)"

definition c_string :: "string \<Rightarrow> string" where
  "c_string mem = takeWhile (\<lambda>c. c \<noteq> CHR 0x00) mem"

section \<open>The value of a member\<close>

text \<open>\<open>generic_integer_member::serialize_for_debug\<close>; \<open>data\<close> are the bytes of \<open>val\<close> in memory.\<close>

definition gi_serialize_for_debug :: "string option \<Rightarrow> c_int_type \<Rightarrow> u64 \<Rightarrow> string res" where
  "gi_serialize_for_debug malloced T val =
     bindE (of_option Null_Deref malloced) (\<lambda>buffer.
     bindE (sprintf_at 0 (fmt_llu (unat val) @ '' ('') buffer) (\<lambda>(k, buffer).
     let data = word_le 8 val in
     bindE (foldE (\<lambda>(seek, buffer) i.
         bindE (arr_get data i) (\<lambda>d.
         bindE (sprintf_at seek (fmt_02x d @ '':'') buffer) (\<lambda>(k, buffer). Inr (seek + k, buffer))))
       (k, buffer) [0..<t_bytes T]) (\<lambda>(seek, buffer).
     bindE (guardE (1 \<le> seek) Out_Of_Bounds) (\<lambda>_.
     bindE (sprintf_at (seek - 1) '')'' buffer) (\<lambda>(k, buffer).
     Inr buffer)))))"

text \<open>\<open>byte_array_member::serialize_for_debug\<close>.\<close>

definition ba_serialize_for_debug :: "string option \<Rightarrow> string res" where
  "ba_serialize_for_debug malloced =
     bindE (of_option Null_Deref malloced) (\<lambda>val.
     foldE (\<lambda>val (i, c). arr_set val i c) val
       [(0, CHR ''<''), (1, CHR ''d''), (2, CHR ''a''), (3, CHR ''t''), (4, CHR ''a''), (5, CHR ''>''), (6, CHR 0x00)])"

definition serialize_for_debug :: "(nat \<Rightarrow> string option) \<Rightarrow> dynamic_layout \<Rightarrow> string \<Rightarrow> u8 list \<Rightarrow> string res" where
  "serialize_for_debug malloc L name base =
     bindE (layout_member L name) (\<lambda>m.
     case m_kind m of
       Generic_Integer g \<Rightarrow>
         bindE (get_integer L name base) (\<lambda>val. gi_serialize_for_debug (malloc 1024) (gi_type g) val)
     | Byte_Array n \<Rightarrow> ba_serialize_for_debug (malloc 7))"

section \<open>The plugin\<close>

text \<open>
  The calls of \<open>proto_tree_add_subtree_format\<close>. \<open>base\<close> is the memory from
  \<open>packet - get_headroom()\<close>. The order of the loops is the order of the groups.
\<close>

record subtree =
  st_start :: int
  st_len :: nat
  st_name :: string
  st_text :: string

definition add_subtree ::
  "(nat \<Rightarrow> nat \<Rightarrow> string option) \<Rightarrow> dynamic_layout \<Rightarrow> u8 list \<Rightarrow> subtree list \<Rightarrow> string \<Rightarrow> subtree list res" where
  "add_subtree malloc L base out field_name =
     bindE (serialize_for_debug (malloc (length out)) L field_name base) (\<lambda>val.
     bindE (layout_member L field_name) (\<lambda>m.
     bindE (member_offset L field_name) (\<lambda>off.
     bindE (get_headroom L) (\<lambda>headroom.
     let start = int (off div byte_size) - int headroom;
         len = align_to (get_size m) byte_size div byte_size in
     Inr (out @ [\<lparr>st_start = start, st_len = len, st_name = field_name, st_text = c_string val\<rparr>])))))"

definition iterate_and_generate ::
  "(nat \<Rightarrow> nat \<Rightarrow> string option) \<Rightarrow> dynamic_layout \<Rightarrow> u8 list \<Rightarrow> subtree list res" where
  "iterate_and_generate malloc L base =
     foldE (\<lambda>out g. foldE (add_subtree malloc L base) out (m_registered_members L ! g))
       [] [1..<length (m_registered_members L)]"

section \<open>What the plugin shows\<close>

text \<open>The text for a value: decimal, and the bytes of the type in hexadecimal.\<close>

fun join :: "string \<Rightarrow> string list \<Rightarrow> string" where
  "join sep [] = []"
| "join sep [x] = x"
| "join sep (x # y # xs) = x @ sep @ join sep (y # xs)"

definition show_value :: "c_int_type \<Rightarrow> u64 \<Rightarrow> string" where
  "show_value T val = fmt_llu (unat val) @ '' ('' @ join '':'' (map fmt_02x (word_le (t_bytes T) val)) @ '')''"

lemma length_fmt_llu: "n < 10 ^ Suc k \<Longrightarrow> length (fmt_llu n) \<le> Suc k"
proof (induction k arbitrary: n)
  case 0
  then show ?case by (simp add: fmt_llu.simps)
next
  case (Suc k)
  then have "n div 10 < 10 ^ Suc k" by (simp add: less_mult_imp_div_less)
  with Suc.IH [of "n div 10"] show ?case by (subst fmt_llu.simps) simp
qed

lemma char_nonzero: "0 < k \<Longrightarrow> k < 256 \<Longrightarrow> (char_of (k :: nat) :: char) \<noteq> CHR 0x00"
proof
  assume "0 < k" "k < 256" "char_of k = CHR 0x00"
  then have "of_char (char_of k :: char) = (0 :: nat)" by simp
  with \<open>0 < k\<close> \<open>k < 256\<close> show False by (simp only: of_char_of) simp
qed

lemma fmt_llu_nonzero: "CHR 0x00 \<notin> set (fmt_llu n)"
proof (induction n rule: fmt_llu.induct)
  case (1 n)
  have "CHR 0x00 \<noteq> dec_digit d" if "d < 10" for d
    using that char_nonzero [of "48 + d"] by (simp add: dec_digit_def eq_commute)
  with 1 show ?case by (subst fmt_llu.simps) auto
qed

lemma fmt_02x_nonzero: "CHR 0x00 \<notin> set (fmt_02x b)"
proof -
  have "unat b < 256" by (rule order_less_le_trans [OF unsigned_less]) simp
  then have "unat b div 16 < 16" by (simp add: less_mult_imp_div_less)
  moreover have "CHR 0x00 \<noteq> hex_digit d" if "d < 16" for d
    using that char_nonzero [of "48 + d"] char_nonzero [of "87 + d"] by (simp add: hex_digit_def eq_commute)
  ultimately show ?thesis by (auto simp: fmt_02x_def)
qed

text \<open>The memory starts with a string and its terminating zero, and has room for \<open>N\<close> characters.\<close>

definition holds_string :: "nat \<Rightarrow> string \<Rightarrow> string \<Rightarrow> bool" where
  "holds_string N str mem \<longleftrightarrow> length mem = N \<and> (\<exists>rest. mem = str @ CHR 0x00 # rest)"

lemma sprintf_extends:
  assumes "holds_string N (str @ old) mem" "length str + length new < N"
  shows "\<exists>mem'. sprintf_at (length str) new mem = Inr (length new, mem') \<and> holds_string N (str @ new) mem'"
  using assms by (auto simp: holds_string_def sprintf_at_def)

lemma sprintf_start:
  assumes "length mem = N" "length new < N"
  shows "\<exists>mem'. sprintf_at 0 new mem = Inr (length new, mem') \<and> holds_string N new mem'"
  using assms by (auto simp: holds_string_def sprintf_at_def)

lemma c_string_holds: "holds_string N str mem \<Longrightarrow> CHR 0x00 \<notin> set str \<Longrightarrow> c_string mem = str"
  by (auto simp: holds_string_def c_string_def takeWhile_append)

lemma join_snoc: "concat (map (\<lambda>x. x @ [c]) (xs @ [x])) = join [c] (xs @ [x]) @ [c]"
  by (induction xs rule: induct_list012) auto

lemma byte_loop:
  assumes "holds_string 1024 str mem" "length str \<le> 100" "m \<le> 8"
  shows "\<exists>mem'. foldE (\<lambda>(seek, buffer) i.
         bindE (arr_get (word_le 8 val) i) (\<lambda>d.
         bindE (sprintf_at seek (fmt_02x d @ '':'') buffer) (\<lambda>(k, buffer). Inr (seek + k, buffer))))
       (length str, mem) [0..<m] =
     Inr (length (str @ concat (map (\<lambda>d. fmt_02x d @ '':'') (word_le m val))), mem') \<and>
     holds_string 1024 (str @ concat (map (\<lambda>d. fmt_02x d @ '':'') (word_le m val))) mem'"
  using assms(3)
proof (induction m)
  case 0
  with assms(1) show ?case by (simp add: word_le_def)
next
  case (Suc m)
  let ?pre = "str @ concat (map (\<lambda>d. fmt_02x d @ '':'') (word_le m val))" and ?d = "word_le 8 val ! m"
  from Suc obtain mem1 where IH: "foldE (\<lambda>(seek, buffer) i.
         bindE (arr_get (word_le 8 val) i) (\<lambda>d.
         bindE (sprintf_at seek (fmt_02x d @ '':'') buffer) (\<lambda>(k, buffer). Inr (seek + k, buffer))))
       (length str, mem) [0..<m] = Inr (length ?pre, mem1)" "holds_string 1024 ?pre mem1" by auto
  have three: "length (fmt_02x d @ '':'') = 3" for d by (simp add: fmt_02x_def)
  have "length (concat (map (\<lambda>d. fmt_02x d @ '':'') (word_le m val))) = 3 * m"
    by (simp only: length_concat map_map comp_def three sum_list_triv) (simp add: word_le_def)
  then have room: "length ?pre + length (fmt_02x ?d @ '':'') < 1024" using assms(2) Suc.prems three [of ?d] by simp
  obtain mem' where mem': "sprintf_at (length ?pre) (fmt_02x ?d @ '':'') mem1 = Inr (length (fmt_02x ?d @ '':''), mem')"
    "holds_string 1024 (?pre @ fmt_02x ?d @ '':'') mem'"
    using sprintf_extends [of 1024 ?pre "[]" mem1 "fmt_02x ?d @ '':''"] IH(2) room by auto
  have "word_le (Suc m) val = word_le m val @ [?d]" "arr_get (word_le 8 val) m = Inr ?d"
    using Suc.prems by (simp_all add: word_le_def)
  with IH(1) mem' show ?case by (auto simp: foldE_append)
qed

lemma gi_serialize_ok:
  assumes "malloced = Some mem" "length mem = 1024" "0 < t_bytes T" "t_bytes T \<le> 8"
  shows "\<exists>buffer. gi_serialize_for_debug malloced T val = Inr buffer \<and> c_string buffer = show_value T val"
proof -
  let ?num = "fmt_llu (unat val) @ '' (''" and ?bytes = "\<lambda>m. concat (map (\<lambda>d. fmt_02x d @ '':'') (word_le m val))"
  obtain m where m: "t_bytes T = Suc m" using assms(3) by (cases "t_bytes T") auto
  have "unat val < 10 ^ Suc 19" by (rule order_less_le_trans [OF unsigned_less]) simp
  then have num: "length ?num \<le> 22" using length_fmt_llu [of "unat val" 19] by simp
  then obtain mem1 where mem1: "sprintf_at 0 ?num mem = Inr (length ?num, mem1)" "holds_string 1024 ?num mem1"
    using sprintf_start [of mem 1024 ?num] assms(2) by auto
  from byte_loop [OF mem1(2), of "t_bytes T" val] num assms(4) obtain mem2 where mem2:
    "foldE (\<lambda>(seek, buffer) i. bindE (arr_get (word_le 8 val) i) (\<lambda>d.
         bindE (sprintf_at seek (fmt_02x d @ '':'') buffer) (\<lambda>(k, buffer). Inr (seek + k, buffer))))
       (length ?num, mem1) [0..<t_bytes T] = Inr (length (?num @ ?bytes (t_bytes T)), mem2)"
    "holds_string 1024 (?num @ ?bytes (t_bytes T)) mem2" by auto
  have j: "?bytes (t_bytes T) = join '':'' (map fmt_02x (word_le (t_bytes T) val)) @ '':''"
    using join_snoc [of "CHR '':''" "map fmt_02x (word_le m val)" "fmt_02x (ucast (drop_bit (8 * m) val))"]
    by (simp add: m word_le_def comp_def)
  let ?str = "?num @ join '':'' (map fmt_02x (word_le (t_bytes T) val))"
  have l: "length ?str + 1 < 1024" using mem2(2) j by (auto simp: holds_string_def)
  obtain mem3 where mem3: "sprintf_at (length ?str) '')'' mem2 = Inr (1, mem3)" "holds_string 1024 (?str @ '')'') mem3"
    using sprintf_extends [of 1024 ?str "'':''" mem2 "'')''"] mem2(2) j l by auto
  have "gi_serialize_for_debug malloced T val = Inr mem3"
    using mem1(1) mem2(1) mem3(1) assms(1) unfolding gi_serialize_for_debug_def j by (simp add: Let_def)
  moreover have "CHR 0x00 \<notin> set (join '':'' (map fmt_02x bs))" for bs
    by (induction bs rule: induct_list012) (auto simp: fmt_02x_nonzero)
  ultimately show ?thesis
    using c_string_holds [OF mem3(2)] by (simp add: show_value_def fmt_llu_nonzero)
qed

lemma ba_serialize_ok:
  assumes "malloced = Some mem" "length mem = 7"
  shows "\<exists>buffer. ba_serialize_for_debug malloced = Inr buffer \<and> c_string buffer = ''<data>''"
proof -
  from assms(2) obtain a b c d e f g where "mem = [a, b, c, d, e, f, g]" by (auto simp: eval_nat_numeral length_Suc_conv)
  with assms(1) show ?thesis by (simp add: ba_serialize_for_debug_def arr_set_def c_string_def)
qed

text \<open>A member that starts on a byte and that packets of \<open>N\<close> bytes contain.\<close>

definition whole_bytes :: "dynamic_layout \<Rightarrow> nat \<Rightarrow> string \<Rightarrow> bool" where
  "whole_bytes L N n \<longleftrightarrow> byte_member L N n \<or>
     (\<exists>m k off. m_members_map L n = Some m \<and> m_kind m = Byte_Array k \<and> get_offset L n = Some off \<and> off mod 8 = 0)"

text \<open>
  An entry shows a member: the text is its value, and the marked bytes are those that the member
  occupies.
\<close>

definition shows_member :: "dynamic_layout \<Rightarrow> nat \<Rightarrow> u8 list \<Rightarrow> subtree \<Rightarrow> bool" where
  "shows_member L headroom base t \<longleftrightarrow>
     (\<exists>m off. m_members_map L (st_name t) = Some m \<and> get_offset L (st_name t) = Some off \<and>
        8 * (st_start t + int headroom) = int off \<and> get_size m \<le> 8 * st_len t \<and> 8 * st_len t < get_size m + 8 \<and>
        (case m_kind m of
           Generic_Integer g \<Rightarrow> \<exists>v. get_integer L (st_name t) base = Inr v \<and> st_text t = show_value (gi_type g) v
         | Byte_Array k \<Rightarrow> st_text t = ''<data>''))"

lemma add_subtree_ok:
  assumes n: "whole_bytes L N n" and len: "N \<le> length base" and hr: "get_headroom L = Inr headroom"
    and mem: "\<forall>k n. \<exists>mem. malloc k n = Some mem \<and> length mem = n"
  shows "\<exists>t. add_subtree malloc L base out n = Inr (out @ [t]) \<and> st_name t = n \<and> shows_member L headroom base t"
proof -
  obtain mem1 mem2 where m: "malloc (length out) 1024 = Some mem1" "length mem1 = 1024" "malloc (length out) 7 = Some mem2" "length mem2 = 7"
    using mem by metis
  have al: "get_size m \<le> 8 * (align_to (get_size m) 8 div 8)" "8 * (align_to (get_size m) 8 div 8) < get_size m + 8" for m
    using align_to_bounds [of 8 "get_size m"] align_to_dvd [of 8 "get_size m"] by (simp_all add: dvd_mult_div_cancel)
  show ?thesis
    using n unfolding whole_bytes_def
  proof
    assume "byte_member L N n"
    then obtain m g off where mg: "m_members_map L n = Some m" "m_kind m = Generic_Integer g" "get_offset L n = Some off"
      "wf_gi g" "off mod 8 = 0" "off div 8 + t_bytes (gi_type g) \<le> N" "get_integer L n = gi_get_integer g off" by (rule byte_memberE)
    obtain v where v: "get_integer L n base = Inr v" using byte_member_get [OF \<open>byte_member L N n\<close> len] by blast
    obtain val where "gi_serialize_for_debug (Some mem1) (gi_type g) v = Inr val" "c_string val = show_value (gi_type g) v"
      using gi_serialize_ok [OF refl m(2), of "gi_type g" v] mg(4) by (auto simp: wf_gi_def)
    with mg v m(1) hr al [of m] show ?thesis
      by (auto simp: add_subtree_def serialize_for_debug_def layout_member_def member_offset_def shows_member_def byte_size_def Let_def)
  next
    assume "\<exists>m k off. m_members_map L n = Some m \<and> m_kind m = Byte_Array k \<and> get_offset L n = Some off \<and> off mod 8 = 0"
    then obtain m k off where mk: "m_members_map L n = Some m" "m_kind m = Byte_Array k" "get_offset L n = Some off" "off mod 8 = 0" by (elim exE conjE)
    obtain val where "ba_serialize_for_debug (Some mem2) = Inr val" "c_string val = ''<data>''"
      using ba_serialize_ok [OF refl m(4)] by blast
    with mk m(3) hr al [of m] show ?thesis
      by (auto simp: add_subtree_def serialize_for_debug_def layout_member_def member_offset_def shows_member_def byte_size_def Let_def)
  qed
qed

lemma add_subtrees_ok:
  assumes "\<And>n. n \<in> set ns \<Longrightarrow> whole_bytes L N n" "N \<le> length base" "get_headroom L = Inr headroom"
    "\<forall>k n. \<exists>mem. malloc k n = Some mem \<and> length mem = n"
  shows "\<exists>ts. foldE (add_subtree malloc L base) out ns = Inr (out @ ts) \<and> map st_name ts = ns \<and> (\<forall>t \<in> set ts. shows_member L headroom base t)"
  using assms(1)
proof (induction ns arbitrary: out)
  case (Cons n ns)
  obtain t where t: "add_subtree malloc L base out n = Inr (out @ [t])" "st_name t = n" "shows_member L headroom base t"
    using add_subtree_ok [OF Cons.prems [of n] assms(2-4), where out = out] by auto
  obtain ts where "foldE (add_subtree malloc L base) (out @ [t]) ns = Inr ((out @ [t]) @ ts)" "map st_name ts = ns"
    "\<forall>t \<in> set ts. shows_member L headroom base t" using Cons.IH [of "out @ [t]"] Cons.prems by auto
  with t show ?case by (intro exI [of _ "t # ts"]) auto
qed simp

lemma foldE_groups: "foldE (\<lambda>out g. foldE f out (xs ! g)) out [k..<length xs] = foldE f out (concat (drop k xs))"
proof (induction "length xs - k" arbitrary: k out)
  case (Suc n)
  then have "[k..<length xs] = k # [Suc k..<length xs]" "drop k xs = xs ! k # drop (Suc k) xs"
    by (simp_all add: upt_conv_Cons Cons_nth_drop_Suc)
  moreover have "foldE (\<lambda>out g. foldE f out (xs ! g)) out' [Suc k..<length xs] = foldE f out' (concat (drop (Suc k) xs))" for out'
    using Suc.hyps by (intro Suc.hyps(1)) simp
  ultimately show ?case by (simp add: foldE_append del: upt_Suc)
qed simp

lemma shown_after:
  assumes wf: "wf_layout L" "\<And>n m. m_members_map L n = Some m \<Longrightarrow> wf_member m"
    and ij: "i < j" "j < length (member_names L)" and t: "st_name t = member_names L ! i" "shows_member (fix_layout L) hr base t"
    and u: "st_name u = member_names L ! j" "shows_member (fix_layout L) hr base u"
  shows "st_start t + int (st_len t) \<le> st_start u"
proof -
  let ?ns = "member_names L" and ?offs = "chain_offsets (m_members_map L) 0 (member_names L)"
  have some: "m_members_map L n \<noteq> None" if "n \<in> set ?ns" for n using wf(1) that by (simp add: wf_layout_def)
  have "?ns ! i \<in> set ?ns" using ij by simp
  then obtain m where m: "m_members_map L (?ns ! i) = Some m" using some by blast
  then obtain m' where m': "m_members_map (fix_layout L) (?ns ! i) = Some m'" "get_size m' = get_size m" by (rule fix_layout_member)
  have "wf_member (the (m_members_map L n))" if "n \<in> set ?ns" for n
    using some [OF that] wf(2) by auto
  then have "?offs ! i + get_size m \<le> ?offs ! j"
    using chain_offsets_separate [of ?ns "m_members_map L" i j 0] ij m by auto
  moreover have "8 * (st_start t + int hr) = int (?offs ! i)" "8 * st_len t < get_size m + 8"
    using t m' get_offset_chain [OF wf(1), of i] ij by (auto simp: shows_member_def)
  moreover have "8 * (st_start u + int hr) = int (?offs ! j)"
    using u get_offset_chain [OF wf(1), of j] ij by (auto simp: shows_member_def)
  ultimately have "8 * (st_start t + int (st_len t)) < 8 * (st_start u + 1)" by simp
  then show ?thesis by simp
qed

text \<open>
  C31. For a laid out packet whose members on the wire start on byte boundaries, the plugin shows
  each of them once and in order: the text is the value of the member in decimal and in hexadecimal
  bytes, the marked range covers the member and less than a byte more, the first range starts at
  byte 0 of the packet, and the ranges do not overlap.
\<close>

theorem plugin_shows_members:
  assumes wf: "wf_layout L" "\<And>n m. m_members_map L n = Some m \<Longrightarrow> wf_member m"
    and groups: "m_registered_members L = g0 # (n1 # g1) # gs"
    and whole: "\<And>n. n \<in> set (concat ((n1 # g1) # gs)) \<Longrightarrow> whole_bytes (fix_layout L) N n" and len: "N \<le> length base"
    and mem: "\<forall>k n. \<exists>mem. malloc k n = Some mem \<and> length mem = n"
  shows "\<exists>ts headroom. iterate_and_generate malloc (fix_layout L) base = Inr ts \<and> get_headroom (fix_layout L) = Inr headroom \<and>
    map st_name ts = concat ((n1 # g1) # gs) \<and> (\<forall>t \<in> set ts. shows_member (fix_layout L) headroom base t) \<and>
    st_start (hd ts) = 0 \<and> sorted_wrt (\<lambda>t u. st_start t + int (st_len t) \<le> st_start u) ts"
proof -
  let ?L = "fix_layout L" and ?ns = "concat ((n1 # g1) # gs)"
  have names: "member_names L = g0 @ ?ns" using groups by (simp add: member_names_def)
  have n1: "whole_bytes ?L N n1" using whole by simp
  then obtain m1 off1 where m1: "m_members_map ?L n1 = Some m1" "get_offset ?L n1 = Some off1" "off1 mod 8 = 0"
    unfolding whole_bytes_def by (elim disjE exE conjE) (auto elim: byte_memberE)
  then have hr: "get_headroom ?L = Inr (off1 div 8)"
    using groups by (simp add: get_headroom_def group_start_offset_def member_offset_def byte_size_def)
  have "iterate_and_generate malloc ?L base = foldE (add_subtree malloc ?L base) [] ?ns"
    unfolding iterate_and_generate_def foldE_groups by (simp add: groups)
  then obtain ts where ts: "iterate_and_generate malloc ?L base = Inr ts" "map st_name ts = ?ns"
    "\<forall>t \<in> set ts. shows_member ?L (off1 div 8) base t"
    using add_subtrees_ok [OF whole len hr mem, of ?ns, where out = "[]"] by auto
  have "st_start (hd ts) = 0"
  proof -
    obtain t ts' where t: "ts = t # ts'" "st_name t = n1" using ts(2) by (cases ts) auto
    then have "8 * (st_start t + int (off1 div 8)) = int off1" using ts(3) m1 by (auto simp: shows_member_def)
    then show ?thesis using t m1(3) by auto
  qed
  moreover have "sorted_wrt (\<lambda>t u. st_start t + int (st_len t) \<le> st_start u) ts"
  proof (rule sorted_wrt_iff_nth_less [THEN iffD2], intro allI impI)
    fix i j assume ij: "i < j" "j < length ts"
    have "length ts = length ?ns" using ts(2) by (metis length_map)
    then have "st_name (ts ! k) = member_names L ! (length g0 + k)" if "k < length ts" for k
      using that nth_map [of k ts st_name] by (simp add: names ts(2) nth_append)
    with ij ts(3) show "st_start (ts ! i) + int (st_len (ts ! i)) \<le> st_start (ts ! j)"
      using \<open>length ts = length ?ns\<close>
      by (intro shown_after [OF wf, where i = "length g0 + i" and j = "length g0 + j" and hr = "off1 div 8" and base = base]) (auto simp: names)
  qed
  ultimately show ?thesis using ts hr by blast
qed

end
