(* ===== verification/Simple_Packets.thy ===== *)
theory Simple_Packets
  imports Simple_Stack
begin

unbundle bit_operations_syntax

text \<open>
  Packets of the simple stack as the modules see them: the values of the members of the header and
  the bytes from the payload on. Reading and writing a member, copying the payload, and the checksum
  are restated in these terms, and so is the transfer over the wire, which carries the bytes behind
  the headroom.
\<close>

section \<open>Members of the header\<close>

definition header_names :: "string list" where
  "header_names = butlast (member_names simple_members)"

definition pkt_is :: "u8 list \<Rightarrow> (string \<Rightarrow> u64) \<Rightarrow> u8 list \<Rightarrow> bool" where
  "pkt_is b f tail \<longleftrightarrow> 63 \<le> length b \<and> drop 62 b = tail \<and>
     (\<forall>n \<in> set header_names. get_integer simple_layout n b = Inr (f n))"

lemma header_names_eq:
  "header_names = [''computed_total_len'', ''is_signaling'', ''redelivery_timer'', ''flow_identifier'',
     ''dst_host_id'', ''src_host_id'', ''dst_global_id'', ''src_global_id'', ''dst_app_id'', ''src_app_id'',
     ''total_len'', ''sequence_number'', ''ack_sequence_number'', ''checksum'']"
  by (simp add: header_names_def simple_names)

lemma header_subset: "n \<in> set header_names \<Longrightarrow> n \<in> set (member_names simple_members)"
  by (simp add: header_names_def in_set_butlastD)

text \<open>Where the members of the header are, in bits.\<close>

lemma header_place:
  assumes "n \<in> set header_names"
  obtains m g off where "m_members_map simple_layout n = Some m" "m_kind m = Generic_Integer g" "get_offset simple_layout n = Some off"
    "wf_gi g" "off mod 8 = 0" "off div 8 + t_bytes (gi_type g) \<le> 63" "off + m_bit_size g \<le> 496"
    "set_integer simple_layout n = gi_set_integer g off" "get_integer simple_layout n = gi_get_integer g off"
proof -
  from simple_byte_members [OF header_subset [OF assms]] obtain m g off where
    g: "m_members_map simple_layout n = Some m" "m_kind m = Generic_Integer g" "get_offset simple_layout n = Some off"
    "wf_gi g" "off mod 8 = 0" "off div 8 + t_bytes (gi_type g) \<le> 63"
    "set_integer simple_layout n = gi_set_integer g off" "get_integer simple_layout n = gi_get_integer g off"
    by (rule byte_memberE)
  have "n \<noteq> ''payload''" using assms by (auto simp: header_names_eq)
  moreover have "''payload'' \<in> set (member_names simple_members)" by (simp add: simple_names)
  ultimately have "members_apart simple_layout n ''payload''"
    using header_subset [OF assms] by (intro simple.apart)
  moreover obtain m' where "m_members_map simple_layout ''payload'' = Some m'"
    using simple_int_members(13) by (auto simp: int_member_at_def)
  moreover have "off \<le> 496"
    using assms g(3) simple_offsets unfolding header_names_eq by auto
  moreover have "off \<noteq> 496"
    using assms g(3) simple_offsets unfolding header_names_eq by auto
  ultimately have bound: "off + m_bit_size g \<le> 496"
    using g simple_offsets(15) by (auto simp: members_apart_def get_size_def)
  show ?thesis by (rule that [OF g(1-6) bound g(7,8)])
qed

lemma buf_bit_drop: "buf_bit (drop k b) j = buf_bit b (8 * k + j)"
  by (auto simp: buf_bit_def)

lemma set_field:
  assumes p: "pkt_is b f tail" and n: "n \<in> set header_names" and v: "member_rep simple_layout n v"
  shows "\<exists>b'. set_integer simple_layout n v b = Inr b' \<and> length b' = length b \<and> pkt_is b' (f(n := v)) tail"
proof -
  obtain m g off where g: "m_members_map simple_layout n = Some m" "m_kind m = Generic_Integer g" "wf_gi g" "off mod 8 = 0"
    "off div 8 + t_bytes (gi_type g) \<le> 63" "off + m_bit_size g \<le> 496" "set_integer simple_layout n = gi_set_integer g off"
    using n by (rule header_place)
  have len: "63 \<le> length b" using p by (simp add: pkt_is_def)
  obtain b' where b': "set_integer simple_layout n v b = Inr b'" "length b' = length b" "get_integer simple_layout n b' = Inr v"
    "\<forall>n'. n' \<in> set (member_names simple_members) \<and> n' \<noteq> n \<longrightarrow> get_integer simple_layout n' b' = get_integer simple_layout n' b"
    using simple.set_member [OF len header_subset [OF n] v] by blast
  have fits: "fits g v" using v g by (simp add: member_rep_def)
  have room: "off div 8 + t_bytes (gi_type g) \<le> length b" using g(5) len by simp
  have bits: "buf_bit b' j = buf_bit b j" if "496 \<le> j" for j
    using gi_set_integer_aligned [OF g(3,4) room fits] b'(1) g(6,7) that by (metis leD order_less_le_trans sum.inject(2))
  have "drop 62 b' = drop 62 b"
  proof (rule buf_eqI)
    show "buf_bit (drop 62 b') j = buf_bit (drop 62 b) j" if "j < 8 * length (drop 62 b')" for j
      using bits [of "496 + j"] by (simp add: buf_bit_drop)
  qed (use b'(2) in simp)
  with p b' show ?thesis by (auto simp: pkt_is_def header_subset)
qed

lemma copy_payload:
  assumes p: "pkt_is b f tail" and n: "n \<le> length src" "n \<le> length tail"
  shows "\<exists>b'. mem_copy 62 src n b = Inr b' \<and> length b' = length b \<and> pkt_is b' f (take n src @ drop n tail)"
proof -
  have len: "63 \<le> length b" "drop 62 b = tail" using p by (auto simp: pkt_is_def)
  let ?b = "take 62 b @ take n src @ drop (62 + n) b"
  have l: "length ?b = length b" using n len by auto
  have "get_integer simple_layout m ?b = get_integer simple_layout m b" if m: "m \<in> set header_names" for m
  proof -
    obtain g off where g: "wf_gi g" "off + m_bit_size g \<le> 496" "get_integer simple_layout m = gi_get_integer g off"
      using m by (rule header_place)
    have "buf_bit ?b j = buf_bit b j" if "j < 496" for j
      using that l len by (auto simp: buf_bit_def nth_append less_mult_imp_div_less)
    with g(2) show ?thesis unfolding g(3) by (intro gi_get_integer_cong [OF l g(1)]) auto
  qed
  moreover have "drop 62 ?b = take n src @ drop n tail" using len by (simp add: drop_drop [symmetric] add.commute del: drop_drop)
  moreover have "mem_copy 62 src n b = Inr ?b" using n len by (auto simp: mem_copy_def)
  ultimately show ?thesis using p l by (auto simp: pkt_is_def)
qed

section \<open>The wire\<close>

text \<open>Members are determined by the first 63 bytes, those on the wire by bytes 24 to 61.\<close>

definition wire_names :: "string list" where
  "wire_names = drop 4 header_names"

lemma get_field_take:
  assumes "n \<in> set header_names" "63 \<le> length b"
  shows "get_integer simple_layout n b = get_integer simple_layout n (take 63 b)"
proof -
  obtain g off where g: "wf_gi g" "off mod 8 = 0" "off div 8 + t_bytes (gi_type g) \<le> 63" "get_integer simple_layout n = gi_get_integer g off"
    using assms(1) by (rule header_place)
  have "buf_read (t_bytes (gi_type g)) (off div 8) b = buf_read (t_bytes (gi_type g)) (off div 8) (take 63 b)"
    using g(3) assms(2) by (simp add: buf_read_def drop_take min_absorb1)
  then show ?thesis
    unfolding g(4) using g(2) by (simp add: gi_get_integer_def extract_bits_upper_def Let_def byte_size_def)
qed

lemma wire_field:
  assumes n: "n \<in> set wire_names" and len: "63 \<le> length b1" "63 \<le> length b2"
    and same: "\<And>i. 24 \<le> i \<Longrightarrow> i < 62 \<Longrightarrow> b2 ! i = b1 ! i"
  shows "get_integer simple_layout n b2 = get_integer simple_layout n b1"
proof -
  have h: "n \<in> set header_names" using n by (auto simp: wire_names_def dest: in_set_dropD)
  obtain g off where g: "wf_gi g" "off + m_bit_size g \<le> 496" "get_offset simple_layout n = Some off" "get_integer simple_layout n = gi_get_integer g off"
    using h by (rule header_place)
  have off: "192 \<le> off" using n g(3) simple_offsets by (auto simp: wire_names_def header_names_eq)
  have "buf_bit (take 63 b2) j = buf_bit (take 63 b1) j" if "192 \<le> j" "j < 496" for j
    using same [of "j div 8"] that len by (auto simp: buf_bit_def less_mult_imp_div_less)
  then have "gi_get_integer g off (take 63 b2) = gi_get_integer g off (take 63 b1)"
    using len off g(2) by (intro gi_get_integer_cong g(1)) auto
  then show ?thesis using get_field_take [OF h len(1)] get_field_take [OF h len(2)] g(4) by simp
qed

section \<open>The checksum\<close>

lemma field_same:
  assumes n: "n \<in> set header_names" "n \<noteq> ''checksum''" and len: "length b' = length b" and same: "\<And>i. i < 60 \<Longrightarrow> b' ! i = b ! i"
  shows "get_integer simple_layout n b' = get_integer simple_layout n b"
proof -
  obtain m g off where g: "m_members_map simple_layout n = Some m" "m_kind m = Generic_Integer g" "get_offset simple_layout n = Some off"
    "wf_gi g" "get_integer simple_layout n = gi_get_integer g off"
    using n(1) by (rule header_place)
  have "members_apart simple_layout n ''checksum''"
    using header_subset [OF n(1)] n(2) by (intro simple.apart) (simp_all add: simple_names)
  moreover obtain m' where "m_members_map simple_layout ''checksum'' = Some m'"
    using simple_int_members(12) by (auto simp: int_member_at_def)
  moreover have "off < 480" using n g(3) simple_offsets by (auto simp: header_names_eq)
  ultimately have "off + m_bit_size g \<le> 480"
    using g simple_offsets(14) by (auto simp: members_apart_def get_size_def)
  moreover have "buf_bit b' j = buf_bit b j" if "j < 480" for j
    using same [of "j div 8"] that len by (auto simp: buf_bit_def less_mult_imp_div_less)
  ultimately show ?thesis unfolding g(5) by (intro gi_get_integer_cong [OF len g(4)]) auto
qed

lemma pkt_is_bytes:
  assumes p: "pkt_is b f tail" and len: "length b' = length b" and same: "\<And>i. i < 60 \<Longrightarrow> b' ! i = b ! i"
  shows "\<exists>ck. pkt_is b' (f(''checksum'' := ck)) (drop 62 b')"
proof -
  have l: "63 \<le> length b'" using p len by (simp add: pkt_is_def)
  obtain ck where "get_integer simple_layout ''checksum'' b' = Inr ck"
    using simple.get_member [OF l, of "''checksum''"] by (auto simp: simple_names)
  with field_same [OF _ _ len same] p l show ?thesis
    by (intro exI [of _ ck]) (auto simp: pkt_is_def)
qed

text \<open>The checksum of a packet with \<open>n\<close> bytes on the wire is right.\<close>

definition good_sum :: "nat \<Rightarrow> u8 list \<Rightarrow> bool" where
  "good_sum n b \<longleftrightarrow> csum 60 24 (24 + n) b = le16 (b ! 60) (b ! 61)"

lemma good_sum_wire:
  assumes "good_sum n b1" "38 \<le> n" "\<And>i. 24 \<le> i \<Longrightarrow> i < 24 + n \<Longrightarrow> b2 ! i = b1 ! i"
  shows "good_sum n b2"
proof -
  have "csum 60 24 (24 + n) b2 = csum 60 24 (24 + n) b1" using assms(3) by (intro csum_cong) auto
  with assms show ?thesis by (simp add: good_sum_def)
qed

lemma simple_checksum_layout: "checksum_layout simple_layout 24 60 0"
  using simple_headroom simple_int_members by (simp add: checksum_layout_def)

text \<open>A packet of \<open>n\<close> bytes on the wire in its buffer.\<close>

definition holds_wire :: "nat \<Rightarrow> (string \<Rightarrow> u64) \<Rightarrow> u8 list \<Rightarrow> bool" where
  "holds_wire n f tail \<longleftrightarrow> f ''computed_total_len'' = of_nat n \<and> 38 \<le> n \<and> n + n mod 2 \<le> 38 + length tail \<and> 24 + n < 2 ^ 31"

lemma holds_wire_packet: "pkt_is b f tail \<Longrightarrow> holds_wire n f tail \<Longrightarrow> holds_packet simple_layout 24 60 n b"
  by (auto simp: pkt_is_def holds_wire_def holds_packet_def header_names_eq)

lemma simple_checksum_send:
  assumes E: "net_packet E = simple_layout" "checksum_type (cfg E) = full_packet"
    and p: "p \<noteq> 0" "bufs s p = Some b" and b: "pkt_is b f tail" "holds_wire n f tail"
  shows "\<exists>b' ck tail'. checksum_hook_send E p s = Inr (HOOK_CONTINUE, s\<lparr>bufs := (bufs s)(p \<mapsto> b')\<rparr>) \<and> length b' = length b \<and>
    pkt_is b' (f(''checksum'' := ck)) tail' \<and> take (n - 38) tail' = take (n - 38) tail \<and> good_sum n b'"
proof -
  note L = simple_checksum_layout [folded E(1)]
  note hp = holds_wire_packet [OF b, folded E(1)]
  define c where "c = (ucast (csum 60 24 (24 + n) b) :: u64)"
  define b1 where "b1 = (ck_clear 60 24 n b)[60 := ucast c, Suc 60 := ucast (drop_bit 8 c)]"
  have lay: "62 \<le> 24 + n" "24 + n + n mod 2 \<le> length b" "drop 62 b = tail" "63 \<le> length b"
    using b by (auto simp: pkt_is_def holds_wire_def)
  have nth: "b1 ! i = b ! i" if "i < 24 + n" "i \<noteq> 60" "i \<noteq> 61" for i
    using that nth_ck_clear [of i 24 n b 60] lay by (simp add: b1_def ck_byte_def)
  have "csum 60 24 (24 + n) b1 = csum 60 24 (24 + n) b" using nth by (intro csum_cong) auto
  moreover have "le16 (b1 ! 60) (b1 ! 61) = csum 60 24 (24 + n) b"
    using lay by (simp add: b1_def le16_of_bytes) (auto simp: c_def bit_simps intro!: bit_word_eqI)
  ultimately have "good_sum n b1" by (simp add: good_sum_def)
  moreover obtain ck where "pkt_is b1 (f(''checksum'' := ck)) (drop 62 b1)"
    using pkt_is_bytes [OF b(1), of b1] nth lay by (auto simp: b1_def)
  moreover have "take (n - 38) (drop 62 b1) = take (n - 38) tail"
    unfolding lay(3) [symmetric] using nth lay by (intro nth_equalityI) (auto simp: b1_def)
  moreover have "checksum_hook_send E p s = Inr (HOOK_CONTINUE, s\<lparr>bufs := (bufs s)(p \<mapsto> b1)\<rparr>)"
    unfolding b1_def c_def by (rule checksum_send_ok [OF L E(2) p hp])
  moreover have "length b1 = length b" by (simp add: b1_def)
  ultimately show ?thesis by blast
qed

lemma checksum_ingress_view:
  assumes E: "net_packet E = simple_layout" "checksum_type (cfg E) = full_packet"
    and p: "p \<noteq> 0" "bufs s p = Some b" and b: "pkt_is b f tail" "holds_wire n f tail" and ok: "good_sum n b"
  shows "\<exists>b' ck tail'. checksum_hook_ingress E p s = Inr (HOOK_CONTINUE, s\<lparr>bufs := (bufs s)(p \<mapsto> b')\<rparr>) \<and> length b' = length b \<and>
    pkt_is b' (f(''checksum'' := ck)) tail' \<and> take (n - 38) tail' = take (n - 38) tail \<and> good_sum n b'"
proof -
  note L = simple_checksum_layout [folded E(1)]
  note hp = holds_wire_packet [OF b, folded E(1)]
  let ?s = "s\<lparr>bufs := (bufs s)(p \<mapsto> ck_clear 60 24 n b)\<rparr>" and ?v = "le_word [b ! 60, b ! Suc 60]"
  let ?c = "ucast (ucast ?v :: u16) :: u64"
  define b1 where "b1 = (ck_clear 60 24 n b)[60 := ucast ?c, Suc 60 := ucast (drop_bit 8 ?c)]"
  have lay: "62 \<le> 24 + n" "24 + n + n mod 2 \<le> length b" "drop 62 b = tail" "63 \<le> length b"
    using b by (auto simp: pkt_is_def holds_wire_def)
  have "pkt_get E ''checksum'' p s = Inr ?v"
    using L lay p by (auto simp: checksum_layout_def pkt_get_ok int_member_get buf_read_2 T_to_ull_def simp del: le_word.simps)
  moreover have "pkt_set E ''checksum'' p ?c ?s = Inr (?s\<lparr>bufs := (bufs ?s)(p \<mapsto> b1)\<rparr>)"
    using L lay p by (intro pkt_set_ok) (auto simp: checksum_layout_def int_member_set write_2 b1_def)
  ultimately have h: "checksum_hook_ingress E p s = Inr (HOOK_CONTINUE, s\<lparr>bufs := (bufs s)(p \<mapsto> b1)\<rparr>)"
    using compute_checksum_ok [OF L E(2) p hp] ok by (simp add: checksum_hook_ingress_def le16_def good_sum_def)
  have nth: "b1 ! i = b ! i" if "i < 24 + n" "i \<noteq> 60" "i \<noteq> 61" for i
    using that nth_ck_clear [of i 24 n b 60] lay by (simp add: b1_def ck_byte_def)
  obtain ck where "pkt_is b1 (f(''checksum'' := ck)) (drop 62 b1)"
    using pkt_is_bytes [OF b(1), of b1] nth lay by (auto simp: b1_def)
  moreover have "take (n - 38) (drop 62 b1) = take (n - 38) tail"
    unfolding lay(3) [symmetric] using nth lay by (intro nth_equalityI) (auto simp: b1_def)
  moreover have "length b1 = length b" by (simp add: b1_def)
  moreover have "good_sum n b1"
  proof -
    have "csum 60 24 (24 + n) b1 = csum 60 24 (24 + n) b" using nth by (intro csum_cong) auto
    moreover have "le16 (b1 ! 60) (b1 ! 61) = ucast ?v"
      using lay by (simp add: b1_def le16_of_bytes del: le_word.simps) (auto simp: bit_simps intro!: bit_word_eqI simp del: le_word.simps)
    moreover have "ucast ?v = le16 (b ! 60) (b ! 61)" by (simp add: le16_def)
    ultimately show ?thesis using ok by (simp add: good_sum_def)
  qed
  ultimately show ?thesis using h by blast
qed

end
