(* ===== verification/Simple_Paths.thy ===== *)
theory Simple_Paths
  imports Simple_Packets Runtime
begin

unbundle bit_operations_syntax

text \<open>
  The send and ingress paths of the simple stack, hook by hook, on packets as
  \<open>Simple_Packets\<close> describes them.
\<close>

section \<open>Environment and values\<close>

definition simple_env :: "('t, 'a) nb_env \<Rightarrow> bool" where
  "simple_env E \<longleftrightarrow> cfg E = simple_config \<and> net_packet E = simple_layout \<and> m_registered_modules E = simple_modules"

lemma simple_envD [simp]:
  assumes "simple_env E"
  shows "cfg E = simple_config" "net_packet E = simple_layout" "m_registered_modules E = simple_modules"
  using assms by (simp_all add: simple_env_def)

lemma header_size_simple [simp]: "simple_env E \<Longrightarrow> header_size E = Inr 38"
  by (simp add: header_size_def simple_total_size simple_headroom)

lemma no_compat [simp]: "\<not> isIPCompat NO_COMPAT" "\<not> isEthCompat NO_COMPAT"
  by (simp_all add: isIPCompat_def isEthCompat_def)

lemma int_member_rep:
  assumes "int_member_at L n T o'"
  shows "member_rep L n v \<longleftrightarrow> fits_T T v"
  using assms by (auto simp: int_member_at_def member_rep_def fits_def fits_T_def Let_def)

lemma bit_small_nat: "n < 2 ^ 31 \<Longrightarrow> 31 \<le> k \<Longrightarrow> \<not> bit (n :: nat) k"
proof -
  assume "n < 2 ^ 31" "31 \<le> k"
  then have "n < 2 ^ k" using power_increasing [of 31 k "2 :: nat"] by simp
  then show ?thesis by (simp add: bit_iff_odd)
qed

lemma fits_int: "n < 2 ^ 31 \<Longrightarrow> fits_T signed_int (of_nat n)"
  unfolding fits_T_def T_to_ull_def t_bits_def
  by (rule bit_word_eqI) (auto simp: bit_simps min_def bit_small_nat)

lemma bit_u32: "bit (w :: u32) k \<Longrightarrow> k < 32"
  by (drule bit_imp_le_length) simp

lemma bit_u16: "bit (w :: u16) k \<Longrightarrow> k < 16"
  by (drule bit_imp_le_length) simp

lemma fits_words [simp]:
  "fits_T unsigned_int (ucast (w :: u32))" "fits_T unsigned_short (ucast (h :: u16))" "fits_T unsigned_long_long v" "fits_T unsigned_int 0"
  by (auto simp: fits_T_def T_to_ull_def t_bits_def bit_simps intro!: bit_word_eqI dest: bit_u32 bit_u16)

lemma unat_u32: "unat (w :: u32) < 2 ^ 32"
  by (rule order_less_le_trans [OF unsigned_less]) simp

lemma unat_ucast_up [simp]: "unat (ucast (w :: u32) :: u64) = unat w"
  using unat_u32 [of w] by (simp add: unsigned_ucast_eq take_bit_nat_eq_self)

text \<open>An application identifier that fits its member; a host identifier of 48 bits.\<close>

lemma fits_app: "unat w < 65536 \<Longrightarrow> fits_T unsigned_short (ucast (w :: u32))"
proof -
  assume "unat w < 65536"
  then have "take_bit 16 (ucast w :: u64) = ucast w"
    by (intro word_unat_eq_iff [THEN iffD2]) (simp add: unsigned_take_bit_eq unsigned_ucast_eq take_bit_nat_eq_self)
  then show ?thesis by (simp add: fits_T_def T_to_ull_def t_bits_def)
qed

lemma rep_host: "unat v < 2 ^ 48 \<Longrightarrow> member_rep simple_layout ''dst_host_id'' v"
  "unat v < 2 ^ 48 \<Longrightarrow> member_rep simple_layout ''src_host_id'' v"
proof -
  assume "unat v < 2 ^ 48"
  then have "take_bit 48 v = v"
    by (intro word_unat_eq_iff [THEN iffD2]) (simp add: unsigned_take_bit_eq take_bit_nat_eq_self)
  with simple_hosts show "member_rep simple_layout ''dst_host_id'' v" "member_rep simple_layout ''src_host_id'' v"
    by (auto simp: member_rep_def fits_def Let_def t_bits_def)
qed

lemmas simple_reps = simple_int_members [THEN int_member_rep]

lemma in_header [simp]:
  "''computed_total_len'' \<in> set header_names" "''redelivery_timer'' \<in> set header_names" "''flow_identifier'' \<in> set header_names"
  "''dst_host_id'' \<in> set header_names" "''src_host_id'' \<in> set header_names" "''dst_global_id'' \<in> set header_names"
  "''src_global_id'' \<in> set header_names" "''dst_app_id'' \<in> set header_names" "''src_app_id'' \<in> set header_names"
  "''total_len'' \<in> set header_names" "''sequence_number'' \<in> set header_names" "''ack_sequence_number'' \<in> set header_names"
  "''checksum'' \<in> set header_names"
  by (simp_all add: header_names_eq)

section \<open>Accesses to a packet\<close>

text \<open>The buffer at \<open>p\<close> has \<open>N\<close> bytes and holds a packet.\<close>

definition at_buf :: "('t, 'a) nb_state \<Rightarrow> u64 \<Rightarrow> nat \<Rightarrow> (string \<Rightarrow> u64) \<Rightarrow> u8 list \<Rightarrow> bool" where
  "at_buf s p N f tail \<longleftrightarrow> p \<noteq> 0 \<and> (\<exists>b. bufs s p = Some b \<and> length b = N \<and> pkt_is b f tail)"

lemma pkt_get_field: "simple_env E \<Longrightarrow> at_buf s p N f tail \<Longrightarrow> n \<in> set header_names \<Longrightarrow> pkt_get E n p s = Inr (f n)"
  by (auto simp: at_buf_def pkt_get_ok pkt_is_def)

lemma pkt_set_field:
  assumes "simple_env E" "at_buf s p N f tail" "n \<in> set header_names" "member_rep simple_layout n v"
  obtains b where "pkt_set E n p v s = Inr (s\<lparr>bufs := (bufs s)(p \<mapsto> b)\<rparr>)"
    "at_buf (s\<lparr>bufs := (bufs s)(p \<mapsto> b)\<rparr>) p N (f(n := v)) tail"
proof -
  from assms(2) obtain b0 where b0: "p \<noteq> 0" "bufs s p = Some b0" "length b0 = N" "pkt_is b0 f tail" by (auto simp: at_buf_def)
  from set_field [OF b0(4) assms(3,4)] obtain b where
    b: "set_integer simple_layout n v b0 = Inr b" "length b = length b0" "pkt_is b (f(n := v)) tail" by blast
  show ?thesis
  proof
    show "pkt_set E n p v s = Inr (s\<lparr>bufs := (bufs s)(p \<mapsto> b)\<rparr>)"
      using b(1) b0(1,2) assms(1) by (intro pkt_set_ok) auto
    show "at_buf (s\<lparr>bufs := (bufs s)(p \<mapsto> b)\<rparr>) p N (f(n := v)) tail"
      using b(2,3) b0(1,3) by (simp add: at_buf_def)
  qed
qed

lemma at_buf_cong: "bufs s' p = bufs s p \<Longrightarrow> at_buf s' p N f tail = at_buf s p N f tail"
  by (simp add: at_buf_def)

lemma at_buf_updates [simp]:
  "at_buf (s\<lparr>conns := X\<rparr>) = at_buf s" "at_buf (s\<lparr>timers := T\<rparr>) = at_buf s" "at_buf (s\<lparr>nb__time_now := w\<rparr>) = at_buf s"
  "at_buf (s\<lparr>transport_state := tr\<rparr>) = at_buf s" "at_buf (s\<lparr>mallocs := k\<rparr>) = at_buf s"
  by (simp_all add: fun_eq_iff at_buf_def)

lemma at_buf_other [simp]: "q \<noteq> p \<Longrightarrow> at_buf (s\<lparr>bufs := (bufs s)(q \<mapsto> b)\<rparr>) p N f tail = at_buf s p N f tail"
  by (rule at_buf_cong) simp

text \<open>Several members in a row.\<close>

lemma pkt_set2_field:
  assumes "simple_env E" "at_buf s p N f tail" "n1 \<in> set header_names" "member_rep simple_layout n1 v1"
    "n2 \<in> set header_names" "member_rep simple_layout n2 v2"
  obtains b where "bindE (pkt_set E n1 p v1 s) (pkt_set E n2 p v2) = Inr (s\<lparr>bufs := (bufs s)(p \<mapsto> b)\<rparr>)"
    "at_buf (s\<lparr>bufs := (bufs s)(p \<mapsto> b)\<rparr>) p N (f(n1 := v1, n2 := v2)) tail"
proof -
  obtain b1 where b1: "pkt_set E n1 p v1 s = Inr (s\<lparr>bufs := (bufs s)(p \<mapsto> b1)\<rparr>)"
    "at_buf (s\<lparr>bufs := (bufs s)(p \<mapsto> b1)\<rparr>) p N (f(n1 := v1)) tail" using assms(1-4) by (rule pkt_set_field)
  obtain b2 where "pkt_set E n2 p v2 (s\<lparr>bufs := (bufs s)(p \<mapsto> b1)\<rparr>) = Inr (s\<lparr>bufs := (bufs s)(p \<mapsto> b2)\<rparr>)"
    "at_buf (s\<lparr>bufs := (bufs s)(p \<mapsto> b2)\<rparr>) p N (f(n1 := v1, n2 := v2)) tail"
    using assms(1) b1(2) assms(5,6) by (rule pkt_set_field) auto
  with b1(1) that show ?thesis by simp
qed

section \<open>The send path\<close>

lemma total_len_word: "unat (len :: u32) < 2 ^ 30 \<Longrightarrow> (ucast (38 + len) :: u64) = of_nat (38 + unat len)"
proof -
  assume l: "unat len < 2 ^ 30"
  have "unat (38 + len) = 38 + unat len" using l by (simp add: unat_word_ariths)
  then show ?thesis
    using l by (intro word_unat_eq_iff [THEN iffD2]) (simp add: unsigned_ucast_eq unat_of_nat take_bit_nat_eq_self del: of_nat_add)
qed

lemma simple_payload_send:
  assumes E: "simple_env E" and p: "at_buf s p N f tail" and len: "unat len \<le> length buff" "unat len \<le> length tail" "unat len < 2 ^ 30"
  obtains b where "payload_hook_send E p buff len s = Inr (HOOK_CONTINUE, s\<lparr>bufs := (bufs s)(p \<mapsto> b)\<rparr>, sint len)"
    "at_buf (s\<lparr>bufs := (bufs s)(p \<mapsto> b)\<rparr>) p N
       (f(''total_len'' := of_nat (38 + unat len), ''computed_total_len'' := of_nat (38 + unat len)))
       (take (unat len) buff @ drop (unat len) tail)"
proof -
  let ?n = "of_nat (38 + unat len) :: u64"
  have rep: "member_rep simple_layout ''total_len'' ?n" "member_rep simple_layout ''computed_total_len'' ?n"
    using len(3) fits_int [of "38 + unat len"] by (simp_all add: simple_reps)
  obtain b1 where b1: "bindE (pkt_set E ''total_len'' p ?n s) (pkt_set E ''computed_total_len'' p ?n) = Inr (s\<lparr>bufs := (bufs s)(p \<mapsto> b1)\<rparr>)"
    "at_buf (s\<lparr>bufs := (bufs s)(p \<mapsto> b1)\<rparr>) p N (f(''total_len'' := ?n, ''computed_total_len'' := ?n)) tail"
    using E p in_header(10) rep(1) in_header(1) rep(2) by (rule pkt_set2_field)
  from b1(2) have pk: "p \<noteq> 0" "length b1 = N" "pkt_is b1 (f(''total_len'' := ?n, ''computed_total_len'' := ?n)) tail"
    by (auto simp: at_buf_def)
  from copy_payload [OF pk(3) len(1,2)] obtain b where b: "mem_copy 62 buff (unat len) b1 = Inr b" "length b = length b1"
    "pkt_is b (f(''total_len'' := ?n, ''computed_total_len'' := ?n)) (take (unat len) buff @ drop (unat len) tail)" by blast
  show ?thesis
  proof (rule that [of b])
    have addr: "get_addr simple_layout ''payload'' = Inr 62" using simple_int_members(13) by (rule int_member_addr)
    obtain s1 where s1: "pkt_set E ''total_len'' p ?n s = Inr s1" "pkt_set E ''computed_total_len'' p ?n s1 = Inr (s\<lparr>bufs := (bufs s)(p \<mapsto> b1)\<rparr>)"
      using b1(1) by (auto simp: bindE_eq_Inr)
    show "payload_hook_send E p buff len s = Inr (HOOK_CONTINUE, s\<lparr>bufs := (bufs s)(p \<mapsto> b)\<rparr>, sint len)"
      using E s1 addr b(1) pk(1) by (simp add: payload_hook_send_def Let_def total_len_word [OF len(3)] buf_updE_def del: of_nat_add)
    show "at_buf (s\<lparr>bufs := (bufs s)(p \<mapsto> b)\<rparr>) p N (f(''total_len'' := ?n, ''computed_total_len'' := ?n))
       (take (unat len) buff @ drop (unat len) tail)"
      using pk b by (simp add: at_buf_def)
  qed
qed

lemma simple_inorder_send:
  assumes E: "simple_env E" and p: "at_buf s p N f tail" and c: "c \<noteq> 0" "conns s c = Some x"
  obtains b where "inorder_hook_send E c p s = Inr (HOOK_CONTINUE, s\<lparr>
      conns := (conns s)(c \<mapsto> x\<lparr>last_sent_sequence := last_sent_sequence x + 1\<rparr>), bufs := (bufs s)(p \<mapsto> b)\<rparr>)"
    "at_buf (s\<lparr>bufs := (bufs s)(p \<mapsto> b)\<rparr>) p N (f(''sequence_number'' := ucast (last_sent_sequence x + 1))) tail"
proof -
  let ?s = "s\<lparr>conns := (conns s)(c \<mapsto> x\<lparr>last_sent_sequence := last_sent_sequence x + 1\<rparr>)\<rparr>"
  have "at_buf ?s p N f tail" using p by simp
  moreover have "member_rep simple_layout ''sequence_number'' (ucast (last_sent_sequence x + 1))" by (simp add: simple_reps)
  ultimately obtain b where "pkt_set E ''sequence_number'' p (ucast (last_sent_sequence x + 1)) ?s = Inr (?s\<lparr>bufs := (bufs ?s)(p \<mapsto> b)\<rparr>)"
    "at_buf (?s\<lparr>bufs := (bufs ?s)(p \<mapsto> b)\<rparr>) p N (f(''sequence_number'' := ucast (last_sent_sequence x + 1))) tail"
    using pkt_set_field [OF E _ in_header(11)] by blast
  with E c that show ?thesis by (simp add: inorder_hook_send_def Let_def at_buf_def)
qed

lemma get_time_state: "\<exists>w. nb__get_time_ms_now E s = (w, s\<lparr>nb__time_now := w\<rparr>) \<and> (nb__time_now s \<noteq> - 1 \<longrightarrow> w = nb__time_now s)"
  by (simp add: nb__get_time_ms_now_def)

text \<open>The timer \<open>t\<close> sends the packet at \<open>p\<close> again at the time \<open>to\<close>.\<close>

definition armed :: "timer_state \<Rightarrow> u64 \<Rightarrow> u64 \<Rightarrow> u64 \<Rightarrow> bool" where
  "armed ts t to p \<longleftrightarrow> tm_timeout (nb__allocated_timers ts t) = to \<and>
     tm_callback (nb__allocated_timers ts t) = Redelivery_Timer_Cb \<and> tm_argument (nb__allocated_timers ts t) = p"

lemma insert_timer_armed:
  assumes "pool_inv ts R H" "t \<in> H" "nb__insert_timer t to Redelivery_Timer_Cb p ts = Inr ts'"
  shows "armed ts' t to p"
proof -
  obtain xs fs where inv: "timer_inv ts xs fs" "set xs = R" "R \<inter> H = {}" "H \<subseteq> Collect valid_timer" "set fs = Collect valid_timer - R - H"
    using assms(1) by (auto simp: pool_inv_def)
  then have "valid_timer t" "t \<notin> set xs" "t \<notin> set fs" using assms(2) by auto
  from insert_timer_inv [OF inv(1) this, of to Redelivery_Timer_Cb p] assms(3) show ?thesis by (auto simp: armed_def)
qed

lemma simple_reliable_send:
  assumes E: "simple_env E" and p: "at_buf s p N f tail" and c: "c \<noteq> 0" "conns s c = Some x" "length (redelivery_buffer x) = 32"
    and seq: "f ''sequence_number'' = ucast seq" and pool: "pool_inv (timers s) R H" "R \<union> H \<noteq> Collect valid_timer"
  obtains t w ts b where "reliable_hook_send E c p s = Inr (HOOK_CONTINUE, s\<lparr>
      conns := (conns s)(c \<mapsto> x\<lparr>redelivery_buffer := (redelivery_buffer x)[unat (seq :: u32) mod 32 := p]\<rparr>), nb__time_now := w,
      timers := ts, bufs := (bufs s)(p \<mapsto> b)\<rparr>)"
    "at_buf (s\<lparr>bufs := (bufs s)(p \<mapsto> b)\<rparr>) p N (f(''redelivery_timer'' := t, ''ack_sequence_number'' := 0)) tail"
    "t \<noteq> 0" "t \<notin> R \<union> H" "pool_inv ts (insert t R) H" "armed ts t (w + REDELIVERY_TIMEOUT_MS) p" "nb__time_now s \<noteq> - 1 \<longrightarrow> w = nb__time_now s"
proof -
  let ?x = "x\<lparr>redelivery_buffer := (redelivery_buffer x)[unat seq mod 32 := p]\<rparr>"
  obtain t ts1 where t: "nb__alloc_timer (timers s) = Inr (t, ts1)" "pool_inv ts1 R (insert t H)" "t \<notin> R \<union> H" "t \<noteq> 0"
    using pool_inv_alloc [OF pool(1)] pool(2) by (auto split: if_splits)
  let ?s1 = "s\<lparr>conns := (conns s)(c \<mapsto> ?x), timers := ts1\<rparr>"
  obtain w where w: "nb__get_time_ms_now E ?s1 = (w, ?s1\<lparr>nb__time_now := w\<rparr>)" "nb__time_now s \<noteq> - 1 \<longrightarrow> w = nb__time_now s"
    using get_time_state [of E ?s1] by auto
  obtain ts where ts: "nb__insert_timer t (w + REDELIVERY_TIMEOUT_MS) Redelivery_Timer_Cb p ts1 = Inr ts" "pool_inv ts (insert t R) (insert t H - {t})"
    using pool_inv_insert [OF t(2), of t] by blast
  let ?s2 = "s\<lparr>conns := (conns s)(c \<mapsto> ?x), nb__time_now := w, timers := ts\<rparr>"
  have p2: "at_buf ?s2 p N f tail" using p by simp
  have rep: "member_rep simple_layout ''redelivery_timer'' t" "member_rep simple_layout ''ack_sequence_number'' 0" by (simp_all add: simple_reps)
  obtain b where b: "bindE (pkt_set E ''redelivery_timer'' p t ?s2) (pkt_set E ''ack_sequence_number'' p 0) = Inr (?s2\<lparr>bufs := (bufs ?s2)(p \<mapsto> b)\<rparr>)"
    "at_buf (?s2\<lparr>bufs := (bufs ?s2)(p \<mapsto> b)\<rparr>) p N (f(''redelivery_timer'' := t, ''ack_sequence_number'' := 0)) tail"
    using E p2 in_header(2) rep(1) in_header(12) rep(2) by (rule pkt_set2_field)
  obtain s3 where s3: "pkt_set E ''redelivery_timer'' p t ?s2 = Inr s3" "pkt_set E ''ack_sequence_number'' p 0 s3 = Inr (?s2\<lparr>bufs := (bufs ?s2)(p \<mapsto> b)\<rparr>)"
    using b(1) by (auto simp: bindE_eq_Inr)
  have idx: "unat (ucast seq :: u64) mod REDELIVERY_BUFFER_SIZE = unat seq mod 32"
    by (simp add: REDELIVERY_BUFFER_SIZE_def)
  have "insert t H - {t} = H" using t(3) by auto
  moreover have "reliable_hook_send E c p s = Inr (HOOK_CONTINUE, ?s2\<lparr>bufs := (bufs s)(p \<mapsto> b)\<rparr>)"
    using E p c seq t(1) w(1) ts(1) s3 idx by (simp add: reliable_hook_send_def pkt_get_field Let_def conn_updE_def timers_updE_def)
  moreover have "at_buf (s\<lparr>bufs := (bufs s)(p \<mapsto> b)\<rparr>) p N (f(''redelivery_timer'' := t, ''ack_sequence_number'' := 0)) tail"
    using b(2) by (simp add: at_buf_def)
  moreover have "armed ts t (w + REDELIVERY_TIMEOUT_MS) p" using insert_timer_armed [OF t(2) _ ts(1)] by simp
  ultimately show ?thesis using that t(3,4) ts(2) w(2) by simp
qed

lemma simple_identifier_send:
  assumes E: "simple_env E" and p: "at_buf s p N f tail" and c: "c \<noteq> 0" "conns s c = Some x"
    and ids: "unat (remote_host_id x) < 2 ^ 48" "unat (nb__my_local_host_id s) < 2 ^ 48" "unat (remote_app_id x) < 65536" "unat (local_app_id x) < 65536"
  obtains b where "identifier_hook_send E c p s = Inr (HOOK_CONTINUE, s\<lparr>bufs := (bufs s)(p \<mapsto> b)\<rparr>)"
    "at_buf (s\<lparr>bufs := (bufs s)(p \<mapsto> b)\<rparr>) p N (f(''dst_host_id'' := remote_host_id x, ''dst_app_id'' := ucast (remote_app_id x),
       ''src_host_id'' := nb__my_local_host_id s, ''src_app_id'' := ucast (local_app_id x))) tail"
proof -
  have rep: "member_rep simple_layout ''dst_app_id'' (ucast (remote_app_id x))" "member_rep simple_layout ''src_app_id'' (ucast (local_app_id x))"
    by (simp_all add: simple_reps fits_app ids)
  obtain b1 where b1: "bindE (pkt_set E ''dst_host_id'' p (remote_host_id x) s) (pkt_set E ''dst_app_id'' p (ucast (remote_app_id x))) =
      Inr (s\<lparr>bufs := (bufs s)(p \<mapsto> b1)\<rparr>)"
    "at_buf (s\<lparr>bufs := (bufs s)(p \<mapsto> b1)\<rparr>) p N (f(''dst_host_id'' := remote_host_id x, ''dst_app_id'' := ucast (remote_app_id x))) tail"
    using E p in_header(4) rep_host(1) [OF ids(1)] in_header(8) rep(1) by (rule pkt_set2_field)
  let ?s1 = "s\<lparr>bufs := (bufs s)(p \<mapsto> b1)\<rparr>"
  obtain b2 where b2: "bindE (pkt_set E ''src_host_id'' p (nb__my_local_host_id s) ?s1) (pkt_set E ''src_app_id'' p (ucast (local_app_id x))) =
      Inr (?s1\<lparr>bufs := (bufs ?s1)(p \<mapsto> b2)\<rparr>)"
    "at_buf (?s1\<lparr>bufs := (bufs ?s1)(p \<mapsto> b2)\<rparr>) p N (f(''dst_host_id'' := remote_host_id x, ''dst_app_id'' := ucast (remote_app_id x),
       ''src_host_id'' := nb__my_local_host_id s, ''src_app_id'' := ucast (local_app_id x))) tail"
    using E b1(2) in_header(5) rep_host(2) [OF ids(2)] in_header(9) rep(2) by (rule pkt_set2_field)
  obtain s1 s3 where "pkt_set E ''dst_host_id'' p (remote_host_id x) s = Inr s1" "pkt_set E ''dst_app_id'' p (ucast (remote_app_id x)) s1 = Inr ?s1"
    "pkt_set E ''src_host_id'' p (nb__my_local_host_id s) ?s1 = Inr s3" "pkt_set E ''src_app_id'' p (ucast (local_app_id x)) s3 = Inr (?s1\<lparr>bufs := (bufs ?s1)(p \<mapsto> b2)\<rparr>)"
    using b1(1) b2(1) by (auto simp: bindE_eq_Inr)
  with E c have "identifier_hook_send E c p s = Inr (HOOK_CONTINUE, s\<lparr>bufs := (bufs s)(p \<mapsto> b2)\<rparr>)" by (simp add: identifier_hook_send_def)
  with b2(2) show ?thesis by (intro that) simp_all
qed

lemma simple_routing_send:
  assumes E: "simple_env E" and p: "at_buf s p N f tail" and c: "c \<noteq> 0" "conns s c = Some x"
  obtains b where "routing_hook_send E c p len s = Inr (HOOK_CONTINUE, s\<lparr>bufs := (bufs s)(p \<mapsto> b)\<rparr>)"
    "at_buf (s\<lparr>bufs := (bufs s)(p \<mapsto> b)\<rparr>) p N
       (f(''dst_global_id'' := ucast (conn_dst_global_id x), ''src_global_id'' := ucast (nb__my_host_id s))) tail"
proof -
  have rep: "member_rep simple_layout ''dst_global_id'' (ucast (conn_dst_global_id x))" "member_rep simple_layout ''src_global_id'' (ucast (nb__my_host_id s))"
    by (simp_all add: simple_reps)
  obtain b where b: "bindE (pkt_set E ''dst_global_id'' p (ucast (conn_dst_global_id x)) s) (pkt_set E ''src_global_id'' p (ucast (nb__my_host_id s))) =
      Inr (s\<lparr>bufs := (bufs s)(p \<mapsto> b)\<rparr>)"
    "at_buf (s\<lparr>bufs := (bufs s)(p \<mapsto> b)\<rparr>) p N (f(''dst_global_id'' := ucast (conn_dst_global_id x), ''src_global_id'' := ucast (nb__my_host_id s))) tail"
    using E p in_header(6) rep(1) in_header(7) rep(2) by (rule pkt_set2_field)
  then obtain s1 where s1: "pkt_set E ''dst_global_id'' p (ucast (conn_dst_global_id x)) s = Inr s1"
    "pkt_set E ''src_global_id'' p (ucast (nb__my_host_id s)) s1 = Inr (s\<lparr>bufs := (bufs s)(p \<mapsto> b)\<rparr>)" by (auto simp: bindE_eq_Inr)
  moreover have "nb__my_host_id s1 = nb__my_host_id s" using s1(1) by (auto simp: pkt_set_eq_Inr)
  ultimately have "routing_hook_send E c p len s = Inr (HOOK_CONTINUE, s\<lparr>bufs := (bufs s)(p \<mapsto> b)\<rparr>)"
    using E c by (simp add: routing_hook_send_def)
  with b(2) that show ?thesis by blast
qed

text \<open>The modules behind the reliable module, with any transport that accepts packets.\<close>

definition send_tail_modules :: "module_id list" where
  "send_tail_modules = [Identifier_Module, Signaling_Module_After, Routing_Module, Checksum_Module, Network_Module]"

definition good_ids :: "nb__connection_t \<Rightarrow> ('t, 'a) nb_state \<Rightarrow> bool" where
  "good_ids x s \<longleftrightarrow> unat (remote_host_id x) < 2 ^ 48 \<and> unat (nb__my_local_host_id s) < 2 ^ 48 \<and>
     unat (remote_app_id x) < 65536 \<and> unat (local_app_id x) < 65536"

text \<open>The members that the identifier and routing modules write.\<close>

definition addressed :: "nb__connection_t \<Rightarrow> ('t, 'a) nb_state \<Rightarrow> (string \<Rightarrow> u64) \<Rightarrow> string \<Rightarrow> u64" where
  "addressed x s f = f(''dst_host_id'' := remote_host_id x, ''dst_app_id'' := ucast (remote_app_id x),
     ''src_host_id'' := nb__my_local_host_id s, ''src_app_id'' := ucast (local_app_id x),
     ''dst_global_id'' := ucast (conn_dst_global_id x), ''src_global_id'' := ucast (nb__my_host_id s))"

lemma simple_network_send:
  assumes E: "simple_env E" and p: "p \<noteq> 0" "bufs s p = Some b" "pkt_is b f tail" "holds_wire n f tail"
    and tx: "send_packet E (take n (drop 24 b)) s = Inr (r, s')"
  shows "network_hook_send E p s = Inr (HOOK_CONTINUE, s')"
proof -
  have n: "f ''computed_total_len'' = of_nat n" "24 + n < 2 ^ 31" "24 + n \<le> length b" using p(3,4) by (auto simp: holds_wire_def pkt_is_def)
  have "pkt_get E ''computed_total_len'' p s = Inr (of_nat n)"
    using pkt_get_field [OF E, of s p "length b" f tail "''computed_total_len''"] p n(1) by (simp add: at_buf_def)
  moreover have "ull_to_int (of_nat n) = int n" using n(2) by (intro ull_to_int_nat) simp
  moreover have "buf_slice 24 (int n) b = Inr (take n (drop 24 b))" using n(3) by (simp add: buf_slice_def)
  ultimately show ?thesis
    using E p(1,2) tx by (simp add: network_hook_send_def send_from_headroom_def simple_headroom Let_def)
qed

lemma send_tail_view:
  assumes E: "simple_env E" and p: "at_buf s p N f tail" "holds_wire n f tail" and c: "c \<noteq> 0" "conns s c = Some x" "good_ids x s"
    and tx: "\<And>m s'. transport_state s' = transport_state s \<Longrightarrow> send_packet E m s' = Inr (r m, s'\<lparr>transport_state := tr m\<rparr>)"
  obtains b ck tail' where "run_hooks (hook_send E c p buff len) send_tail_modules (s, ret) =
      Inr (s\<lparr>bufs := (bufs s)(p \<mapsto> b), transport_state := tr (take n (drop 24 b))\<rparr>, ret)"
    "length b = N" "pkt_is b ((addressed x s f)(''checksum'' := ck)) tail'" "take (n - 38) tail' = take (n - 38) tail" "good_sum n b"
proof -
  obtain b1 where b1: "identifier_hook_send E c p s = Inr (HOOK_CONTINUE, s\<lparr>bufs := (bufs s)(p \<mapsto> b1)\<rparr>)"
    "at_buf (s\<lparr>bufs := (bufs s)(p \<mapsto> b1)\<rparr>) p N (f(''dst_host_id'' := remote_host_id x, ''dst_app_id'' := ucast (remote_app_id x),
       ''src_host_id'' := nb__my_local_host_id s, ''src_app_id'' := ucast (local_app_id x))) tail"
    using E p(1) c(1,2) by (rule simple_identifier_send) (use c(3) in \<open>simp_all add: good_ids_def\<close>)
  let ?s1 = "s\<lparr>bufs := (bufs s)(p \<mapsto> b1)\<rparr>"
  have "conns ?s1 c = Some x" using c(2) by simp
  from simple_routing_send [OF E b1(2) c(1) this, of len] obtain b2 where
    b2: "routing_hook_send E c p len ?s1 = Inr (HOOK_CONTINUE, s\<lparr>bufs := (bufs s)(p \<mapsto> b2)\<rparr>)"
    "at_buf (s\<lparr>bufs := (bufs s)(p \<mapsto> b2)\<rparr>) p N (addressed x s f) tail" by (auto simp: addressed_def)
  let ?s2 = "s\<lparr>bufs := (bufs s)(p \<mapsto> b2)\<rparr>"
  have pk2: "p \<noteq> 0" "bufs ?s2 p = Some b2" "length b2 = N" "pkt_is b2 (addressed x s f) tail" using b2(2) by (auto simp: at_buf_def)
  have hw: "holds_wire n (addressed x s f) tail" using p(2) by (simp add: holds_wire_def addressed_def)
  obtain b ck tail' where b: "checksum_hook_send E p ?s2 = Inr (HOOK_CONTINUE, s\<lparr>bufs := (bufs s)(p \<mapsto> b)\<rparr>)" "length b = length b2"
    "pkt_is b ((addressed x s f)(''checksum'' := ck)) tail'" "take (n - 38) tail' = take (n - 38) tail" "good_sum n b"
    using simple_checksum_send [OF _ _ pk2(1,2,4) hw, of E] E by auto
  have "length tail' = length tail" using b(2,3) pk2(4) by (auto simp: pkt_is_def)
  then have hw': "holds_wire n ((addressed x s f)(''checksum'' := ck)) tail'" using hw by (simp add: holds_wire_def)
  let ?s3 = "s\<lparr>bufs := (bufs s)(p \<mapsto> b)\<rparr>"
  have "send_packet E (take n (drop 24 b)) ?s3 = Inr (r (take n (drop 24 b)), ?s3\<lparr>transport_state := tr (take n (drop 24 b))\<rparr>)"
    by (rule tx) simp
  from simple_network_send [OF E pk2(1) _ b(3) hw' this]
  have "network_hook_send E p ?s3 = Inr (HOOK_CONTINUE, ?s3\<lparr>transport_state := tr (take n (drop 24 b))\<rparr>)" by simp
  with b1(1) b2(1) b(1) have "run_hooks (hook_send E c p buff len) send_tail_modules (s, ret) =
      Inr (s\<lparr>bufs := (bufs s)(p \<mapsto> b), transport_state := tr (take n (drop 24 b))\<rparr>, ret)"
    by (simp add: send_tail_modules_def keep_ret_def default_hook_def)
  with b(2-5) pk2(3) that show ?thesis by simp
qed

text \<open>A buffer with arbitrary contents holds some packet.\<close>

lemma pkt_is_any:
  assumes "63 \<le> length b"
  obtains f where "pkt_is b f (drop 62 b)"
proof -
  have "\<exists>v. get_integer simple_layout n b = Inr v" if "n \<in> set header_names" for n
    using simple.get_member [OF assms header_subset [OF that]] .
  then obtain f where "\<forall>n \<in> set header_names. get_integer simple_layout n b = Inr (f n)" by metis
  with assms show ?thesis by (intro that [of f]) (simp add: pkt_is_def)
qed

text \<open>The packet that \<open>nb__send\<close> puts on the wire, as it is in the buffer.\<close>

definition data_packet :: "nb__connection_t \<Rightarrow> ('t, 'a) nb_state \<Rightarrow> u8 list \<Rightarrow> u64 \<Rightarrow> u8 list \<Rightarrow> bool" where
  "data_packet x s payload t b \<longleftrightarrow>
     (\<exists>f tail. pkt_is b f tail \<and> take (length payload) tail = payload \<and> good_sum (38 + length payload) b \<and>
        f ''computed_total_len'' = of_nat (38 + length payload) \<and> f ''total_len'' = of_nat (38 + length payload) \<and>
        f ''sequence_number'' = ucast (last_sent_sequence x + 1) \<and> f ''ack_sequence_number'' = 0 \<and> f ''redelivery_timer'' = t \<and>
        f ''dst_host_id'' = remote_host_id x \<and> f ''dst_app_id'' = ucast (remote_app_id x) \<and>
        f ''src_host_id'' = nb__my_local_host_id s \<and> f ''src_app_id'' = ucast (local_app_id x))"

lemma simple_modules_split: "simple_modules = [Payload_Module, Signaling_Module, Inorder_Module, Reliable_Module] @ send_tail_modules"
  by (simp add: simple_modules_def send_tail_modules_def)

text \<open>The modules up to the reliable module.\<close>

lemma send_head_view:
  assumes E: "simple_env E" and p: "at_buf s p N f tail" and c: "c \<noteq> 0" "conns s c = Some x" "length (redelivery_buffer x) = 32"
    and pool: "pool_inv (timers s) R H" "R \<union> H \<noteq> Collect valid_timer"
    and len: "unat len = length payload" "length payload \<le> length tail" "length payload < 2 ^ 30"
  obtains b t w ts where "run_hooks (hook_send E c p payload len) ([Payload_Module, Signaling_Module, Inorder_Module, Reliable_Module] @ ms) (s, ret) =
      run_hooks (hook_send E c p payload len) ms (s\<lparr>conns := (conns s)(c \<mapsto> x\<lparr>last_sent_sequence := last_sent_sequence x + 1,
        redelivery_buffer := (redelivery_buffer x)[unat (last_sent_sequence x + 1) mod 32 := p]\<rparr>),
      nb__time_now := w, timers := ts, bufs := (bufs s)(p \<mapsto> b)\<rparr>, sint len)"
    "at_buf (s\<lparr>bufs := (bufs s)(p \<mapsto> b)\<rparr>) p N (f(''total_len'' := of_nat (38 + length payload), ''computed_total_len'' := of_nat (38 + length payload),
       ''sequence_number'' := ucast (last_sent_sequence x + 1), ''redelivery_timer'' := t, ''ack_sequence_number'' := 0)) (payload @ drop (length payload) tail)"
    "t \<noteq> 0" "t \<notin> R \<union> H" "pool_inv ts (insert t R) H" "armed ts t (w + REDELIVERY_TIMEOUT_MS) p" "nb__time_now s \<noteq> - 1 \<longrightarrow> w = nb__time_now s"
proof -
  let ?n = "38 + length payload" and ?seq = "last_sent_sequence x + 1"
  have lens: "unat len \<le> length payload" "unat len \<le> length tail" "unat len < 2 ^ 30" using len by simp_all
  obtain b1 where b1: "payload_hook_send E p payload len s = Inr (HOOK_CONTINUE, s\<lparr>bufs := (bufs s)(p \<mapsto> b1)\<rparr>, sint len)"
    "at_buf (s\<lparr>bufs := (bufs s)(p \<mapsto> b1)\<rparr>) p N (f(''total_len'' := of_nat (38 + unat len), ''computed_total_len'' := of_nat (38 + unat len)))
       (take (unat len) payload @ drop (unat len) tail)"
    using E p lens by (rule simple_payload_send)
  let ?f1 = "f(''total_len'' := of_nat ?n, ''computed_total_len'' := of_nat ?n)" and ?tail = "payload @ drop (length payload) tail"
  let ?s1 = "s\<lparr>bufs := (bufs s)(p \<mapsto> b1)\<rparr>"
  have at1: "at_buf ?s1 p N ?f1 ?tail" using b1(2) len(1) by simp
  have c1: "conns ?s1 c = Some x" using c(2) by simp
  obtain b2 where b2: "inorder_hook_send E c p ?s1 = Inr (HOOK_CONTINUE, ?s1\<lparr>
      conns := (conns ?s1)(c \<mapsto> x\<lparr>last_sent_sequence := ?seq\<rparr>), bufs := (bufs ?s1)(p \<mapsto> b2)\<rparr>)"
    "at_buf (?s1\<lparr>bufs := (bufs ?s1)(p \<mapsto> b2)\<rparr>) p N (?f1(''sequence_number'' := ucast ?seq)) ?tail"
    using E at1 c(1) c1 by (rule simple_inorder_send)
  let ?s2 = "s\<lparr>conns := (conns s)(c \<mapsto> x\<lparr>last_sent_sequence := ?seq\<rparr>), bufs := (bufs s)(p \<mapsto> b2)\<rparr>"
  have h2: "inorder_hook_send E c p ?s1 = Inr (HOOK_CONTINUE, ?s2)" using b2(1) by simp
  have at2: "at_buf ?s2 p N (?f1(''sequence_number'' := ucast ?seq)) ?tail" using b2(2) by (simp add: at_buf_def)
  have c2: "conns ?s2 c = Some (x\<lparr>last_sent_sequence := ?seq\<rparr>)" "length (redelivery_buffer (x\<lparr>last_sent_sequence := ?seq\<rparr>)) = 32"
    "(?f1(''sequence_number'' := ucast ?seq)) ''sequence_number'' = ucast ?seq" "pool_inv (timers ?s2) R H"
    using c(3) pool(1) by simp_all
  obtain t w ts b where b: "reliable_hook_send E c p ?s2 = Inr (HOOK_CONTINUE, ?s2\<lparr>conns := (conns ?s2)(c \<mapsto> x\<lparr>last_sent_sequence := ?seq\<rparr>
        \<lparr>redelivery_buffer := (redelivery_buffer (x\<lparr>last_sent_sequence := ?seq\<rparr>))[unat ?seq mod 32 := p]\<rparr>),
      nb__time_now := w, timers := ts, bufs := (bufs ?s2)(p \<mapsto> b)\<rparr>)"
    "at_buf (?s2\<lparr>bufs := (bufs ?s2)(p \<mapsto> b)\<rparr>) p N (?f1(''sequence_number'' := ucast ?seq, ''redelivery_timer'' := t, ''ack_sequence_number'' := 0)) ?tail"
    "t \<noteq> 0" "t \<notin> R \<union> H" "pool_inv ts (insert t R) H" "armed ts t (w + REDELIVERY_TIMEOUT_MS) p" "nb__time_now ?s2 \<noteq> - 1 \<longrightarrow> w = nb__time_now ?s2"
    using E at2 c(1) c2 pool(2) by (rule simple_reliable_send)
  show ?thesis
  proof (rule that [OF _ _ b(3-6)])
    show "at_buf (s\<lparr>bufs := (bufs s)(p \<mapsto> b)\<rparr>) p N (?f1(''sequence_number'' := ucast ?seq, ''redelivery_timer'' := t, ''ack_sequence_number'' := 0)) ?tail"
      using b(2) by (simp add: at_buf_def)
  qed (use b1(1) h2 b(1,7) in \<open>simp_all add: keep_ret_def default_hook_def\<close>)
qed

lemma simple_send_view:
  fixes s :: "('t, 'a) nb_state"
  assumes E: "simple_env E" and c: "c \<noteq> 0" "conns s c = Some x" "good_ids x s" "length (redelivery_buffer x) = 32"
    and pool: "pool_inv (timers s) R H" "R \<union> H \<noteq> Collect valid_timer"
    and req: "request_send_buffer E s = Inr (p, s\<lparr>mallocs := k, bufs := (bufs s)(p \<mapsto> b0)\<rparr>)" "p \<noteq> 0" "length b0 = 1024"
    and len: "length payload \<le> 961"
    and tx: "\<And>m s'. transport_state s' = transport_state s \<Longrightarrow> send_packet E m s' = Inr (r m, s'\<lparr>transport_state := tr m\<rparr>)"
  obtains b t w ts where "nb__send E c payload (int (length payload)) s = Inr (int (length payload), s\<lparr>mallocs := k,
      conns := (conns s)(c \<mapsto> x\<lparr>last_sent_sequence := last_sent_sequence x + 1,
        redelivery_buffer := (redelivery_buffer x)[unat (last_sent_sequence x + 1) mod 32 := p]\<rparr>),
      nb__time_now := w, timers := ts, bufs := (bufs s)(p \<mapsto> b), transport_state := tr (take (38 + length payload) (drop 24 b))\<rparr>)"
    "length b = 1024" "data_packet x s payload t b" "t \<noteq> 0" "t \<notin> R \<union> H" "pool_inv ts (insert t R) H" "armed ts t (w + REDELIVERY_TIMEOUT_MS) p" "nb__time_now s \<noteq> - 1 \<longrightarrow> w = nb__time_now s"
proof -
  define len where "len = (of_nat (length payload) :: u32)"
  have ulen: "unat len = length payload" using len by (simp add: len_def unat_of_nat)
  have slen: "sint len = int (length payload)" using len by (simp add: len_def signed_of_nat signed_take_bit_int_eq_self)
  let ?n = "38 + length payload" and ?seq = "last_sent_sequence x + 1"
  let ?s0 = "s\<lparr>mallocs := k, bufs := (bufs s)(p \<mapsto> b0)\<rparr>"
  obtain f0 where f0: "pkt_is b0 f0 (drop 62 b0)" using pkt_is_any [of b0] req(3) by auto
  have at0: "at_buf ?s0 p 1024 f0 (drop 62 b0)" "conns ?s0 c = Some x" "pool_inv (timers ?s0) R H" using f0 req c(2) pool(1) by (simp_all add: at_buf_def)
  have lens: "length payload \<le> length (drop 62 b0)" "length payload < 2 ^ 30" using len req(3) by simp_all
  let ?x = "x\<lparr>last_sent_sequence := ?seq, redelivery_buffer := (redelivery_buffer x)[unat ?seq mod 32 := p]\<rparr>" and ?tail = "payload @ drop (length payload) (drop 62 b0)"
  obtain b3 t w ts where b3: "run_hooks (hook_send E c p payload len) ([Payload_Module, Signaling_Module, Inorder_Module, Reliable_Module] @ send_tail_modules) (?s0, 0) =
      run_hooks (hook_send E c p payload len) send_tail_modules
        (?s0\<lparr>conns := (conns ?s0)(c \<mapsto> ?x), nb__time_now := w, timers := ts, bufs := (bufs ?s0)(p \<mapsto> b3)\<rparr>, sint len)"
    "at_buf (?s0\<lparr>bufs := (bufs ?s0)(p \<mapsto> b3)\<rparr>) p 1024 (f0(''total_len'' := of_nat ?n, ''computed_total_len'' := of_nat ?n,
       ''sequence_number'' := ucast ?seq, ''redelivery_timer'' := t, ''ack_sequence_number'' := 0)) ?tail"
    "t \<noteq> 0" "t \<notin> R \<union> H" "pool_inv ts (insert t R) H" "armed ts t (w + REDELIVERY_TIMEOUT_MS) p" "nb__time_now ?s0 \<noteq> - 1 \<longrightarrow> w = nb__time_now ?s0"
    using E at0(1) c(1) at0(2) c(4) at0(3) pool(2) ulen lens by (rule send_head_view)
  let ?s3 = "s\<lparr>mallocs := k, conns := (conns s)(c \<mapsto> ?x), nb__time_now := w, timers := ts, bufs := (bufs s)(p \<mapsto> b3)\<rparr>"
  let ?f3 = "f0(''total_len'' := of_nat ?n, ''computed_total_len'' := of_nat ?n, ''sequence_number'' := ucast ?seq, ''redelivery_timer'' := t, ''ack_sequence_number'' := 0)"
  have at3: "at_buf ?s3 p 1024 ?f3 ?tail" using b3(2) by (simp add: at_buf_def)
  have hw: "holds_wire ?n ?f3 ?tail" using len req(3) by (auto simp: holds_wire_def)
  have c3: "conns ?s3 c = Some ?x" "good_ids ?x ?s3" using c(3) by (simp_all add: good_ids_def)
  have tx3: "send_packet E m s' = Inr (r m, s'\<lparr>transport_state := tr m\<rparr>)" if "transport_state s' = transport_state ?s3" for m s'
    using tx that by simp
  obtain b ck tail' where b: "run_hooks (hook_send E c p payload len) send_tail_modules (?s3, sint len) =
      Inr (?s3\<lparr>bufs := (bufs ?s3)(p \<mapsto> b), transport_state := tr (take ?n (drop 24 b))\<rparr>, sint len)"
    "length b = 1024" "pkt_is b ((addressed ?x ?s3 ?f3)(''checksum'' := ck)) tail'" "take (?n - 38) tail' = take (?n - 38) ?tail" "good_sum ?n b"
    using E at3 hw c(1) c3 tx3 by (rule send_tail_view)
  have "data_packet x s payload t b"
    unfolding data_packet_def using b(3,4,5) by (intro exI [of _ "(addressed ?x ?s3 ?f3)(''checksum'' := ck)"] exI [of _ tail']) (simp add: addressed_def)
  moreover have "nb__send E c payload (int (length payload)) s = Inr (int (length payload), s\<lparr>mallocs := k,
      conns := (conns s)(c \<mapsto> ?x), nb__time_now := w, timers := ts, bufs := (bufs s)(p \<mapsto> b), transport_state := tr (take ?n (drop 24 b))\<rparr>)"
    using E req(1) b3(1) b(1) slen
    by (simp add: nb__send_def run_send_path_def simple_modules_split flip: len_def del: of_nat_add run_hooks.simps append.simps)
  ultimately show ?thesis by (intro that [OF _ b(2) _ b3(3-6)]) (use b3(7) in simp_all)
qed

section \<open>The ingress path\<close>

lemma total_len_ingress_view:
  assumes E: "simple_env E" and p: "at_buf s p N f tail" and n: "f ''total_len'' = of_nat n" "n < 2 ^ 31"
  obtains b where "network_hook_ingress E p s = Inr (HOOK_CONTINUE, s\<lparr>bufs := (bufs s)(p \<mapsto> b)\<rparr>)"
    "payload_hook_ingress E p s = Inr (HOOK_CONTINUE, s\<lparr>bufs := (bufs s)(p \<mapsto> b)\<rparr>)"
    "at_buf (s\<lparr>bufs := (bufs s)(p \<mapsto> b)\<rparr>) p N (f(''computed_total_len'' := of_nat n)) tail"
proof -
  have rep: "member_rep simple_layout ''computed_total_len'' (of_nat n)" using fits_int [OF n(2)] by (simp add: simple_reps)
  obtain b where b: "pkt_set E ''computed_total_len'' p (of_nat n) s = Inr (s\<lparr>bufs := (bufs s)(p \<mapsto> b)\<rparr>)"
    "at_buf (s\<lparr>bufs := (bufs s)(p \<mapsto> b)\<rparr>) p N (f(''computed_total_len'' := of_nat n)) tail"
    using E p in_header(1) rep by (rule pkt_set_field)
  with E p n(1) show ?thesis
    by (intro that [of b]) (simp_all add: network_hook_ingress_def payload_hook_ingress_def pkt_get_field)
qed

lemma retrieve_connection_cong:
  "num_conn s' = num_conn s \<Longrightarrow> active_local_app_ids s' = active_local_app_ids s \<Longrightarrow> active_remote_app_ids s' = active_remote_app_ids s \<Longrightarrow>
   active_remote_host_ids s' = active_remote_host_ids s \<Longrightarrow> active_connections s' = active_connections s \<Longrightarrow>
   retrieve_connection E a r h s' = retrieve_connection E a r h s"
  by (simp add: retrieve_connection_def match_connection_def [abs_def] cong: if_cong option.case_cong)

lemma ucast_ucast_u32 [simp]: "(ucast (ucast (w :: u32) :: u64) :: u32) = w"
  by (rule bit_word_eqI) (auto simp: bit_simps)

lemma identifier_ingress_view:
  assumes E: "simple_env E" and p: "at_buf s p N f tail"
    and ids: "f ''dst_host_id'' = nb__my_local_host_id s" "f ''dst_app_id'' = ucast (a :: u32)" "f ''src_app_id'' = ucast (r :: u32)"
    and c: "retrieve_connection E a r (f ''src_host_id'') s = Inr c" "c \<noteq> 0"
  obtains b where "identifier_hook_ingress E p s = Inr (HOOK_CONTINUE, s\<lparr>bufs := (bufs s)(p \<mapsto> b)\<rparr>)"
    "at_buf (s\<lparr>bufs := (bufs s)(p \<mapsto> b)\<rparr>) p N (f(''flow_identifier'' := c)) tail"
proof -
  have rep: "member_rep simple_layout ''flow_identifier'' c" by (simp add: simple_reps)
  obtain b where b: "pkt_set E ''flow_identifier'' p c s = Inr (s\<lparr>bufs := (bufs s)(p \<mapsto> b)\<rparr>)"
    "at_buf (s\<lparr>bufs := (bufs s)(p \<mapsto> b)\<rparr>) p N (f(''flow_identifier'' := c)) tail"
    using E p in_header(3) rep by (rule pkt_set_field)
  with E p ids c show ?thesis by (intro that [of b]) (simp_all add: identifier_hook_ingress_def pkt_get_field Let_def)
qed

text \<open>The acknowledgement that the reliable module sends, as it is in its buffer.\<close>

definition ack_packet :: "nb__connection_t \<Rightarrow> ('t, 'a) nb_state \<Rightarrow> u32 \<Rightarrow> u8 list \<Rightarrow> bool" where
  "ack_packet x s seq b \<longleftrightarrow>
     (\<exists>f tail. pkt_is b f tail \<and> good_sum 39 b \<and> f ''total_len'' = 39 \<and> f ''ack_sequence_number'' = ucast seq \<and>
        f ''dst_host_id'' = remote_host_id x \<and> f ''dst_app_id'' = ucast (remote_app_id x) \<and>
        f ''src_host_id'' = nb__my_local_host_id s \<and> f ''src_app_id'' = ucast (local_app_id x))"

lemma send_after_reliable:
  "simple_env E \<Longrightarrow> send_after E Reliable_Module c p buff len s =
     bindE (run_hooks (hook_send E c p buff len) send_tail_modules (s, 0)) (\<lambda>(s, ret). Inr s)"
  by (simp add: send_after_def m_sequence_def simple_modules_def send_tail_modules_def)

lemma send_ack_view:
  fixes s :: "('t, 'a) nb_state"
  assumes E: "simple_env E" and c: "c \<noteq> 0" "conns s c = Some x" "good_ids x s"
    and req: "request_send_buffer E s = Inr (q, s\<lparr>mallocs := k, bufs := (bufs s)(q \<mapsto> b0)\<rparr>)" "q \<noteq> 0" "length b0 = 1024"
    and tx: "\<And>m s'. transport_state s' = transport_state s \<Longrightarrow> send_packet E m s' = Inr (r m, s'\<lparr>transport_state := tr m\<rparr>)"
  obtains b where "send_ack E (send_after E Reliable_Module) c seq s =
      Inr (s\<lparr>mallocs := k, bufs := (bufs s)(q \<mapsto> b), transport_state := tr (take 39 (drop 24 b))\<rparr>)"
    "length b = 1024" "ack_packet x s seq b"
proof -
  let ?s0 = "s\<lparr>mallocs := k, bufs := (bufs s)(q \<mapsto> b0)\<rparr>"
  obtain f0 where f0: "pkt_is b0 f0 (drop 62 b0)" using pkt_is_any [of b0] req(3) by auto
  have at0: "at_buf ?s0 q 1024 f0 (drop 62 b0)" using f0 req by (simp add: at_buf_def)
  have rep: "member_rep simple_layout ''ack_sequence_number'' (ucast seq)" "member_rep simple_layout ''total_len'' 39" "member_rep simple_layout ''computed_total_len'' 39"
    using fits_int [of 39] by (simp_all add: simple_reps)
  obtain b1 where b1: "pkt_set E ''ack_sequence_number'' q (ucast seq) ?s0 = Inr (?s0\<lparr>bufs := (bufs ?s0)(q \<mapsto> b1)\<rparr>)"
    "at_buf (?s0\<lparr>bufs := (bufs ?s0)(q \<mapsto> b1)\<rparr>) q 1024 (f0(''ack_sequence_number'' := ucast seq)) (drop 62 b0)"
    using E at0 in_header(12) rep(1) by (rule pkt_set_field)
  let ?s1 = "?s0\<lparr>bufs := (bufs ?s0)(q \<mapsto> b1)\<rparr>" and ?f = "f0(''ack_sequence_number'' := ucast seq, ''total_len'' := 39, ''computed_total_len'' := 39)"
  obtain b2 where b2: "bindE (pkt_set E ''total_len'' q 39 ?s1) (pkt_set E ''computed_total_len'' q 39) = Inr (?s1\<lparr>bufs := (bufs ?s1)(q \<mapsto> b2)\<rparr>)"
    "at_buf (?s1\<lparr>bufs := (bufs ?s1)(q \<mapsto> b2)\<rparr>) q 1024 ?f (drop 62 b0)"
    using E b1(2) in_header(10) rep(2) in_header(1) rep(3) by (rule pkt_set2_field)
  let ?s2 = "s\<lparr>mallocs := k, bufs := (bufs s)(q \<mapsto> b2)\<rparr>"
  obtain s' where s': "pkt_set E ''total_len'' q 39 ?s1 = Inr s'" "pkt_set E ''computed_total_len'' q 39 s' = Inr ?s2"
    using b2(1) by (auto simp: bindE_eq_Inr)
  have at2: "at_buf ?s2 q 1024 ?f (drop 62 b0)" using b2(2) by simp
  have hw: "holds_wire 39 ?f (drop 62 b0)" using req(3) by (simp add: holds_wire_def)
  have c2: "conns ?s2 c = Some x" "good_ids x ?s2" using c by (simp_all add: good_ids_def)
  have tx2: "send_packet E m s' = Inr (r m, s'\<lparr>transport_state := tr m\<rparr>)" if "transport_state s' = transport_state ?s2" for m s'
    using tx that by simp
  obtain b ck tail' where b: "run_hooks (hook_send E c q [0] 1) send_tail_modules (?s2, 0) =
      Inr (?s2\<lparr>bufs := (bufs ?s2)(q \<mapsto> b), transport_state := tr (take 39 (drop 24 b))\<rparr>, 0)"
    "length b = 1024" "pkt_is b ((addressed x ?s2 ?f)(''checksum'' := ck)) tail'" "good_sum 39 b"
    using E at2 hw c(1) c2 tx2 by (rule send_tail_view)
  show ?thesis
  proof (rule that [where b = b])
    show "send_ack E (send_after E Reliable_Module) c seq s =
      Inr (s\<lparr>mallocs := k, bufs := (bufs s)(q \<mapsto> b), transport_state := tr (take 39 (drop 24 b))\<rparr>)"
      using E req(1) b1(1) s' b(1) by (simp add: send_ack_def send_after_reliable)
    show "ack_packet x s seq b"
      unfolding ack_packet_def using b(3,4) by (intro exI [of _ "(addressed x ?s2 ?f)(''checksum'' := ck)"] exI [of _ tail']) (simp add: addressed_def)
  qed (rule b(2))
qed

lemma reliable_ingress_data:
  fixes s :: "('t, 'a) nb_state"
  assumes E: "simple_env E" and p: "at_buf s p N f tail" and f: "f ''ack_sequence_number'' = 0" "f ''flow_identifier'' = c" "f ''sequence_number'' = ucast seq"
    and c: "c \<noteq> 0" "conns s c = Some x" "good_ids x s"
    and req: "request_send_buffer E s = Inr (q, s\<lparr>mallocs := k, bufs := (bufs s)(q \<mapsto> b0)\<rparr>)" "q \<noteq> 0" "length b0 = 1024"
    and tx: "\<And>m s'. transport_state s' = transport_state s \<Longrightarrow> send_packet E m s' = Inr (r m, s'\<lparr>transport_state := tr m\<rparr>)"
  obtains b where "reliable_hook_ingress E (send_after E Reliable_Module) p s =
      Inr (HOOK_CONTINUE, s\<lparr>mallocs := k, bufs := (bufs s)(q \<mapsto> b), transport_state := tr (take 39 (drop 24 b))\<rparr>)"
    "length b = 1024" "ack_packet x s seq b"
proof -
  obtain b where b: "send_ack E (send_after E Reliable_Module) c seq s =
      Inr (s\<lparr>mallocs := k, bufs := (bufs s)(q \<mapsto> b), transport_state := tr (take 39 (drop 24 b))\<rparr>)"
    "length b = 1024" "ack_packet x s seq b"
    using E c req tx by (rule send_ack_view)
  with E p f show ?thesis by (intro that [of b]) (simp_all add: reliable_hook_ingress_def pkt_get_field Let_def)
qed

lemma payload_length_word: "38 \<le> n \<Longrightarrow> n < 2 ^ 31 \<Longrightarrow> ull_to_int (of_nat n - 38) = int (n - 38)"
proof -
  assume n: "38 \<le> n" "n < 2 ^ 31"
  then have "(of_nat n :: u64) - 38 = of_nat (n - 38)" by (simp add: of_nat_diff)
  then show ?thesis using ull_to_int_nat [of "n - 38"] n by simp
qed

definition payload_entry :: "u64 \<Rightarrow> nat \<Rightarrow> (payload_ptr \<times> int) list" where
  "payload_entry p k = (if k = 0 then [] else [((p, 62), int k)])"

lemma hold_deliver_view:
  assumes E: "simple_env E" and p: "at_buf s p N f tail" and n: "f ''total_len'' = of_nat n" "38 \<le> n" "n < 2 ^ 31"
    and c: "c \<noteq> 0" "conns s c = Some x" and dq: "dq_inv (input_queue x)" "dq_current_elems (input_queue x) < MAX_DATA_QUEUE_ELEMS"
  obtains b dq where "hold_deliver E c p s = Inr (s\<lparr>bufs := (bufs s)(p \<mapsto> b), conns := (conns s)(c \<mapsto> x\<lparr>input_queue := dq\<rparr>)\<rparr>)"
    "at_buf (s\<lparr>bufs := (bufs s)(p \<mapsto> b)\<rparr>) p N (f(''computed_total_len'' := of_nat n)) tail"
    "dq_inv dq" "dq_list dq = dq_list (input_queue x) @ payload_entry p (n - 38)"
proof -
  have rep: "member_rep simple_layout ''computed_total_len'' (of_nat n)" using fits_int [OF n(3)] by (simp add: simple_reps)
  obtain b where b: "pkt_set E ''computed_total_len'' p (of_nat n) s = Inr (s\<lparr>bufs := (bufs s)(p \<mapsto> b)\<rparr>)"
    "at_buf (s\<lparr>bufs := (bufs s)(p \<mapsto> b)\<rparr>) p N (f(''computed_total_len'' := of_nat n)) tail"
    using E p in_header(1) rep by (rule pkt_set_field)
  let ?s = "s\<lparr>bufs := (bufs s)(p \<mapsto> b)\<rparr>"
  have len: "payload_length E p ?s = Inr (int (n - 38))"
    using E pkt_get_field [OF E b(2) in_header(1)] payload_length_word [OF n(2,3)] by (simp add: payload_length_def del: of_nat_diff)
  have addr: "get_addr simple_layout ''payload'' = Inr 62" using simple_int_members(13) by (rule int_member_addr)
  show ?thesis
  proof (cases "n = 38")
    case True
    have "(conns s)(c \<mapsto> x) = conns s" using c(2) by auto
    then have "hold_deliver E c p s = Inr (s\<lparr>bufs := (bufs s)(p \<mapsto> b), conns := (conns s)(c \<mapsto> x\<lparr>input_queue := input_queue x\<rparr>)\<rparr>)"
      using E p n(1) b(1) len True by (simp add: hold_deliver_def deliver_payload_def pkt_get_field)
    with b(2) dq(1) show ?thesis using True by (intro that) (auto simp: payload_entry_def)
  next
    case False
    obtain q where q: "nb__insert_data_queue (p, 62) (int (n - 38)) (input_queue x) = Inr q" "dq_inv q"
      "dq_list q = dq_list (input_queue x) @ [((p, 62), int (n - 38))]" using dq_insert_ok [OF dq] by blast
    have "hold_deliver E c p s = Inr (s\<lparr>bufs := (bufs s)(p \<mapsto> b), conns := (conns s)(c \<mapsto> x\<lparr>input_queue := q\<rparr>)\<rparr>)"
      using E p n b(1) len False addr q(1) c by (simp add: hold_deliver_def deliver_payload_def pkt_get_field conn_updE_def del: of_nat_diff)
    with b(2) q n(2) False show ?thesis by (intro that) (auto simp: payload_entry_def)
  qed
qed

lemma inorder_ingress_next:
  assumes E: "simple_env E" and p: "at_buf s p N f tail" and n: "f ''total_len'' = of_nat n" "38 \<le> n" "n < 2 ^ 31"
    and f: "f ''flow_identifier'' = c" "f ''sequence_number'' = ucast (seq :: u32)"
    and c: "c \<noteq> 0" "conns s c = Some x" and dq: "dq_inv (input_queue x)" "dq_current_elems (input_queue x) < MAX_DATA_QUEUE_ELEMS"
    and turn: "last_recv_sequence x = 0 \<or> seq = last_recv_sequence x + 1"
    and slot: "length (inorder_buffer x) = 32" "inorder_buffer x ! (unat (seq + 1) mod 32) = 0"
  obtains b dq where "inorder_hook_ingress E p s = Inr (HOOK_CONTINUE, s\<lparr>bufs := (bufs s)(p \<mapsto> b),
      conns := (conns s)(c \<mapsto> x\<lparr>input_queue := dq, last_recv_sequence := seq\<rparr>)\<rparr>)"
    "at_buf (s\<lparr>bufs := (bufs s)(p \<mapsto> b)\<rparr>) p N (f(''computed_total_len'' := of_nat n)) tail"
    "dq_inv dq" "dq_list dq = dq_list (input_queue x) @ payload_entry p (n - 38)"
proof -
  obtain b dq where b: "hold_deliver E c p s = Inr (s\<lparr>bufs := (bufs s)(p \<mapsto> b), conns := (conns s)(c \<mapsto> x\<lparr>input_queue := dq\<rparr>)\<rparr>)"
    "at_buf (s\<lparr>bufs := (bufs s)(p \<mapsto> b)\<rparr>) p N (f(''computed_total_len'' := of_nat n)) tail"
    "dq_inv dq" "dq_list dq = dq_list (input_queue x) @ payload_entry p (n - 38)"
    using E p n c dq by (rule hold_deliver_view)
  let ?x = "x\<lparr>input_queue := dq, last_recv_sequence := seq\<rparr>"
  let ?s = "s\<lparr>bufs := (bufs s)(p \<mapsto> b), conns := (conns s)(c \<mapsto> ?x)\<rparr>"
  have "drain_step E c (seq + 1) ?s = Inr None"
    using c(1) slot by (simp add: drain_step_def Let_def INORDER_BUFFER_SIZE_def)
  then have "inorder_drain E c (seq + 1) ?s = Some (Inr ?s)"
    using c(1) by (subst inorder_drain.simps) simp
  with E p f c b(1) turn have "inorder_hook_ingress E p s = Inr (HOOK_CONTINUE, ?s)"
    by (auto simp: inorder_hook_ingress_def pkt_get_field Let_def)
  with b(2-4) that show ?thesis by blast
qed

text \<open>A connection that waits for the signal gets it with any packet.\<close>

definition signal_of :: "nb__connection_t \<Rightarrow> int" where
  "signal_of x = (if signaling_state x = WAITING_FOR_SIGNAL then SIGNALED else signaling_state x)"

lemma signaling_ingress_view:
  assumes E: "simple_env E" and p: "at_buf s p N f tail" and f: "f ''flow_identifier'' = c" and c: "c \<noteq> 0" "conns s c = Some x"
  shows "signaling_hook_ingress E p s = Inr (HOOK_CONTINUE, s\<lparr>conns := (conns s)(c \<mapsto> x\<lparr>signaling_state := signal_of x\<rparr>)\<rparr>)"
proof -
  have "(conns s)(c \<mapsto> x) = conns s" using c(2) by auto
  with E p f c show ?thesis by (simp add: signaling_hook_ingress_def pkt_get_field signal_of_def)
qed

end
