(* ===== verification/Simple_Delivery.thy ===== *)
theory Simple_Delivery
  imports Simple_Paths Ipc_Transport
begin

unbundle bit_operations_syntax

text \<open>
  From one node to another: a payload that is given to \<open>nb__send\<close> on the simple stack is what
  \<open>nb__read\<close> returns at the receiver, and the acknowledgement that the receiver sends stops
  the redelivery at the sender. The nodes are connected by the socket transport.
\<close>

section \<open>A packet arrives\<close>

text \<open>The buffer holds a packet with a right checksum, a payload, a sequence number and addresses.\<close>

definition arrived :: "u8 list \<Rightarrow> u8 list \<Rightarrow> u32 \<Rightarrow> u64 \<Rightarrow> u32 \<Rightarrow> u64 \<Rightarrow> u32 \<Rightarrow> bool" where
  "arrived b payload seq dst_host dst_app src_host src_app \<longleftrightarrow>
     (\<exists>f tail. pkt_is b f tail \<and> length payload + length payload mod 2 \<le> length tail \<and> take (length payload) tail = payload \<and>
        good_sum (38 + length payload) b \<and> f ''total_len'' = of_nat (38 + length payload) \<and> f ''sequence_number'' = ucast seq \<and>
        f ''ack_sequence_number'' = 0 \<and> f ''dst_host_id'' = dst_host \<and> f ''dst_app_id'' = ucast dst_app \<and>
        f ''src_host_id'' = src_host \<and> f ''src_app_id'' = ucast src_app)"

lemma wire_same:
  assumes "take n (drop 24 b2) = take n (drop 24 b1)" "24 + n \<le> length b1" "24 + n \<le> length b2" "24 \<le> i" "i < 24 + n"
  shows "b2 ! i = b1 ! i"
proof -
  have "take n (drop 24 b2) ! (i - 24) = take n (drop 24 b1) ! (i - 24)" using assms(1) by simp
  then show ?thesis using assms(2-5) by simp
qed

text \<open>The members on the wire of a packet that was transferred are those of the packet that was sent.\<close>

lemma transferred:
  assumes p: "pkt_is b1 f1 tail1" "good_sum n b1" and n: "38 \<le> n" "24 + n \<le> length b1" "24 + n < length b2"
    and same: "take n (drop 24 b2) = take n (drop 24 b1)"
  obtains f2 where "pkt_is b2 f2 (drop 62 b2)" "good_sum n b2" "take (n - 38) (drop 62 b2) = take (n - 38) tail1"
    "\<And>m. m \<in> set wire_names \<Longrightarrow> f2 m = f1 m"
proof -
  have len: "63 \<le> length b1" "63 \<le> length b2" "drop 62 b1 = tail1" using p n by (auto simp: pkt_is_def)
  have eq: "b2 ! i = b1 ! i" if "24 \<le> i" "i < 24 + n" for i
    using wire_same [OF same n(2) _ that] n(3) by simp
  obtain f2 where f2: "pkt_is b2 f2 (drop 62 b2)" using len(2) by (rule pkt_is_any)
  have "f2 m = f1 m" if m: "m \<in> set wire_names" for m
  proof -
    have "get_integer simple_layout m b2 = get_integer simple_layout m b1"
      using m len(1,2) by (rule wire_field) (use eq n(1) in simp)
    moreover have "m \<in> set header_names" using m by (auto simp: wire_names_def dest: in_set_dropD)
    ultimately show ?thesis using p(1) f2 by (simp add: pkt_is_def)
  qed
  moreover have "good_sum n b2" using p(2) n(1) eq by (rule good_sum_wire)
  moreover have "take (n - 38) (drop 62 b2) = take (n - 38) tail1"
    unfolding len(3) [symmetric] using eq n by (intro nth_equalityI) auto
  ultimately show ?thesis using that f2 by blast
qed

lemma in_wire [simp]:
  "''dst_host_id'' \<in> set wire_names" "''src_host_id'' \<in> set wire_names" "''dst_app_id'' \<in> set wire_names" "''src_app_id'' \<in> set wire_names"
  "''total_len'' \<in> set wire_names" "''sequence_number'' \<in> set wire_names" "''ack_sequence_number'' \<in> set wire_names"
  by (simp_all add: wire_names_def header_names_eq)

lemma data_packet_arrives:
  assumes "data_packet x s payload t b" "length b = 1024" "length payload \<le> 961" "length b2 = 1048"
    and same: "take (38 + length payload) (drop 24 b2) = take (38 + length payload) (drop 24 b)"
  shows "arrived b2 payload (last_sent_sequence x + 1) (remote_host_id x) (remote_app_id x) (nb__my_local_host_id s) (local_app_id x)"
proof -
  obtain f tail where d: "pkt_is b f tail" "take (length payload) tail = payload" "good_sum (38 + length payload) b"
    "f ''total_len'' = of_nat (38 + length payload)" "f ''sequence_number'' = ucast (last_sent_sequence x + 1)" "f ''ack_sequence_number'' = 0"
    "f ''dst_host_id'' = remote_host_id x" "f ''dst_app_id'' = ucast (remote_app_id x)" "f ''src_host_id'' = nb__my_local_host_id s"
    "f ''src_app_id'' = ucast (local_app_id x)" using assms(1) unfolding data_packet_def by blast
  obtain f2 where f2: "pkt_is b2 f2 (drop 62 b2)" "good_sum (38 + length payload) b2"
    "take (38 + length payload - 38) (drop 62 b2) = take (38 + length payload - 38) tail" "\<And>m. m \<in> set wire_names \<Longrightarrow> f2 m = f m"
    using d(1,3) _ _ _ same by (rule transferred) (use assms in simp_all)
  have "length payload + length payload mod 2 \<le> length (drop 62 b2)" using assms(3,4) mod_less_divisor [of 2 "length payload"] by simp
  then show ?thesis
    unfolding arrived_def using f2 d by (intro exI [of _ f2] exI [of _ "drop 62 b2"]) (simp del: of_nat_add)
qed

lemma rev_simple_modules: "rev simple_modules = [Network_Module, Checksum_Module, Routing_Module, Signaling_Module_After, Identifier_Module,
   Reliable_Module, Inorder_Module, Signaling_Module, Payload_Module]"
  by (simp add: simple_modules_def)

text \<open>The network module changes the bytes of the headroom only.\<close>

lemma scratch_set:
  assumes E: "simple_env E" and p: "bufs s p = Some b" "pkt_is b f tail"
    and h: "network_hook_ingress E p s = Inr (st, s\<lparr>bufs := (bufs s)(p \<mapsto> b1)\<rparr>)" and i: "24 \<le> i" "i < length b"
  shows "b1 ! i = b ! i"
proof -
  have len: "63 \<le> length b" using p(2) by (simp add: pkt_is_def)
  obtain v b' where v: "set_integer simple_layout ''computed_total_len'' v b = Inr b'"
    "s\<lparr>bufs := (bufs s)(p \<mapsto> b1)\<rparr> = s\<lparr>bufs := (bufs s)(p \<mapsto> b')\<rparr>"
    using E h p(1) by (auto simp: network_hook_ingress_def bindE_eq_Inr pkt_set_eq_Inr)
  have "b' = b1" using arg_cong [OF v(2), of "\<lambda>s. bufs s p"] by simp
  with v(1) int_member_put [OF simple_int_members(1), of b v] len i show ?thesis by auto
qed

text \<open>
  The connection on which a packet is to be delivered next: its packets in front of it have been
  delivered, and none behind it waits.
\<close>

definition awaits :: "nb__connection_t \<Rightarrow> u32 \<Rightarrow> bool" where
  "awaits x seq \<longleftrightarrow> (last_recv_sequence x = 0 \<or> seq = last_recv_sequence x + 1) \<and> length (inorder_buffer x) = 32 \<and>
     inorder_buffer x ! (unat (seq + 1) mod 32) = 0 \<and> dq_inv (input_queue x) \<and> dq_current_elems (input_queue x) < MAX_DATA_QUEUE_ELEMS"

text \<open>The modules up to the routing module let a packet with a right checksum pass.\<close>

lemma ingress_checked_view:
  assumes E: "simple_env E" and p: "p \<noteq> 0" "bufs s p = Some b" and b: "pkt_is b f tail" "good_sum n b"
    and n: "f ''total_len'' = of_nat n" "38 \<le> n" "n + n mod 2 \<le> 38 + length tail" "24 + n < 2 ^ 31"
  obtains b' ck tail' where "nb__run_ingress_step E p len s =
      run_hooks (hook_ingress E p) [Identifier_Module, Reliable_Module, Inorder_Module, Signaling_Module, Payload_Module]
        (s\<lparr>bufs := (bufs s)(p \<mapsto> b')\<rparr>)"
    "length b' = length b" "pkt_is b' (f(''computed_total_len'' := of_nat n, ''checksum'' := ck)) tail'"
    "take (n - 38) tail' = take (n - 38) tail" "length tail' = length tail" "good_sum n b'"
proof -
  have at0: "at_buf s p (length b) f tail" using p b(1) by (simp add: at_buf_def)
  have n31: "n < 2 ^ 31" using n(4) by simp
  obtain b1 where b1: "network_hook_ingress E p s = Inr (HOOK_CONTINUE, s\<lparr>bufs := (bufs s)(p \<mapsto> b1)\<rparr>)"
    "at_buf (s\<lparr>bufs := (bufs s)(p \<mapsto> b1)\<rparr>) p (length b) (f(''computed_total_len'' := of_nat n)) tail"
    using E at0 n(1) n31 by (rule total_len_ingress_view)
  let ?s1 = "s\<lparr>bufs := (bufs s)(p \<mapsto> b1)\<rparr>" and ?f1 = "f(''computed_total_len'' := of_nat n)"
  have pk1: "bufs ?s1 p = Some b1" "length b1 = length b" "pkt_is b1 ?f1 tail" using b1(2) by (auto simp: at_buf_def)
  have hw: "holds_wire n ?f1 tail" using n by (simp add: holds_wire_def)
  have "good_sum n b1"
    using b(2) n(2) by (rule good_sum_wire) (use scratch_set [OF E p(2) b(1) b1(1)] n(2,3) b(1) in \<open>auto simp: pkt_is_def\<close>)
  then obtain b2 ck tail' where b2: "checksum_hook_ingress E p ?s1 = Inr (HOOK_CONTINUE, s\<lparr>bufs := (bufs s)(p \<mapsto> b2)\<rparr>)" "length b2 = length b1"
    "pkt_is b2 (?f1(''checksum'' := ck)) tail'" "take (n - 38) tail' = take (n - 38) tail" "good_sum n b2"
    using checksum_ingress_view [OF _ _ p(1) pk1(1,3) hw, of E] E by auto
  show ?thesis
  proof (rule that [of b2])
    show "nb__run_ingress_step E p len s =
      run_hooks (hook_ingress E p) [Identifier_Module, Reliable_Module, Inorder_Module, Signaling_Module, Payload_Module] (s\<lparr>bufs := (bufs s)(p \<mapsto> b2)\<rparr>)"
      using E b1(1) b2(1)
      by (simp add: nb__run_ingress_step_def run_ingress_path_def rev_simple_modules default_hook_def routing_hook_ingress_def
          del: hook_ingress.simps(5) run_hooks.simps) (simp add: default_hook_def routing_hook_ingress_def)
    show "length tail' = length tail" using b2(2,3) pk1(2) b(1) by (auto simp: pkt_is_def)
  qed (use b2 pk1(2) in simp_all)
qed

text \<open>The identifier module lets the packet of a known connection pass.\<close>

lemma ingress_front_view:
  assumes E: "simple_env E" and p: "p \<noteq> 0" "bufs s p = Some b" and b: "pkt_is b f tail" "good_sum n b"
    and n: "f ''total_len'' = of_nat n" "38 \<le> n" "n + n mod 2 \<le> 38 + length tail" "24 + n < 2 ^ 31"
    and ids: "f ''dst_host_id'' = nb__my_local_host_id s" "f ''dst_app_id'' = ucast (a :: u32)" "f ''src_app_id'' = ucast (sa :: u32)"
    and c: "retrieve_connection E a sa (f ''src_host_id'') s = Inr c" "c \<noteq> 0"
  obtains b' ck tail' where "nb__run_ingress_step E p len s =
      run_hooks (hook_ingress E p) [Reliable_Module, Inorder_Module, Signaling_Module, Payload_Module] (s\<lparr>bufs := (bufs s)(p \<mapsto> b')\<rparr>)"
    "at_buf (s\<lparr>bufs := (bufs s)(p \<mapsto> b')\<rparr>) p (length b)
       (f(''computed_total_len'' := of_nat n, ''checksum'' := ck, ''flow_identifier'' := c)) tail'"
    "take (n - 38) tail' = take (n - 38) tail" "length tail' = length tail"
proof -
  obtain b2 ck tail' where b2: "nb__run_ingress_step E p len s =
      run_hooks (hook_ingress E p) [Identifier_Module, Reliable_Module, Inorder_Module, Signaling_Module, Payload_Module]
        (s\<lparr>bufs := (bufs s)(p \<mapsto> b2)\<rparr>)"
    "length b2 = length b" "pkt_is b2 (f(''computed_total_len'' := of_nat n, ''checksum'' := ck)) tail'"
    "take (n - 38) tail' = take (n - 38) tail" "length tail' = length tail" "good_sum n b2"
    using E p b n by (rule ingress_checked_view)
  let ?s2 = "s\<lparr>bufs := (bufs s)(p \<mapsto> b2)\<rparr>" and ?f2 = "f(''computed_total_len'' := of_nat n, ''checksum'' := ck)"
  have at2: "at_buf ?s2 p (length b) ?f2 tail'" using b2(2,3) p(1) by (simp add: at_buf_def)
  have ids2: "?f2 ''dst_host_id'' = nb__my_local_host_id ?s2" "?f2 ''dst_app_id'' = ucast a" "?f2 ''src_app_id'' = ucast sa"
    "retrieve_connection E a sa (?f2 ''src_host_id'') ?s2 = Inr c"
    using ids c(1) by (simp_all add: retrieve_connection_cong [of ?s2 s])
  obtain b3 where b3: "identifier_hook_ingress E p ?s2 = Inr (HOOK_CONTINUE, ?s2\<lparr>bufs := (bufs ?s2)(p \<mapsto> b3)\<rparr>)"
    "at_buf (?s2\<lparr>bufs := (bufs ?s2)(p \<mapsto> b3)\<rparr>) p (length b) (?f2(''flow_identifier'' := c)) tail'"
    using E at2 ids2 c(2) by (rule identifier_ingress_view)
  have "nb__run_ingress_step E p len s =
      run_hooks (hook_ingress E p) [Reliable_Module, Inorder_Module, Signaling_Module, Payload_Module] (s\<lparr>bufs := (bufs s)(p \<mapsto> b3)\<rparr>)"
    unfolding b2(1) run_hooks.simps(2) [of _ Identifier_Module] using b3(1) by simp
  then show ?thesis by (rule that [where ck = ck and tail' = tail']) (use b3(2) b2(4,5) in simp_all)
qed

text \<open>The modules behind the reliable module deliver a packet that is awaited.\<close>

lemma ingress_back_view:
  assumes E: "simple_env E" and p: "at_buf s p N f tail" and n: "f ''total_len'' = of_nat n" "38 \<le> n" "n < 2 ^ 31"
    and f: "f ''flow_identifier'' = c" "f ''sequence_number'' = ucast (seq :: u32)"
    and c: "c \<noteq> 0" "conns s c = Some x" "awaits x seq"
  obtains b dq where "run_hooks (hook_ingress E p) [Inorder_Module, Signaling_Module, Payload_Module] s =
      Inr (s\<lparr>bufs := (bufs s)(p \<mapsto> b), conns := (conns s)(c \<mapsto> x\<lparr>input_queue := dq, last_recv_sequence := seq, signaling_state := signal_of x\<rparr>)\<rparr>)"
    "drop 62 b = tail" "dq_inv dq" "dq_list dq = dq_list (input_queue x) @ payload_entry p (n - 38)"
proof -
  have x: "dq_inv (input_queue x)" "dq_current_elems (input_queue x) < MAX_DATA_QUEUE_ELEMS"
    "last_recv_sequence x = 0 \<or> seq = last_recv_sequence x + 1" "length (inorder_buffer x) = 32" "inorder_buffer x ! (unat (seq + 1) mod 32) = 0"
    using c(3) by (simp_all add: awaits_def)
  obtain b1 dq where b1: "inorder_hook_ingress E p s = Inr (HOOK_CONTINUE, s\<lparr>bufs := (bufs s)(p \<mapsto> b1),
      conns := (conns s)(c \<mapsto> x\<lparr>input_queue := dq, last_recv_sequence := seq\<rparr>)\<rparr>)"
    "at_buf (s\<lparr>bufs := (bufs s)(p \<mapsto> b1)\<rparr>) p N (f(''computed_total_len'' := of_nat n)) tail"
    "dq_inv dq" "dq_list dq = dq_list (input_queue x) @ payload_entry p (n - 38)"
    using E p n f c(1,2) x by (rule inorder_ingress_next)
  let ?x1 = "x\<lparr>input_queue := dq, last_recv_sequence := seq\<rparr>" and ?f1 = "f(''computed_total_len'' := of_nat n)"
  let ?s1 = "s\<lparr>bufs := (bufs s)(p \<mapsto> b1), conns := (conns s)(c \<mapsto> ?x1)\<rparr>"
  have at1: "at_buf ?s1 p N ?f1 tail" using b1(2) by (simp add: at_buf_def)
  have f1: "?f1 ''flow_identifier'' = c" "?f1 ''total_len'' = of_nat n" "conns ?s1 c = Some ?x1" using f(1) n(1) by simp_all
  have "signal_of ?x1 = signal_of x" by (simp add: signal_of_def)
  with signaling_ingress_view [OF E at1 f1(1) c(1) f1(3)]
  have g: "signaling_hook_ingress E p ?s1 = Inr (HOOK_CONTINUE, ?s1\<lparr>conns := (conns ?s1)(c \<mapsto> ?x1\<lparr>signaling_state := signal_of x\<rparr>)\<rparr>)"
    by simp
  let ?s2 = "?s1\<lparr>conns := (conns ?s1)(c \<mapsto> ?x1\<lparr>signaling_state := signal_of x\<rparr>)\<rparr>"
  have at2: "at_buf ?s2 p N ?f1 tail" using at1 by (simp add: at_buf_def)
  obtain b where b: "payload_hook_ingress E p ?s2 = Inr (HOOK_CONTINUE, ?s2\<lparr>bufs := (bufs ?s2)(p \<mapsto> b)\<rparr>)"
    "at_buf (?s2\<lparr>bufs := (bufs ?s2)(p \<mapsto> b)\<rparr>) p N (?f1(''computed_total_len'' := of_nat n)) tail"
    using E at2 f1(2) n(3) by (rule total_len_ingress_view)
  have "drop 62 b = tail" using b(2) by (auto simp: at_buf_def pkt_is_def)
  with b1 g b(1) show ?thesis by (intro that [where b = b and dq = dq]) simp_all
qed

text \<open>A data packet on the connection that awaits it is acknowledged, and its payload goes to the input queue.\<close>

lemma simple_ingress_view:
  fixes s :: "('t, 'a) nb_state"
  assumes E: "simple_env E" and p: "p \<noteq> 0" "bufs s p = Some b" "arrived b payload seq (nb__my_local_host_id s) a h sa" "length payload < 2 ^ 30"
    and c: "retrieve_connection E a sa h s = Inr c" "c \<noteq> 0" "conns s c = Some x" "good_ids x s" "awaits x seq"
    and req: "\<And>s'. mallocs s' = mallocs s \<Longrightarrow> request_send_buffer E s' = Inr (q, s'\<lparr>mallocs := k, bufs := (bufs s')(q \<mapsto> b0)\<rparr>)"
      "q \<noteq> 0" "q \<noteq> p" "length b0 = 1024"
    and tx: "\<And>m s'. transport_state s' = transport_state s \<Longrightarrow> send_packet E m s' = Inr (r m, s'\<lparr>transport_state := tr m\<rparr>)"
  obtains bp bq dq where "nb__run_ingress_step E p len s = Inr (s\<lparr>mallocs := k, bufs := (bufs s)(q \<mapsto> bq, p \<mapsto> bp),
      conns := (conns s)(c \<mapsto> x\<lparr>input_queue := dq, last_recv_sequence := seq, signaling_state := signal_of x\<rparr>),
      transport_state := tr (take 39 (drop 24 bq))\<rparr>)"
    "length bq = 1024" "ack_packet x s seq bq"
    "take (length payload) (drop 62 bp) = payload" "length payload \<le> length (drop 62 bp)"
    "dq_inv dq" "dq_list dq = dq_list (input_queue x) @ payload_entry p (length payload)"
proof -
  let ?n = "38 + length payload"
  obtain f tail where d: "pkt_is b f tail" "length payload + length payload mod 2 \<le> length tail" "take (length payload) tail = payload"
    "good_sum ?n b" "f ''total_len'' = of_nat ?n" "f ''sequence_number'' = ucast seq" "f ''ack_sequence_number'' = 0"
    "f ''dst_host_id'' = nb__my_local_host_id s" "f ''dst_app_id'' = ucast a" "f ''src_host_id'' = h" "f ''src_app_id'' = ucast sa"
    using p(3) unfolding arrived_def by blast
  have "?n mod 2 = length payload mod 2" by presburger
  then have n: "38 \<le> ?n" "?n + ?n mod 2 \<le> 38 + length tail" "24 + ?n < 2 ^ 31" "?n < 2 ^ 31" using p(4) d(2) by simp_all
  have c': "retrieve_connection E a sa (f ''src_host_id'') s = Inr c" using c(1) d(10) by simp
  obtain b3 ck tail' where b3: "nb__run_ingress_step E p len s =
      run_hooks (hook_ingress E p) [Reliable_Module, Inorder_Module, Signaling_Module, Payload_Module] (s\<lparr>bufs := (bufs s)(p \<mapsto> b3)\<rparr>)"
    "at_buf (s\<lparr>bufs := (bufs s)(p \<mapsto> b3)\<rparr>) p (length b)
       (f(''computed_total_len'' := of_nat ?n, ''checksum'' := ck, ''flow_identifier'' := c)) tail'"
    "take (?n - 38) tail' = take (?n - 38) tail" "length tail' = length tail"
    using E p(1,2) d(1,4,5) n(1-3) d(8,9,11) c' c(2) by (rule ingress_front_view)
  let ?s3 = "s\<lparr>bufs := (bufs s)(p \<mapsto> b3)\<rparr>" and ?f3 = "f(''computed_total_len'' := of_nat ?n, ''checksum'' := ck, ''flow_identifier'' := c)"
  have at3: "at_buf ?s3 p (length b) ?f3 tail'" using b3(2) .
  have f3: "?f3 ''ack_sequence_number'' = 0" "?f3 ''flow_identifier'' = c" "?f3 ''sequence_number'' = ucast seq" "?f3 ''total_len'' = of_nat ?n"
    using d by simp_all
  have c3: "conns ?s3 c = Some x" "good_ids x ?s3" using c by (simp_all add: good_ids_def)
  have req3: "request_send_buffer E ?s3 = Inr (q, ?s3\<lparr>mallocs := k, bufs := (bufs ?s3)(q \<mapsto> b0)\<rparr>)" by (rule req(1)) simp
  have tx3: "send_packet E m s' = Inr (r m, s'\<lparr>transport_state := tr m\<rparr>)" if "transport_state s' = transport_state ?s3" for m s'
    using tx that by simp
  obtain bq where bq: "reliable_hook_ingress E (send_after E Reliable_Module) p ?s3 =
      Inr (HOOK_CONTINUE, ?s3\<lparr>mallocs := k, bufs := (bufs ?s3)(q \<mapsto> bq), transport_state := tr (take 39 (drop 24 bq))\<rparr>)"
    "length bq = 1024" "ack_packet x ?s3 seq bq"
    using E at3 f3(1-3) c(2) c3 req3 req(2,4) tx3 by (rule reliable_ingress_data)
  let ?s4 = "?s3\<lparr>mallocs := k, bufs := (bufs ?s3)(q \<mapsto> bq), transport_state := tr (take 39 (drop 24 bq))\<rparr>"
  have at4: "at_buf ?s4 p (length b) ?f3 tail'" using at3 req(3) by (simp add: at_buf_def)
  have n': "?f3 ''total_len'' = of_nat ?n" using d(5) by simp
  have c4: "conns ?s4 c = Some x" using c(3) by simp
  obtain b7 dq where b7: "run_hooks (hook_ingress E p) [Inorder_Module, Signaling_Module, Payload_Module] ?s4 =
      Inr (?s4\<lparr>bufs := (bufs ?s4)(p \<mapsto> b7), conns := (conns ?s4)(c \<mapsto> x\<lparr>input_queue := dq, last_recv_sequence := seq, signaling_state := signal_of x\<rparr>)\<rparr>)"
    "drop 62 b7 = tail'" "dq_inv dq" "dq_list dq = dq_list (input_queue x) @ payload_entry p (?n - 38)"
    using E at4 n' n(1,4) f3(2,3) c(2) c4 c(5) by (rule ingress_back_view)
  let ?s7 = "?s4\<lparr>bufs := (bufs ?s4)(p \<mapsto> b7), conns := (conns ?s4)(c \<mapsto> x\<lparr>input_queue := dq, last_recv_sequence := seq, signaling_state := signal_of x\<rparr>)\<rparr>"
  have "bufs ?s7 = (bufs s)(q \<mapsto> bq, p \<mapsto> b7)" using req(3) by (auto simp: fun_eq_iff)
  then have s7: "?s7 = s\<lparr>mallocs := k, bufs := (bufs s)(q \<mapsto> bq, p \<mapsto> b7),
      conns := (conns s)(c \<mapsto> x\<lparr>input_queue := dq, last_recv_sequence := seq, signaling_state := signal_of x\<rparr>),
      transport_state := tr (take 39 (drop 24 bq))\<rparr>" by simp
  have run: "nb__run_ingress_step E p len s = Inr ?s7" unfolding b3(1) run_hooks.simps(2) [of _ Reliable_Module] using bq(1) b7(1) by simp
  show ?thesis
  proof (rule that [OF run [unfolded s7]])
    show "ack_packet x s seq bq" using bq(3) by (simp add: ack_packet_def)
  qed (use b7(2-4) b3(3,4) d(2,3) bq(2) in simp_all)
qed

section \<open>The socket transport\<close>

text \<open>The first part of the step of the main loop: one packet is polled and goes through the ingress path.\<close>

definition take_packet :: "('t, 'a) nb_env \<Rightarrow> ('t, 'a) nb_state \<Rightarrow> ('t, 'a) nb_state res" where
  "take_packet E s =
     bindE (get_headroom (net_packet E)) (\<lambda>nb__packet_headroom.
     bindE (poll_packet E nb__packet_headroom s) (\<lambda>((p, len), s).
     if p \<noteq> 0 then nb__run_ingress_step E p len s else Inr s))"

lemma main_loop_step_take:
  "nb__main_loop_step E s = bindE (take_packet E (s\<lparr>nb__time_now := clock_ms E s\<rparr>)) (\<lambda>s.
     bindE (nb__cycle_connections E s) (\<lambda>s. nb__check_timers E s))"
  by (simp add: nb__main_loop_step_def take_packet_def Let_def bindE_def split: sum.splits prod.splits)

text \<open>A socket that takes every message, with the simulation of losses and exchanges turned off.\<close>

definition quiet :: "ipc_state \<Rightarrow> bool" where
  "quiet t \<longleftrightarrow> \<not> nb__ipc_simulate_packet_drop t \<and> \<not> nb__ipc_simulate_out_of_order t \<and> out_of_order_len t = 0 \<and>
     (\<forall>k. sock_ready t k) \<and> length (temp_buf t) = IPC_MTU"

definition sent :: "u8 list \<Rightarrow> ipc_state \<Rightarrow> ipc_state" where
  "sent m t = t\<lparr>sock_writes := sock_writes t + 1, sock_out := sock_out t @ [m]\<rparr>"

lemma quiet_updates [simp]: "quiet (t\<lparr>sock_in := ms\<rparr>) = quiet t" "quiet (sent m t) = quiet t"
  unfolding quiet_def sent_def by simp_all

lemma sock_sent [simp]: "sock_in (sent m t) = sock_in t" "sock_out (sent m t) = sock_out t @ [m]"
  by (simp_all add: sent_def)

lemma simple_ipc_env [simp]: "simple_env (ipc_env E) = simple_env E"
  unfolding simple_env_def ipc_env_def by simp

lemma ipc_tx:
  "quiet (transport_state s) \<Longrightarrow> transport_state s' = transport_state s \<Longrightarrow>
   send_packet (ipc_env E) m s' = Inr (int (length m), s'\<lparr>transport_state := sent m (transport_state s)\<rparr>)"
  by (simp add: ipc_env_def ipc_send_packet_def ipc_defs quiet_def sent_def)

lemma ipc_request:
  "malloc_addr E k \<noteq> 0 \<Longrightarrow> mallocs s = k \<Longrightarrow> request_send_buffer (ipc_env E) s =
     Inr (malloc_addr E k, s\<lparr>mallocs := k + 1, bufs := (bufs s)(malloc_addr E k \<mapsto> map (malloc_byte E k) [0..<1024])\<rparr>)"
  by (simp add: ipc_env_def nb__request_send_buffer_def malloc_buf_def Let_def IPC_MTU_def)

lemma ipc_poll:
  assumes q: "quiet (transport_state s)" "sock_in (transport_state s) = m # ms" and m: "m \<noteq> []" "length m \<le> 1024"
    and p: "malloc_addr E (mallocs s) = p" "p \<noteq> 0"
  obtains b tb where "poll_packet (ipc_env E) 24 s = Inr ((p, int (length m)), s\<lparr>mallocs := mallocs s + 1,
      transport_state := (transport_state s)\<lparr>sock_in := ms, temp_buf := tb\<rparr>, bufs := (bufs s)(p \<mapsto> b)\<rparr>)"
    "length b = 1048" "take (length m) (drop 24 b) = m" "length tb = IPC_MTU"
proof -
  let ?t = "transport_state s"
  define tb where "tb = m @ drop (length m) (temp_buf ?t)"
  let ?j = "map (malloc_byte E (mallocs s)) [0..<1048]"
  have ltb: "length (temp_buf ?t) = 1024" using q(1) by (simp add: quiet_def IPC_MTU_def)
  have tb: "mem_copy 0 m (length m) (temp_buf ?t) = Inr tb" "length tb = 1024"
    using ltb m(2) by (auto simp: mem_copy_def tb_def)
  have "mem_copy 24 tb 1024 ?j = Inr (take 24 ?j @ tb)" using tb(2) by (simp add: mem_copy_def)
  then have "poll_packet (ipc_env E) 24 s = Inr ((p, int (length m)), s\<lparr>mallocs := mallocs s + 1,
      transport_state := ?t\<lparr>sock_in := ms, temp_buf := tb\<rparr>, bufs := (bufs s)(p \<mapsto> take 24 ?j @ tb)\<rparr>)"
    using q(2) m tb(1) p by (simp add: ipc_env_def nb__poll_packet_def malloc_buf_def Let_def IPC_MTU_def buf_updE_def min_absorb1)
  then show ?thesis
    by (rule that) (use tb(2) in \<open>simp_all add: tb_def IPC_MTU_def\<close>)
qed

lemma take_packet_view:
  "simple_env E \<Longrightarrow> poll_packet E 24 s = Inr ((p, len), s') \<Longrightarrow> p \<noteq> 0 \<Longrightarrow> take_packet E s = nb__run_ingress_step E p len s'"
  by (simp add: take_packet_def simple_headroom)

end
