(* ===== verification/End_To_End.thy ===== *)
theory End_To_End
  imports Simple_Delivery
begin

text \<open>
  Two nodes with the simple stack over the socket transport: what one gives to \<open>nb__send\<close>, the
  other gets from \<open>nb__read\<close>, and the acknowledgement ends the redelivery at the sender.
\<close>

section \<open>Two nodes\<close>

text \<open>A connection \<open>x\<close> at \<open>c\<close> on which a node can send.\<close>

definition can_send :: "(ipc_state, 'a) nb_env \<Rightarrow> u64 \<Rightarrow> nb__connection_t \<Rightarrow> (ipc_state, 'a) nb_state \<Rightarrow> bool" where
  "can_send E c x s \<longleftrightarrow> simple_env E \<and> c \<noteq> 0 \<and> conns s c = Some x \<and> good_ids x s \<and> length (redelivery_buffer x) = 32 \<and>
     quiet (transport_state s) \<and> malloc_addr E (mallocs s) \<noteq> 0"

text \<open>
  A connection \<open>y\<close> at \<open>d\<close> that awaits the packet \<open>seq\<close> of the application
  \<open>sa\<close> on host \<open>h\<close> to the application \<open>a\<close> of this node. The packet and its
  acknowledgement get memory.
\<close>

definition can_receive :: "(ipc_state, 'a) nb_env \<Rightarrow> u64 \<Rightarrow> nb__connection_t \<Rightarrow> u32 \<Rightarrow> u32 \<Rightarrow> u64 \<Rightarrow> u32 \<Rightarrow>
    (ipc_state, 'a) nb_state \<Rightarrow> bool" where
  "can_receive F d y a sa h seq u \<longleftrightarrow> simple_env F \<and> d \<noteq> 0 \<and> conns u d = Some y \<and> good_ids y u \<and> awaits y seq \<and>
     retrieve_connection F a sa h u = Inr d \<and> quiet (transport_state u) \<and> malloc_addr F (mallocs u) \<noteq> 0 \<and>
     malloc_addr F (mallocs u + 1) \<noteq> 0 \<and> malloc_addr F (mallocs u + 1) \<noteq> malloc_addr F (mallocs u)"

text \<open>The two ends of a connection name each other.\<close>

definition peers :: "nb__connection_t \<Rightarrow> ('t, 'a) nb_state \<Rightarrow> nb__connection_t \<Rightarrow> ('t, 'b) nb_state \<Rightarrow> bool" where
  "peers x s y u \<longleftrightarrow> nb__my_local_host_id u = remote_host_id x \<and> nb__my_local_host_id s = remote_host_id y \<and>
     remote_app_id y = local_app_id x \<and> local_app_id y = remote_app_id x"

text \<open>A message arrives at the socket of a node.\<close>

definition arrives :: "u8 list \<Rightarrow> (ipc_state, 'a) nb_state \<Rightarrow> (ipc_state, 'a) nb_state" where
  "arrives m u = u\<lparr>transport_state := (transport_state u)\<lparr>sock_in := sock_in (transport_state u) @ [m]\<rparr>\<rparr>"

lemma ipc_env_simps [simp]:
  "cfg (ipc_env E) = cfg E" "malloc_addr (ipc_env E) = malloc_addr E" "malloc_byte (ipc_env E) = malloc_byte E"
  by (simp_all add: ipc_env_def)

lemma retrieve_ipc [simp]: "retrieve_connection (ipc_env E) a sa h s = retrieve_connection E a sa h s"
  by (simp add: retrieve_connection_def match_connection_def [abs_def])

lemma retrieve_updates [simp]:
  "retrieve_connection E a sa h (s\<lparr>mallocs := k\<rparr>) = retrieve_connection E a sa h s"
  "retrieve_connection E a sa h (s\<lparr>bufs := B\<rparr>) = retrieve_connection E a sa h s"
  "retrieve_connection E a sa h (s\<lparr>conns := X\<rparr>) = retrieve_connection E a sa h s"
  "retrieve_connection E a sa h (s\<lparr>timers := ts\<rparr>) = retrieve_connection E a sa h s"
  "retrieve_connection E a sa h (s\<lparr>nb__time_now := w\<rparr>) = retrieve_connection E a sa h s"
  "retrieve_connection E a sa h (s\<lparr>transport_state := tr\<rparr>) = retrieve_connection E a sa h s"
  by (rule retrieve_connection_cong; simp)+

text \<open>A message that arrives at an idle socket is taken and goes through the ingress path.\<close>

lemma take_arrived:
  assumes F: "simple_env F" and sock: "quiet (transport_state u)" "sock_in (transport_state u) = []" and m: "m \<noteq> []" "length m \<le> 1024"
    and p: "malloc_addr F (mallocs u) = p" "p \<noteq> 0"
  obtains b tb where "take_packet (ipc_env F) (arrives m u) = nb__run_ingress_step (ipc_env F) p (int (length m)) (u\<lparr>mallocs := mallocs u + 1,
      transport_state := (transport_state u)\<lparr>sock_in := [], temp_buf := tb\<rparr>, bufs := (bufs u)(p \<mapsto> b)\<rparr>)"
    "length b = 1048" "take (length m) (drop 24 b) = m" "quiet ((transport_state u)\<lparr>sock_in := [], temp_buf := tb\<rparr>)"
proof -
  let ?u = "arrives m u"
  have a: "quiet (transport_state ?u)" "sock_in (transport_state ?u) = [m]" "malloc_addr F (mallocs ?u) = p"
    using sock p by (simp_all add: arrives_def)
  obtain b tb where b: "poll_packet (ipc_env F) 24 ?u = Inr ((p, int (length m)), ?u\<lparr>mallocs := mallocs ?u + 1,
      transport_state := (transport_state ?u)\<lparr>sock_in := [], temp_buf := tb\<rparr>, bufs := (bufs ?u)(p \<mapsto> b)\<rparr>)"
    "length b = 1048" "take (length m) (drop 24 b) = m" "length tb = IPC_MTU"
    using a(1,2) m a(3) p(2) by (rule ipc_poll)
  have "quiet ((transport_state u)\<lparr>sock_in := [], temp_buf := tb\<rparr>)" using sock(1) b(4) by (simp add: quiet_def)
  moreover have "take_packet (ipc_env F) ?u = nb__run_ingress_step (ipc_env F) p (int (length m)) (u\<lparr>mallocs := mallocs u + 1,
      transport_state := (transport_state u)\<lparr>sock_in := [], temp_buf := tb\<rparr>, bufs := (bufs u)(p \<mapsto> b)\<rparr>)"
    using take_packet_view [OF _ b(1) p(2)] F by (simp add: arrives_def)
  ultimately show ?thesis using b(2,3) by (intro that)
qed

text \<open>The state of the sender after \<open>nb__send\<close>: the packet is in the buffer \<open>b\<close>.\<close>

definition after_send :: "(ipc_state, 'a) nb_env \<Rightarrow> u64 \<Rightarrow> nb__connection_t \<Rightarrow> nat \<Rightarrow> u8 list \<Rightarrow> u64 \<Rightarrow> timer_state \<Rightarrow>
    (ipc_state, 'a) nb_state \<Rightarrow> (ipc_state, 'a) nb_state" where
  "after_send E c x n b w ts s = s\<lparr>mallocs := mallocs s + 1,
      conns := (conns s)(c \<mapsto> x\<lparr>last_sent_sequence := last_sent_sequence x + 1,
        redelivery_buffer := (redelivery_buffer x)[unat (last_sent_sequence x + 1) mod 32 := malloc_addr E (mallocs s)]\<rparr>),
      nb__time_now := w, timers := ts, bufs := (bufs s)(malloc_addr E (mallocs s) \<mapsto> b),
      transport_state := sent (take n (drop 24 b)) (transport_state s)\<rparr>"

lemma send_over_ipc:
  assumes s: "can_send E c x s" and pool: "pool_inv (timers s) R H" "R \<union> H \<noteq> Collect valid_timer" and len: "length payload \<le> 961"
  obtains b t w ts where "nb__send (ipc_env E) c payload (int (length payload)) s =
      Inr (int (length payload), after_send E c x (38 + length payload) b w ts s)"
    "length b = 1024" "data_packet x s payload t b" "t \<notin> R \<union> H" "pool_inv ts (insert t R) H" "armed ts t (w + REDELIVERY_TIMEOUT_MS) (malloc_addr E (mallocs s))" "nb__time_now s \<noteq> - 1 \<longrightarrow> w = nb__time_now s"
proof -
  have E: "simple_env (ipc_env E)" "c \<noteq> 0" "conns s c = Some x" "good_ids x s" "length (redelivery_buffer x) = 32"
    "quiet (transport_state s)" "malloc_addr E (mallocs s) \<noteq> 0" using s by (simp_all add: can_send_def)
  obtain b t w ts where "nb__send (ipc_env E) c payload (int (length payload)) s = Inr (int (length payload), s\<lparr>mallocs := mallocs s + 1,
      conns := (conns s)(c \<mapsto> x\<lparr>last_sent_sequence := last_sent_sequence x + 1,
        redelivery_buffer := (redelivery_buffer x)[unat (last_sent_sequence x + 1) mod 32 := malloc_addr E (mallocs s)]\<rparr>),
      nb__time_now := w, timers := ts, bufs := (bufs s)(malloc_addr E (mallocs s) \<mapsto> b),
      transport_state := sent (take (38 + length payload) (drop 24 b)) (transport_state s)\<rparr>)"
    "length b = 1024" "data_packet x s payload t b" "t \<noteq> 0" "t \<notin> R \<union> H" "pool_inv ts (insert t R) H"
    "armed ts t (w + REDELIVERY_TIMEOUT_MS) (malloc_addr E (mallocs s))" "nb__time_now s \<noteq> - 1 \<longrightarrow> w = nb__time_now s"
    using E(1-5) pool ipc_request [OF E(7) refl] E(7) _ len ipc_tx [OF E(6)] by (rule simple_send_view) simp_all
  then show ?thesis by (intro that) (simp_all add: after_send_def)
qed

text \<open>The state of the receiver after it has taken a packet: the acknowledgement is in \<open>bq\<close>, the packet in \<open>bp\<close>.\<close>

definition after_receive :: "(ipc_state, 'a) nb_env \<Rightarrow> u64 \<Rightarrow> nb__connection_t \<Rightarrow> u32 \<Rightarrow> u8 list \<Rightarrow> u8 list \<Rightarrow> data_queue_t \<Rightarrow> u8 list \<Rightarrow>
    (ipc_state, 'a) nb_state \<Rightarrow> (ipc_state, 'a) nb_state" where
  "after_receive F d y seq bp bq dq tb u = u\<lparr>mallocs := mallocs u + 2,
      bufs := (bufs u)(malloc_addr F (mallocs u + 1) \<mapsto> bq, malloc_addr F (mallocs u) \<mapsto> bp),
      conns := (conns u)(d \<mapsto> y\<lparr>input_queue := dq, last_recv_sequence := seq, signaling_state := signal_of y\<rparr>),
      transport_state := sent (take 39 (drop 24 bq)) ((transport_state u)\<lparr>sock_in := [], temp_buf := tb\<rparr>)\<rparr>"

lemma receive_over_ipc_state:
  assumes u: "can_receive F d y (remote_app_id x) (local_app_id x) (nb__my_local_host_id s) (last_sent_sequence x + 1) u"
    and host: "nb__my_local_host_id u = remote_host_id x" and sock: "sock_in (transport_state u) = []"
    and b: "data_packet x s payload t b" "length b = 1024" "length payload \<le> 961"
  obtains bp bq dq tb where "take_packet (ipc_env F) (arrives (take (38 + length payload) (drop 24 b)) u) =
      Inr (after_receive F d y (last_sent_sequence x + 1) bp bq dq tb u)" "quiet ((transport_state u)\<lparr>sock_in := [], temp_buf := tb\<rparr>)"
    "length bq = 1024" "ack_packet y u (last_sent_sequence x + 1) bq"
    "take (length payload) (drop 62 bp) = payload" "length payload \<le> length (drop 62 bp)"
    "dq_inv dq" "dq_list dq = dq_list (input_queue y) @ payload_entry (malloc_addr F (mallocs u)) (length payload)"
proof -
  let ?n = "38 + length payload" and ?p = "malloc_addr F (mallocs u)" and ?q = "malloc_addr F (mallocs u + 1)" and ?seq = "last_sent_sequence x + 1"
  let ?m = "take ?n (drop 24 b)"
  have F: "simple_env (ipc_env F)" "d \<noteq> 0" "conns u d = Some y" "good_ids y u" "awaits y ?seq"
    "retrieve_connection F (remote_app_id x) (local_app_id x) (nb__my_local_host_id s) u = Inr d"
    "quiet (transport_state u)" "?p \<noteq> 0" "?q \<noteq> 0" "?q \<noteq> ?p" using u by (simp_all add: can_receive_def)
  have lm: "length ?m = ?n" using b(2,3) by simp
  have m: "?m \<noteq> []" "length ?m \<le> 1024" and F': "simple_env F" using lm b(2,3) F(1) by auto
  obtain b2 tb where b2: "take_packet (ipc_env F) (arrives ?m u) = nb__run_ingress_step (ipc_env F) ?p (int (length ?m)) (u\<lparr>mallocs := mallocs u + 1,
      transport_state := (transport_state u)\<lparr>sock_in := [], temp_buf := tb\<rparr>, bufs := (bufs u)(?p \<mapsto> b2)\<rparr>)"
    "length b2 = 1048" "take (length ?m) (drop 24 b2) = ?m" "quiet ((transport_state u)\<lparr>sock_in := [], temp_buf := tb\<rparr>)"
    using F' F(7) sock m refl F(8) by (rule take_arrived)
  let ?u1 = "u\<lparr>mallocs := mallocs u + 1, transport_state := (transport_state u)\<lparr>sock_in := [], temp_buf := tb\<rparr>, bufs := (bufs u)(?p \<mapsto> b2)\<rparr>"
  have "take ?n (drop 24 b2) = ?m" using b2(3) unfolding lm .
  from data_packet_arrives [OF b(1,2,3) b2(2) this] host
  have arr: "arrived b2 payload ?seq (nb__my_local_host_id ?u1) (remote_app_id x) (nb__my_local_host_id s) (local_app_id x)" by simp
  have c1: "retrieve_connection (ipc_env F) (remote_app_id x) (local_app_id x) (nb__my_local_host_id s) ?u1 = Inr d" "conns ?u1 d = Some y" "good_ids y ?u1"
    using F(3,4,6) by (simp_all add: good_ids_def)
  have q1: "quiet (transport_state ?u1)" using b2(4) by simp
  have req: "request_send_buffer (ipc_env F) v = Inr (?q, v\<lparr>mallocs := mallocs u + 2, bufs := (bufs v)(?q \<mapsto> map (malloc_byte F (mallocs u + 1)) [0..<1024])\<rparr>)"
    if "mallocs v = mallocs ?u1" for v
    using ipc_request [OF F(9), of v] that by simp
  have b2': "bufs ?u1 ?p = Some b2" "length payload < 2 ^ 30" using b(3) by simp_all
  obtain bp bq dq where r: "nb__run_ingress_step (ipc_env F) ?p (int ?n) ?u1 = Inr (?u1\<lparr>mallocs := mallocs u + 2,
      bufs := (bufs ?u1)(?q \<mapsto> bq, ?p \<mapsto> bp), conns := (conns ?u1)(d \<mapsto> y\<lparr>input_queue := dq, last_recv_sequence := ?seq, signaling_state := signal_of y\<rparr>),
      transport_state := sent (take 39 (drop 24 bq)) (transport_state ?u1)\<rparr>)" "length bq = 1024" "ack_packet y ?u1 ?seq bq"
    "take (length payload) (drop 62 bp) = payload" "length payload \<le> length (drop 62 bp)"
    "dq_inv dq" "dq_list dq = dq_list (input_queue y) @ payload_entry ?p (length payload)"
    using F(1,8) b2'(1) arr b2'(2) c1(1) F(2) c1(2,3) F(5) req F(9,10) _ ipc_tx [OF q1] by (rule simple_ingress_view) simp_all
  have "(bufs u)(?p \<mapsto> b2, ?q \<mapsto> bq, ?p \<mapsto> bp) = (bufs u)(?q \<mapsto> bq, ?p \<mapsto> bp)" using F(10) by (simp add: fun_eq_iff)
  then have "take_packet (ipc_env F) (arrives ?m u) = Inr (after_receive F d y ?seq bp bq dq tb u)"
    using b2(1) r(1) unfolding lm by (simp add: after_receive_def)
  moreover have "ack_packet y u ?seq bq" using r(3) by (simp add: ack_packet_def)
  ultimately show ?thesis using b2(4) r(2,4-7) by (intro that)
qed

lemma receive_over_ipc:
  assumes u: "can_receive F d y (remote_app_id x) (local_app_id x) (nb__my_local_host_id s) (last_sent_sequence x + 1) u"
    and host: "nb__my_local_host_id u = remote_host_id x" and sock: "sock_in (transport_state u) = []"
    and b: "data_packet x s payload t b" "length b = 1024" "length payload \<le> 961"
  obtains u' p bp bq dq g where "take_packet (ipc_env F) (arrives (take (38 + length payload) (drop 24 b)) u) = Inr u'"
    "conns u' = (conns u)(d \<mapsto> y\<lparr>input_queue := dq, last_recv_sequence := last_sent_sequence x + 1, signaling_state := g\<rparr>)"
    "sock_out (transport_state u') = sock_out (transport_state u) @ [take 39 (drop 24 bq)]" "length bq = 1024"
    "ack_packet y u (last_sent_sequence x + 1) bq" "p \<noteq> 0" "bufs u' p = Some bp"
    "take (length payload) (drop 62 bp) = payload" "length payload \<le> length (drop 62 bp)"
    "dq_inv dq" "dq_list dq = dq_list (input_queue y) @ payload_entry p (length payload)"
proof -
  obtain bp bq dq tb where r: "take_packet (ipc_env F) (arrives (take (38 + length payload) (drop 24 b)) u) =
      Inr (after_receive F d y (last_sent_sequence x + 1) bp bq dq tb u)" "quiet ((transport_state u)\<lparr>sock_in := [], temp_buf := tb\<rparr>)"
    "length bq = 1024" "ack_packet y u (last_sent_sequence x + 1) bq"
    "take (length payload) (drop 62 bp) = payload" "length payload \<le> length (drop 62 bp)"
    "dq_inv dq" "dq_list dq = dq_list (input_queue y) @ payload_entry (malloc_addr F (mallocs u)) (length payload)"
    using u host sock b by (rule receive_over_ipc_state)
  have "malloc_addr F (mallocs u) \<noteq> 0" using u by (simp add: can_receive_def)
  then show ?thesis
    by (intro that [OF r(1) _ _ r(3,4) _ _ r(5-8)]) (simp_all add: after_receive_def)
qed

section \<open>Reading\<close>

lemma read_only_payload:
  assumes c: "c \<noteq> 0" "conns s c = Some x" and q: "dq_inv (input_queue x)" "dq_list (input_queue x) = [((p, 62), int (length payload))]"
    and p: "p \<noteq> 0" "bufs s p = Some b" "take (length payload) (drop 62 b) = payload" "length payload \<le> length (drop 62 b)" "payload \<noteq> []"
    and max: "int (length payload) \<le> max_len"
  shows "\<exists>s' q'. nb__read c max_len s = Inr ((int (length payload), payload), s') \<and>
    conns s' = (conns s)(c \<mapsto> x\<lparr>input_queue := q'\<rparr>) \<and> dq_current_elems q' = 0"
proof -
  obtain q' where q': "dq_take_first (input_queue x) = Inr (((p, 62), int (length payload)), q')" "dq_current_elems q' = 0"
    using dq_take_first_ok [OF q] length_dq_list by fastforce
  have "dq_current_elems (input_queue x) \<noteq> 0" using length_dq_list [OF q(1)] q(2) by auto
  moreover have "0 < length payload" using p(5) by simp
  then have "62 + length payload \<le> length b" using p(4) unfolding length_drop by linarith
  then have "buf_slice 62 (int (length payload)) b = Inr payload" using p(3) by (simp add: buf_slice_def)
  ultimately show ?thesis
    using c q' p(1,2) max by (auto simp: nb__read_def conn_upd_def conn_updE_def Let_def intro: exI [of _ q'])
qed

section \<open>The acknowledgement\<close>

lemma handle_ack_view:
  assumes E: "simple_env E" and c: "c \<noteq> 0" "conns s c = Some x" "length (redelivery_buffer x) = 32"
    and p: "redelivery_buffer x ! (unat seq mod 32) = p" "at_buf s p N f tail" "f ''redelivery_timer'' = t"
    and pool: "pool_inv (timers s) (insert t R) H" "t \<notin> R \<union> H"
  obtains ts where "handle_ack E c seq s = Inr (s\<lparr>timers := ts, conns := (conns s)(c \<mapsto>
      x\<lparr>redelivery_buffer := (redelivery_buffer x)[unat seq mod 32 := 0]\<rparr>)\<rparr>)" "pool_inv ts R H"
proof -
  have p0: "p \<noteq> 0" using p(2) by (simp add: at_buf_def)
  obtain ts1 where ts1: "nb__remove_timer t (timers s) = Inr ts1" "pool_inv ts1 (insert t R - {t}) (insert t H)"
    using pool_inv_remove [OF pool(1), of t] by auto
  obtain ts2 where ts2: "nb__return_timer t ts1 = Inr ts2" "pool_inv ts2 (insert t R - {t}) (insert t H - {t})"
    using pool_inv_return [OF ts1(2), of t] by auto
  have "insert t R - {t} = R" "insert t H - {t} = H" using pool(2) by auto
  then have inv: "pool_inv ts2 R H" using ts2(2) by simp
  have "handle_ack E c seq s = Inr (s\<lparr>timers := ts2, conns := (conns s)(c \<mapsto>
      x\<lparr>redelivery_buffer := (redelivery_buffer x)[unat seq mod 32 := 0]\<rparr>)\<rparr>)"
    using c p0 p(1) pkt_get_field [OF E p(2) in_header(2)] p(3) ts1(1) ts2(1)
    by (simp add: handle_ack_def Let_def REDELIVERY_BUFFER_SIZE_def timers_updE_def conn_updE_def)
  then show ?thesis using inv by (rule that)
qed

lemma ack_over_ipc:
  assumes E: "simple_env E" and c: "c \<noteq> 0" "conns s c = Some x" "length (redelivery_buffer x) = 32"
    and p: "redelivery_buffer x ! (unat seq mod 32) = p" "at_buf s p N f tail" "f ''redelivery_timer'' = t"
    and pool: "pool_inv (timers s) (insert t R) H" "t \<notin> R \<union> H"
    and sock: "quiet (transport_state s)" "sock_in (transport_state s) = []" "malloc_addr E (mallocs s) \<noteq> 0" "malloc_addr E (mallocs s) \<noteq> p"
    and b: "ack_packet y u seq b" "length b = 1024" "seq \<noteq> 0"
    and ids: "remote_host_id y = nb__my_local_host_id s" "retrieve_connection E (remote_app_id y) (local_app_id y) (nb__my_local_host_id u) s = Inr c"
  obtains b' tb ts where "take_packet (ipc_env E) (arrives (take 39 (drop 24 b)) s) = Inr (s\<lparr>mallocs := mallocs s + 1,
      transport_state := (transport_state s)\<lparr>sock_in := [], temp_buf := tb\<rparr>, bufs := (bufs s)(malloc_addr E (mallocs s) \<mapsto> b'), timers := ts,
      conns := (conns s)(c \<mapsto> x\<lparr>redelivery_buffer := (redelivery_buffer x)[unat seq mod 32 := 0]\<rparr>)\<rparr>)" "pool_inv ts R H"
    "quiet ((transport_state s)\<lparr>sock_in := [], temp_buf := tb\<rparr>)"
proof -
  let ?m = "take 39 (drop 24 b)" and ?p = "malloc_addr E (mallocs s)"
  have E': "simple_env (ipc_env E)" using E by simp
  have lm: "length ?m = 39" using b(2) by simp
  then have m: "?m \<noteq> []" "length ?m \<le> 1024" by auto
  obtain b2 tb where b2: "take_packet (ipc_env E) (arrives ?m s) = nb__run_ingress_step (ipc_env E) ?p (int (length ?m)) (s\<lparr>mallocs := mallocs s + 1,
      transport_state := (transport_state s)\<lparr>sock_in := [], temp_buf := tb\<rparr>, bufs := (bufs s)(?p \<mapsto> b2)\<rparr>)"
    "length b2 = 1048" "take (length ?m) (drop 24 b2) = ?m" "quiet ((transport_state s)\<lparr>sock_in := [], temp_buf := tb\<rparr>)"
    using E sock(1,2) m refl sock(3) by (rule take_arrived)
  let ?s1 = "s\<lparr>mallocs := mallocs s + 1, transport_state := (transport_state s)\<lparr>sock_in := [], temp_buf := tb\<rparr>, bufs := (bufs s)(?p \<mapsto> b2)\<rparr>"
  obtain f0 tail0 where f0: "pkt_is b f0 tail0" "good_sum 39 b" "f0 ''total_len'' = 39" "f0 ''ack_sequence_number'' = ucast seq"
    "f0 ''dst_host_id'' = remote_host_id y" "f0 ''dst_app_id'' = ucast (remote_app_id y)" "f0 ''src_host_id'' = nb__my_local_host_id u" "f0 ''src_app_id'' = ucast (local_app_id y)"
    using b(1) unfolding ack_packet_def by blast
  have tr: "(38 :: nat) \<le> 39" "24 + 39 \<le> length b" "24 + 39 < length b2" "take 39 (drop 24 b2) = ?m"
    using b2(3) b(2) b2(2) unfolding lm by simp_all
  obtain f2 where f2: "pkt_is b2 f2 (drop 62 b2)" "good_sum 39 b2" "take (39 - 38) (drop 62 b2) = take (39 - 38) tail0"
    "\<And>k. k \<in> set wire_names \<Longrightarrow> f2 k = f0 k"
    using f0(1,2) tr by (rule transferred) blast
  have n: "f2 ''total_len'' = of_nat 39" "38 \<le> (39 :: nat)" "39 + 39 mod 2 \<le> 38 + length (drop 62 b2)" "24 + 39 < (2 :: nat) ^ 31"
    using f2(4) f0(3) b2(2) by simp_all
  have i: "f2 ''dst_host_id'' = nb__my_local_host_id ?s1" "f2 ''dst_app_id'' = ucast (remote_app_id y)" "f2 ''src_app_id'' = ucast (local_app_id y)"
    "retrieve_connection (ipc_env E) (remote_app_id y) (local_app_id y) (f2 ''src_host_id'') ?s1 = Inr c"
    using f2(4) f0 ids by simp_all
  have bp: "bufs ?s1 ?p = Some b2" by simp
  obtain b3 ck tail' where b3: "nb__run_ingress_step (ipc_env E) ?p (int (length ?m)) ?s1 =
      run_hooks (hook_ingress (ipc_env E) ?p) [Reliable_Module, Inorder_Module, Signaling_Module, Payload_Module] (?s1\<lparr>bufs := (bufs ?s1)(?p \<mapsto> b3)\<rparr>)"
    "at_buf (?s1\<lparr>bufs := (bufs ?s1)(?p \<mapsto> b3)\<rparr>) ?p (length b2)
       (f2(''computed_total_len'' := of_nat 39, ''checksum'' := ck, ''flow_identifier'' := c)) tail'"
    "take (39 - 38) tail' = take (39 - 38) (drop 62 b2)" "length tail' = length (drop 62 b2)"
    using E' sock(3) bp f2(1,2) n i c(1) by (rule ingress_front_view)
  let ?s3 = "?s1\<lparr>bufs := (bufs ?s1)(?p \<mapsto> b3)\<rparr>"
  have s3: "conns ?s3 c = Some x" "at_buf ?s3 p N f tail" "pool_inv (timers ?s3) (insert t R) H"
    using c(2) p(2) pool(1) sock(4) by (simp_all add: at_buf_def)
  obtain ts where ts: "handle_ack (ipc_env E) c seq ?s3 = Inr (?s3\<lparr>timers := ts, conns := (conns ?s3)(c \<mapsto>
      x\<lparr>redelivery_buffer := (redelivery_buffer x)[unat seq mod 32 := 0]\<rparr>)\<rparr>)" "pool_inv ts R H"
    using E' c(1) s3(1) c(3) p(1) s3(2) p(3) s3(3) pool(2) by (rule handle_ack_view)
  have "pkt_get (ipc_env E) ''ack_sequence_number'' ?p ?s3 = Inr (ucast seq)" "pkt_get (ipc_env E) ''flow_identifier'' ?p ?s3 = Inr c"
    using pkt_get_field [OF E' b3(2)] f2(4) f0(4) by simp_all
  with b(3) ts(1) b2(1) [unfolded b3(1)]
  have "take_packet (ipc_env E) (arrives ?m s) = Inr (?s3\<lparr>timers := ts, conns := (conns ?s3)(c \<mapsto>
      x\<lparr>redelivery_buffer := (redelivery_buffer x)[unat seq mod 32 := 0]\<rparr>)\<rparr>)"
    by (simp add: reliable_hook_ingress_def Let_def)
  then show ?thesis by (intro that [OF _ ts(2) b2(4)]) simp
qed

section \<open>End to end\<close>

lemma receive_and_read:
  assumes u: "can_receive F d y (remote_app_id x) (local_app_id x) (nb__my_local_host_id s) (last_sent_sequence x + 1) u"
      "nb__my_local_host_id u = remote_host_id x" "sock_in (transport_state u) = []" "dq_list (input_queue y) = []"
    and b: "data_packet x s payload t b" "length b = 1024" and pl: "payload \<noteq> []" "length payload \<le> 961" "int (length payload) \<le> max_len"
  shows "\<exists>u1 u2. take_packet (ipc_env F) (arrives (take (38 + length payload) (drop 24 b)) u) = Inr u1 \<and>
    nb__read d max_len u1 = Inr ((int (length payload), payload), u2) \<and> nb__read d max_len u2 = Inr ((0, []), u2)"
proof -
  let ?n = "38 + length payload"
  obtain u1 p bp bq dq g where u1: "take_packet (ipc_env F) (arrives (take ?n (drop 24 b)) u) = Inr u1"
    "conns u1 = (conns u)(d \<mapsto> y\<lparr>input_queue := dq, last_recv_sequence := last_sent_sequence x + 1, signaling_state := g\<rparr>)"
    "sock_out (transport_state u1) = sock_out (transport_state u) @ [take 39 (drop 24 bq)]" "length bq = 1024"
    "ack_packet y u (last_sent_sequence x + 1) bq" "p \<noteq> 0" "bufs u1 p = Some bp"
    "take (length payload) (drop 62 bp) = payload" "length payload \<le> length (drop 62 bp)"
    "dq_inv dq" "dq_list dq = dq_list (input_queue y) @ payload_entry p (length payload)"
    using u(1-3) b pl(2) by (rule receive_over_ipc)
  let ?y = "y\<lparr>input_queue := dq, last_recv_sequence := last_sent_sequence x + 1, signaling_state := g\<rparr>"
  have d: "d \<noteq> 0" "conns u1 d = Some ?y" "dq_inv (input_queue ?y)" using u(1) u1(2,10) by (simp_all add: can_receive_def)
  have "dq_list (input_queue ?y) = [((p, 62), int (length payload))]" using u1(11) u(4) pl(1) by (simp add: payload_entry_def)
  from read_only_payload [OF d this u1(6-9) pl(1,3)] obtain u2 q' where
    u2: "nb__read d max_len u1 = Inr ((int (length payload), payload), u2)" "conns u2 = (conns u1)(d \<mapsto> ?y\<lparr>input_queue := q'\<rparr>)" "dq_current_elems q' = 0"
    by blast
  then have "nb__read d max_len u2 = Inr ((0, []), u2)" using d(1) by (simp add: nb__read_def)
  with u1(1) u2(1) show ?thesis by blast
qed

text \<open>
  C2. A payload of 1 to 961 bytes given to \<open>nb__send\<close> on a node with the simple stack puts one
  message on its socket. When the message arrives at the peer, whose connection awaits this sequence
  number and has delivered all earlier payloads, the next packet taken from its socket goes through
  the whole ingress path without an error, and \<open>nb__read\<close> returns exactly the payload, once.
\<close>

theorem simple_end_to_end:
  assumes "can_send E c x s" "pool_inv (timers s) R H" "R \<union> H \<noteq> Collect valid_timer"
    and pl: "payload \<noteq> []" "length payload \<le> 961" "int (length payload) \<le> max_len"
    and u: "can_receive F d y (remote_app_id x) (local_app_id x) (nb__my_local_host_id s) (last_sent_sequence x + 1) u"
      "nb__my_local_host_id u = remote_host_id x" "sock_in (transport_state u) = []" "dq_list (input_queue y) = []"
  shows "\<exists>s' m. nb__send (ipc_env E) c payload (int (length payload)) s = Inr (int (length payload), s') \<and>
    sock_out (transport_state s') = sock_out (transport_state s) @ [m] \<and>
    (\<exists>u1 u2. take_packet (ipc_env F) (arrives m u) = Inr u1 \<and>
       nb__read d max_len u1 = Inr ((int (length payload), payload), u2) \<and> nb__read d max_len u2 = Inr ((0, []), u2))"
proof -
  let ?n = "38 + length payload"
  obtain b t w ts where snd: "nb__send (ipc_env E) c payload (int (length payload)) s = Inr (int (length payload), after_send E c x ?n b w ts s)"
    "length b = 1024" "data_packet x s payload t b" "t \<notin> R \<union> H" "pool_inv ts (insert t R) H" "armed ts t (w + REDELIVERY_TIMEOUT_MS) (malloc_addr E (mallocs s))" "nb__time_now s \<noteq> - 1 \<longrightarrow> w = nb__time_now s"
    using assms(1-3) pl(2) by (rule send_over_ipc)
  from receive_and_read [OF u snd(3,2) pl] snd(1) show ?thesis by (auto simp: after_send_def)
qed

text \<open>
  C3. After a send as above the receiver answers with one message, and when it arrives at the sender
  the redelivery of the packet ends: its place in the redelivery buffer is empty, its timer neither
  runs nor is held any more, and all other timers are as before the send.
\<close>

theorem ack_ends_redelivery:
  assumes s: "can_send E c x s" "pool_inv (timers s) R H" "R \<union> H \<noteq> Collect valid_timer" "sock_in (transport_state s) = []"
      "retrieve_connection E (local_app_id x) (remote_app_id x) (remote_host_id x) s = Inr c" "last_sent_sequence x + 1 \<noteq> 0"
      "malloc_addr E (mallocs s + 1) \<noteq> 0" "malloc_addr E (mallocs s + 1) \<noteq> malloc_addr E (mallocs s)"
    and len: "length payload \<le> 961" and xy: "peers x s y u"
    and u: "can_receive F d y (remote_app_id x) (local_app_id x) (nb__my_local_host_id s) (last_sent_sequence x + 1) u"
      "sock_in (transport_state u) = []"
  shows "\<exists>s1 m u1 a s2. nb__send (ipc_env E) c payload (int (length payload)) s = Inr (int (length payload), s1) \<and>
    sock_out (transport_state s1) = sock_out (transport_state s) @ [m] \<and>
    take_packet (ipc_env F) (arrives m u) = Inr u1 \<and> sock_out (transport_state u1) = sock_out (transport_state u) @ [a] \<and>
    take_packet (ipc_env E) (arrives a s1) = Inr s2 \<and> pool_inv (timers s2) R H \<and>
    conns s2 c = Some (x\<lparr>last_sent_sequence := last_sent_sequence x + 1,
      redelivery_buffer := (redelivery_buffer x)[unat (last_sent_sequence x + 1) mod 32 := 0]\<rparr>)"
proof -
  let ?n = "38 + length payload" and ?seq = "last_sent_sequence x + 1" and ?p = "malloc_addr E (mallocs s)"
  have E: "simple_env E" "c \<noteq> 0" "length (redelivery_buffer x) = 32" "quiet (transport_state s)" "?p \<noteq> 0" using s(1) by (simp_all add: can_send_def)
  have host: "nb__my_local_host_id u = remote_host_id x" using xy by (simp add: peers_def)
  obtain b t w ts where snd: "nb__send (ipc_env E) c payload (int (length payload)) s = Inr (int (length payload), after_send E c x ?n b w ts s)"
    "length b = 1024" "data_packet x s payload t b" "t \<notin> R \<union> H" "pool_inv ts (insert t R) H" "armed ts t (w + REDELIVERY_TIMEOUT_MS) (malloc_addr E (mallocs s))" "nb__time_now s \<noteq> - 1 \<longrightarrow> w = nb__time_now s"
    using s(1-3) len by (rule send_over_ipc)
  obtain u1 p bp bq dq g where u1: "take_packet (ipc_env F) (arrives (take ?n (drop 24 b)) u) = Inr u1"
    "conns u1 = (conns u)(d \<mapsto> y\<lparr>input_queue := dq, last_recv_sequence := ?seq, signaling_state := g\<rparr>)"
    "sock_out (transport_state u1) = sock_out (transport_state u) @ [take 39 (drop 24 bq)]" "length bq = 1024" "ack_packet y u ?seq bq"
    "p \<noteq> 0" "bufs u1 p = Some bp" "take (length payload) (drop 62 bp) = payload" "length payload \<le> length (drop 62 bp)"
    "dq_inv dq" "dq_list dq = dq_list (input_queue y) @ payload_entry p (length payload)"
    using u(1) host u(2) snd(3,2) len by (rule receive_over_ipc)
  let ?s1 = "after_send E c x ?n b w ts s"
  let ?x = "x\<lparr>last_sent_sequence := ?seq, redelivery_buffer := (redelivery_buffer x)[unat ?seq mod 32 := ?p]\<rparr>"
  obtain f tail where f: "pkt_is b f tail" "f ''redelivery_timer'' = t" using snd(3) unfolding data_packet_def by blast
  have s1: "conns ?s1 c = Some ?x" "length (redelivery_buffer ?x) = 32" "redelivery_buffer ?x ! (unat ?seq mod 32) = ?p"
    "at_buf ?s1 ?p 1024 f tail" "pool_inv (timers ?s1) (insert t R) H" "quiet (transport_state ?s1)" "sock_in (transport_state ?s1) = []"
    "malloc_addr E (mallocs ?s1) \<noteq> 0" "malloc_addr E (mallocs ?s1) \<noteq> ?p"
    using E s(4,7,8) snd(2,5) f(1) by (simp_all add: after_send_def at_buf_def)
  have ids: "remote_host_id y = nb__my_local_host_id ?s1"
    "retrieve_connection E (remote_app_id y) (local_app_id y) (nb__my_local_host_id u) ?s1 = Inr c"
    using xy s(5) by (simp_all add: peers_def after_send_def)
  obtain s2 where s2: "take_packet (ipc_env E) (arrives (take 39 (drop 24 bq)) ?s1) = Inr s2"
    "conns s2 = (conns ?s1)(c \<mapsto> ?x\<lparr>redelivery_buffer := (redelivery_buffer ?x)[unat ?seq mod 32 := 0]\<rparr>)" "pool_inv (timers s2) R H"
    using E(1,2) s1(1-4) f(2) s1(5) snd(4) s1(6-9) u1(5,4) s(6) ids by (rule ack_over_ipc) simp
  have "conns s2 c = Some (x\<lparr>last_sent_sequence := ?seq, redelivery_buffer := (redelivery_buffer x)[unat ?seq mod 32 := 0]\<rparr>)"
    using s2(2) by simp
  moreover have "sock_out (transport_state ?s1) = sock_out (transport_state s) @ [take ?n (drop 24 b)]"
    by (simp add: after_send_def)
  ultimately show ?thesis using snd(1) u1(1,3) s2(1,3) by (intro exI conjI)
qed

end
