(* ===== verification/Redelivery.thy ===== *)
theory Redelivery
  imports End_To_End Timer_Loop
begin

text \<open>
  Packets that get lost on the way: as long as no acknowledgement has arrived, every check of the
  timers that is at least 50 ms after the last one puts the same message on the socket again.
\<close>

section \<open>A timer fires\<close>

text \<open>The only running timer is \<open>t\<close>, and it is due at \<open>to\<close> to send the packet at \<open>p\<close>.\<close>

definition only_timer :: "timer_state \<Rightarrow> u64 \<Rightarrow> u64 \<Rightarrow> u64 \<Rightarrow> bool" where
  "only_timer ts t to p \<longleftrightarrow> (\<exists>fs. timer_inv ts [t] fs) \<and> armed ts t to p"

lemma pool_only_timer:
  assumes "pool_inv ts {t} H" "armed ts t to p"
  shows "only_timer ts t to p"
proof -
  from assms(1) obtain xs fs where xs: "timer_inv ts xs fs" "set xs = {t}" by (auto simp: pool_inv_def)
  moreover have "distinct xs" using xs(1) by (simp add: timer_inv_def)
  ultimately have "xs = [t]" by (metis distinct.simps(2) empty_iff insertI1 insert_iff list.exhaust_sel list.set(1) list.set_intros(1) list.set_sel(2) list.simps(15) singletonD)
  with xs(1) assms(2) show ?thesis by (auto simp: only_timer_def)
qed

lemma only_timer_again:
  assumes "only_timer ts t to p"
  obtains ts1 ts2 where "nb__remove_timer t ts = Inr ts1" "armed ts1 t (tm_timeout (nb__allocated_timers ts1 t)) p"
    "nb__insert_timer t to' Redelivery_Timer_Cb p ts1 = Inr ts2" "only_timer ts2 t to' p"
proof -
  obtain fs where inv: "timer_inv ts [t] fs" using assms by (auto simp: only_timer_def)
  have t: "valid_timer t" "t \<notin> set fs" using inv timer_inv_valid [OF inv] by (auto simp: timer_inv_def)
  obtain ts1 where ts1: "nb__remove_timer t ts = Inr ts1" "timer_inv ts1 [] fs" "armed ts1 t (tm_timeout (nb__allocated_timers ts1 t)) p"
    using remove_timer_inv [OF inv, of t] assms by (auto simp: only_timer_def armed_def)
  obtain ts2 where "nb__insert_timer t to' Redelivery_Timer_Cb p ts1 = Inr ts2" "timer_inv ts2 [t] fs" "armed ts2 t to' p"
    using insert_timer_inv [OF ts1(2) t(1) _ t(2), of to' Redelivery_Timer_Cb p] by (auto simp: armed_def)
  with ts1 that show ?thesis by (auto simp: only_timer_def)
qed

section \<open>The message is sent again\<close>

lemma data_packet_again:
  assumes "simple_env E" "data_packet x s payload t b" "p \<noteq> 0" "bufs s' p = Some b" "length b = 1024" "length payload \<le> 961"
    and tx: "send_packet E (take (38 + length payload) (drop 24 b)) s' = Inr (r, s2)"
  shows "send_from_headroom E p s' = Inr s2"
proof -
  obtain f tail where f: "pkt_is b f tail" "f ''computed_total_len'' = of_nat (38 + length payload)"
    using assms(2) unfolding data_packet_def by blast
  have "length tail = 962" using f(1) assms(5) by (auto simp: pkt_is_def)
  then have "holds_wire (38 + length payload) f tail" using f(2) assms(6) by (auto simp: holds_wire_def)
  from simple_network_send [OF assms(1,3,4) f(1) this tx] show ?thesis
    by (auto simp: network_hook_send_def bindE_eq_Inr)
qed

text \<open>
  A sender that waits for the acknowledgement of the packet in buffer \<open>b\<close> at \<open>p\<close>,
  which its timer sends again at \<open>to\<close>.
\<close>

definition waits :: "u64 \<Rightarrow> u8 list \<Rightarrow> u64 \<Rightarrow> u64 \<Rightarrow> (ipc_state, 'a) nb_state \<Rightarrow> bool" where
  "waits p b t to s \<longleftrightarrow> p \<noteq> 0 \<and> bufs s p = Some b \<and> quiet (transport_state s) \<and> only_timer (timers s) t to p"

text \<open>A check of the timers in a step of the main loop at the time \<open>now\<close>.\<close>

definition check_at :: "('t, 'a) nb_env \<Rightarrow> u64 \<Rightarrow> ('t, 'a) nb_state \<Rightarrow> ('t, 'a) nb_state res" where
  "check_at E now s = nb__check_timers E (s\<lparr>nb__time_now := now\<rparr>)"

lemma only_timer_head: "only_timer ts t to p \<Longrightarrow> nb__timers_head ts = t \<and> valid_timer t \<and> t \<noteq> 0"
  by (auto simp: only_timer_def timer_inv_def)

lemma only_timer_checked [simp]: "only_timer (ts\<lparr>nb__last_timer_checked := w\<rparr>) t to p = only_timer ts t to p"
  by (simp add: only_timer_def timer_inv_def armed_def)

lemma fire_only_timer:
  assumes E: "simple_env E" and w: "waits p b t to s" "to \<le> now" and d: "data_packet x s0 payload t b" "length b = 1024" "length payload \<le> 961"
  obtains ts where "fire_head (ipc_env E) now s =
      Inr (Some (s\<lparr>timers := ts, transport_state := sent (take (38 + length payload) (drop 24 b)) (transport_state s)\<rparr>))"
    "only_timer ts t (now + REDELIVERY_TIMEOUT_MS) p"
proof -
  have ot: "only_timer (timers s) t to p" using w(1) by (simp add: waits_def)
  obtain ts1 ts2 where ts: "nb__remove_timer t (timers s) = Inr ts1" "armed ts1 t (tm_timeout (nb__allocated_timers ts1 t)) p"
    "nb__insert_timer t (now + REDELIVERY_TIMEOUT_MS) Redelivery_Timer_Cb p ts1 = Inr ts2" "only_timer ts2 t (now + REDELIVERY_TIMEOUT_MS) p"
    using ot by (rule only_timer_again)
  let ?s1 = "s\<lparr>timers := ts1\<rparr>" and ?m = "take (38 + length payload) (drop 24 b)"
  have s1: "bufs ?s1 p = Some b" "p \<noteq> 0" "quiet (transport_state ?s1)" using w(1) by (simp_all add: waits_def)
  have "send_from_headroom (ipc_env E) p ?s1 = Inr (?s1\<lparr>transport_state := sent ?m (transport_state ?s1)\<rparr>)"
    using data_packet_again [OF _ d(1) s1(2,1) d(2,3) ipc_tx [OF s1(3) refl]] E by simp
  then have "fire_head (ipc_env E) now s = Inr (Some (s\<lparr>timers := ts2, transport_state := sent ?m (transport_state s)\<rparr>))"
    using only_timer_head [OF ot] ot w(2) ts(1-3)
    by (simp add: fire_head_def Let_def only_timer_def armed_def timers_updE_def run_timer_callback_def redelivery_cb_def)
  then show ?thesis using ts(4) by (rule that)
qed

lemma check_sends_again:
  assumes E: "simple_env E" and w: "waits p b t to s" "to \<le> now" "unat now + 50 < 2 ^ 64"
    and d: "data_packet x s0 payload t b" "length b = 1024" "length payload \<le> 961"
  obtains s' where "check_at (ipc_env E) now s = Inr s'" "waits p b t (now + REDELIVERY_TIMEOUT_MS) s'"
    "sock_out (transport_state s') = sock_out (transport_state s) @ [take (38 + length payload) (drop 24 b)]"
proof -
  let ?s = "s\<lparr>nb__time_now := now\<rparr>" and ?m = "take (38 + length payload) (drop 24 b)"
  have w': "waits p b t to ?s" using w(1) by (simp add: waits_def)
  obtain ts where ts: "fire_head (ipc_env E) now ?s = Inr (Some (?s\<lparr>timers := ts, transport_state := sent ?m (transport_state ?s)\<rparr>))"
    "only_timer ts t (now + REDELIVERY_TIMEOUT_MS) p"
    using E w' w(2) d by (rule fire_only_timer)
  let ?s' = "?s\<lparr>timers := ts, transport_state := sent ?m (transport_state ?s)\<rparr>"
  have "\<not> now + REDELIVERY_TIMEOUT_MS \<le> now" using not_due_later [OF w(3)] .
  then have "fire_head (ipc_env E) now ?s' = Inr None"
    using only_timer_head [OF ts(2)] ts(2) by (simp add: fire_head_def Let_def only_timer_def armed_def)
  then have "timers_loop (ipc_env E) now ?s' = Some (Inr ?s')"
    using only_timer_head [OF ts(2)] by (subst timers_loop.simps) simp
  moreover have "timers_loop (ipc_env E) now ?s = timers_loop (ipc_env E) now ?s'"
    using only_timer_head [of "timers s" t to p] w(1) ts(1) by (subst timers_loop.simps) (simp add: waits_def)
  moreover have "now \<noteq> - 1" using w(3) by (auto simp: unsigned_minus_1_eq_mask mask_eq_exp_minus_1)
  ultimately have "check_at (ipc_env E) now s = Inr (?s'\<lparr>timers := ts\<lparr>nb__last_timer_checked := now\<rparr>\<rparr>)"
    by (simp add: check_at_def nb__check_timers_def nb__get_time_ms_now_def)
  then show ?thesis by (rule that) (use w(1) ts(2) in \<open>simp_all add: waits_def\<close>)
qed

section \<open>Losses\<close>

text \<open>Checks of the timers at given times, each at least 50 ms after the former and the first after \<open>t0\<close>.\<close>

fun spaced :: "u64 \<Rightarrow> u64 list \<Rightarrow> bool" where
  "spaced t0 [] \<longleftrightarrow> True"
| "spaced t0 (now # nows) \<longleftrightarrow> unat t0 + 50 \<le> unat now \<and> unat now + 50 < 2 ^ 64 \<and> spaced now nows"

fun check_all :: "('t, 'a) nb_env \<Rightarrow> u64 list \<Rightarrow> ('t, 'a) nb_state \<Rightarrow> ('t, 'a) nb_state res" where
  "check_all E [] s = Inr s"
| "check_all E (now # nows) s = bindE (check_at E now s) (check_all E nows)"

lemma later_due: "unat t0 + 50 \<le> unat now \<Longrightarrow> t0 + REDELIVERY_TIMEOUT_MS \<le> now"
proof -
  assume le: "unat t0 + 50 \<le> unat now"
  moreover have "unat now < 2 ^ 64" by (rule order_less_le_trans [OF unsigned_less]) simp
  ultimately have "unat (t0 + 50) = unat t0 + 50" by (simp add: unat_word_ariths)
  with le show ?thesis by (simp add: REDELIVERY_TIMEOUT_MS_def word_le_nat_alt)
qed

lemma check_all_sends:
  assumes E: "simple_env E" and d: "data_packet x s0 payload t b" "length b = 1024" "length payload \<le> 961"
    and w: "waits p b t (t0 + REDELIVERY_TIMEOUT_MS) s" "spaced t0 nows"
  shows "\<exists>s'. check_all (ipc_env E) nows s = Inr s' \<and>
    sock_out (transport_state s') = sock_out (transport_state s) @ replicate (length nows) (take (38 + length payload) (drop 24 b))"
  using w
proof (induction nows arbitrary: t0 s)
  case (Cons now nows)
  then have t: "t0 + REDELIVERY_TIMEOUT_MS \<le> now" "unat now + 50 < 2 ^ 64" "spaced now nows" using later_due by simp_all
  obtain s1 where s1: "check_at (ipc_env E) now s = Inr s1" "waits p b t (now + REDELIVERY_TIMEOUT_MS) s1"
    "sock_out (transport_state s1) = sock_out (transport_state s) @ [take (38 + length payload) (drop 24 b)]"
    using E Cons.prems(1) t(1,2) d by (rule check_sends_again)
  with Cons.IH [OF s1(2) t(3)] show ?case by (auto simp: replicate_app_Cons_same)
qed simp

text \<open>
  C4. When the acknowledgement of the only unacknowledged packet does not come, every check of the
  timers that is 50 ms or more after the send and after the former check puts the same message on the
  socket once more, for any number of checks. The peer that awaits the packet delivers the payload
  from whichever copy arrives first: all copies are equal.
\<close>

theorem lost_packet_redelivered:
  assumes s: "can_send E c x s" "pool_inv (timers s) {} H" "H \<noteq> Collect valid_timer"
    and pl: "payload \<noteq> []" "length payload \<le> 961" "int (length payload) \<le> max_len"
    and u: "can_receive F d y (remote_app_id x) (local_app_id x) (nb__my_local_host_id s) (last_sent_sequence x + 1) u"
      "nb__my_local_host_id u = remote_host_id x" "sock_in (transport_state u) = []" "dq_list (input_queue y) = []"
  shows "\<exists>s1 m. nb__send (ipc_env E) c payload (int (length payload)) s = Inr (int (length payload), s1) \<and>
    (nb__time_now s \<noteq> - 1 \<longrightarrow> nb__time_now s1 = nb__time_now s) \<and>
    (\<forall>nows. spaced (nb__time_now s1) nows \<longrightarrow> (\<exists>s2. check_all (ipc_env E) nows s1 = Inr s2 \<and>
       sock_out (transport_state s2) = sock_out (transport_state s) @ replicate (Suc (length nows)) m)) \<and>
    (\<exists>u1 u2. take_packet (ipc_env F) (arrives m u) = Inr u1 \<and> nb__read d max_len u1 = Inr ((int (length payload), payload), u2))"
proof -
  let ?n = "38 + length payload" and ?p = "malloc_addr E (mallocs s)"
  have R: "{} \<union> H \<noteq> Collect valid_timer" using s(3) by simp
  obtain b t w ts where snd: "nb__send (ipc_env E) c payload (int (length payload)) s = Inr (int (length payload), after_send E c x ?n b w ts s)"
    "length b = 1024" "data_packet x s payload t b" "t \<notin> {} \<union> H" "pool_inv ts (insert t {}) H" "armed ts t (w + REDELIVERY_TIMEOUT_MS) ?p" "nb__time_now s \<noteq> - 1 \<longrightarrow> w = nb__time_now s"
    using s(1,2) R pl(2) by (rule send_over_ipc)
  let ?s1 = "after_send E c x ?n b w ts s" and ?m = "take ?n (drop 24 b)"
  have E: "simple_env E" "waits ?p b t (nb__time_now ?s1 + REDELIVERY_TIMEOUT_MS) ?s1"
    using s(1) pool_only_timer [OF snd(5,6)] by (simp_all add: can_send_def waits_def after_send_def)
  have "sock_out (transport_state ?s1) = sock_out (transport_state s) @ [?m]" by (simp add: after_send_def)
  then have "\<exists>s2. check_all (ipc_env E) nows ?s1 = Inr s2 \<and>
      sock_out (transport_state s2) = sock_out (transport_state s) @ replicate (Suc (length nows)) ?m"
    if "spaced (nb__time_now ?s1) nows" for nows
    using check_all_sends [OF E(1) snd(3,2) pl(2) E(2) that] by auto
  moreover obtain u1 u2 where "take_packet (ipc_env F) (arrives ?m u) = Inr u1" "nb__read d max_len u1 = Inr ((int (length payload), payload), u2)"
    using receive_and_read [OF u snd(3,2) pl] by blast
  moreover have "nb__time_now s \<noteq> - 1 \<longrightarrow> nb__time_now ?s1 = nb__time_now s" using snd(7) by (simp add: after_send_def)
  ultimately show ?thesis using snd(1) by blast
qed

end
