(* ===== verification/Handshake.thy ===== *)
theory Handshake
  imports End_To_End
begin

text \<open>
  The handshake of the simple stack over the socket transport, message by message: \<open>nb__establish\<close>
  at the client sends a signaling packet, a listener keeps it in its accept queue, \<open>nb__accept\<close>
  establishes the connection in the opposite direction, whose own signaling packet tells the client
  that it is connected. After that both ends can send and receive.
\<close>

section \<open>What the nodes start from\<close>

text \<open>The memory of a new connection has its arrays; their contents do not matter.\<close>

definition conn_mem :: "nb__connection_t \<Rightarrow> bool" where
  "conn_mem x \<longleftrightarrow> length (inorder_buffer x) = 32 \<and> length (redelivery_buffer x) = 32 \<and>
     length (data_queue_elems (input_queue x)) = MAX_DATA_QUEUE_ELEMS \<and> length (data_queue_elems_size (input_queue x)) = MAX_DATA_QUEUE_ELEMS"

text \<open>The calls of \<open>malloc\<close> from number \<open>k\<close> on, \<open>n\<close> of them, succeed.\<close>

definition malloc_ok :: "('t, 'a) nb_env \<Rightarrow> nat \<Rightarrow> nat \<Rightarrow> bool" where
  "malloc_ok E k n \<longleftrightarrow> (\<forall>i<n. malloc_addr E (k + i) \<noteq> 0 \<and> (\<forall>j<i. malloc_addr E (k + j) \<noteq> malloc_addr E (k + i)))"

lemma malloc_okD:
  "malloc_ok E k n \<Longrightarrow> i < n \<Longrightarrow> malloc_addr E (k + i) \<noteq> 0"
  "malloc_ok E k n \<Longrightarrow> i < n \<Longrightarrow> j < n \<Longrightarrow> malloc_addr E (k + i) = malloc_addr E (k + j) \<longleftrightarrow> i = j"
  unfolding malloc_ok_def by (metis, metis linorder_neqE_nat)

lemma malloc_ok_drop: "malloc_ok E k n \<Longrightarrow> k' = k + i \<Longrightarrow> i + n' \<le> n \<Longrightarrow> malloc_ok E k' n'"
  by (fastforce simp: malloc_ok_def add.assoc)

text \<open>
  A node that can open a connection from its application \<open>sa\<close> to the application \<open>a\<close> on host
  \<open>h\<close>: the identifiers fit the packet, the table has room and no such connection yet.
\<close>

definition can_establish :: "(ipc_state, 'a) nb_env \<Rightarrow> u32 \<Rightarrow> u32 \<Rightarrow> u32 \<Rightarrow> (ipc_state, 'a) nb_state \<Rightarrow> bool" where
  "can_establish E h a sa s \<longleftrightarrow> simple_env E \<and> h \<noteq> 0 \<and> a \<noteq> 0 \<and> unat a < 65536 \<and> unat sa < 65536 \<and> unat (nb__my_local_host_id s) < 2 ^ 48 \<and>
     routing_table s = None \<and> ct_inv s \<and> num_conn s < MAX_ACTIVE_CONNECTIONS \<and> (sa, a, ucast h) \<notin> ct_key ` set (ct_list s) \<and>
     (\<forall>k. conn_mem (malloc_conn E k)) \<and> quiet (transport_state s)"

section \<open>The establish path\<close>

text \<open>The state after an entry was appended to the table.\<close>

definition with_entry :: "u64 \<Rightarrow> u32 \<Rightarrow> u32 \<Rightarrow> u64 \<Rightarrow> ('t, 'a) nb_state \<Rightarrow> ('t, 'a) nb_state" where
  "with_entry c a r h s = s\<lparr>num_conn := num_conn s + 1, active_local_app_ids := (active_local_app_ids s)[num_conn s := a],
     active_connections := (active_connections s)[num_conn s := c], active_remote_app_ids := (active_remote_app_ids s)[num_conn s := r],
     active_remote_host_ids := (active_remote_host_ids s)[num_conn s := h]\<rparr>"

lemma with_entry_simps [simp]:
  "conns (with_entry c a r h s) = conns s" "bufs (with_entry c a r h s) = bufs s" "mallocs (with_entry c a r h s) = mallocs s"
  "timers (with_entry c a r h s) = timers s" "transport_state (with_entry c a r h s) = transport_state s"
  "nb__my_local_host_id (with_entry c a r h s) = nb__my_local_host_id s" "routing_table (with_entry c a r h s) = routing_table s"
  "nb__time_now (with_entry c a r h s) = nb__time_now s"
  by (simp_all add: with_entry_def)

lemma add_connection_entry:
  "ct_inv s \<Longrightarrow> num_conn s < MAX_ACTIVE_CONNECTIONS \<Longrightarrow> flow_identifier (cfg E) = src_dst_identifier \<Longrightarrow>
   add_connection E c a r h s = Inr (with_entry c a r h s)"
  by (simp add: add_connection_def Let_def ct_inv_def with_entry_def)

lemma with_entry_list:
  assumes "ct_inv s" "num_conn s < MAX_ACTIVE_CONNECTIONS"
  shows "ct_inv (with_entry c a r h s)" "ct_list (with_entry c a r h s) = ct_list s @ [(a, r, h, c)]"
  using assms by (auto simp: with_entry_def ct_inv_def ct_list_def)

lemma retrieve_new:
  assumes "simple_env E" "ct_inv s" "ct_list s = es @ [(a, r, h, c)]" "(a, r, h) \<notin> ct_key ` set es"
  shows "retrieve_connection E a r h s = Inr c"
proof -
  have "\<not> (\<exists>x\<in>set es. ct_key x = (a, r, h))" using assms(4) by force
  with assms(1-3) show ?thesis by (simp add: retrieve_connection_key ct_find_append)
qed

text \<open>The loops that clear the buffers of a connection.\<close>

lemma clear_loop: "n \<le> length xs \<Longrightarrow> foldE (\<lambda>xs i. arr_set xs i 0) xs [0..<n] = Inr (replicate n 0 @ drop n xs)"
proof (induction n)
  case (Suc n)
  then have "(replicate n 0 @ drop n xs)[n := 0] = replicate n 0 @ 0 # drop (Suc n) xs"
    by (simp add: list_update_append Cons_nth_drop_Suc [symmetric])
  with Suc show ?case by (simp add: foldE_append replicate_append_same [symmetric] del: replicate_append_same)
qed simp

text \<open>The connection as the modules have filled it in before the signaling packet is sent.\<close>

definition new_conn :: "nb__connection_t \<Rightarrow> u64 \<Rightarrow> u32 \<Rightarrow> u32 \<Rightarrow> u32 \<Rightarrow> nb__connection_t" where
  "new_conn x cb h a sa = x\<lparr>callback_f := cb, last_sent_sequence := 1010, last_recv_sequence := 0, inorder_buffer := replicate 32 0,
     max_ooo_sequence := 0, redelivery_buffer := replicate 32 0, remote_host_id := ucast h, remote_app_id := a, local_app_id := sa,
     input_queue := nb__new_data_queue (input_queue x), accept_queue := nb__new_accept_queue (accept_queue x),
     signaling_state := WAITING_FOR_SIGNAL\<rparr>"

text \<open>The connection behind the handshake: the packet 1011 is in the buffer at \<open>q\<close> and in flight.\<close>

definition opened_conn :: "nb__connection_t \<Rightarrow> u64 \<Rightarrow> u32 \<Rightarrow> u32 \<Rightarrow> u32 \<Rightarrow> u64 \<Rightarrow> nb__connection_t" where
  "opened_conn x cb h a sa q = (new_conn x cb h a sa)\<lparr>last_sent_sequence := 1011,
     redelivery_buffer := (replicate 32 0)[19 := q], conn_dst_global_id := sa\<rparr>"

lemma send_after_signaling:
  "simple_env E \<Longrightarrow> send_after E Signaling_Module c p buff len s =
     bindE (run_hooks (hook_send E c p buff len) ([Inorder_Module, Reliable_Module] @ send_tail_modules) (s, 0)) (\<lambda>(s, ret). Inr s)"
  by (simp add: send_after_def m_sequence_def simple_modules_def send_tail_modules_def)

text \<open>The signaling packet goes through the modules from the in-order module on.\<close>

lemma signal_send_view:
  fixes s :: "('t, 'a) nb_state"
  assumes E: "simple_env E" and p: "at_buf s p N f tail" "holds_wire 38 f tail" "f ''total_len'' = 38"
    and c: "c \<noteq> 0" "conns s c = Some x" "good_ids x s" "length (redelivery_buffer x) = 32"
    and pool: "pool_inv (timers s) R H" "R \<union> H \<noteq> Collect valid_timer"
    and tx: "\<And>m s'. transport_state s' = transport_state s \<Longrightarrow> send_packet E m s' = Inr (r m, s'\<lparr>transport_state := tr m\<rparr>)"
  obtains b t w ts where "send_after E Signaling_Module c p buff len s = Inr (s\<lparr>conns := (conns s)(c \<mapsto> x\<lparr>last_sent_sequence := last_sent_sequence x + 1,
        redelivery_buffer := (redelivery_buffer x)[unat (last_sent_sequence x + 1) mod 32 := p]\<rparr>),
      nb__time_now := w, timers := ts, bufs := (bufs s)(p \<mapsto> b), transport_state := tr (take 38 (drop 24 b))\<rparr>)"
    "length b = N" "data_packet x s [] t b" "t \<notin> R \<union> H" "pool_inv ts (insert t R) H"
proof -
  let ?seq = "last_sent_sequence x + 1"
  obtain b1 where b1: "inorder_hook_send E c p s = Inr (HOOK_CONTINUE, s\<lparr>conns := (conns s)(c \<mapsto> x\<lparr>last_sent_sequence := ?seq\<rparr>), bufs := (bufs s)(p \<mapsto> b1)\<rparr>)"
    "at_buf (s\<lparr>bufs := (bufs s)(p \<mapsto> b1)\<rparr>) p N (f(''sequence_number'' := ucast ?seq)) tail"
    using E p(1) c(1,2) by (rule simple_inorder_send)
  let ?s1 = "s\<lparr>conns := (conns s)(c \<mapsto> x\<lparr>last_sent_sequence := ?seq\<rparr>), bufs := (bufs s)(p \<mapsto> b1)\<rparr>" and ?f1 = "f(''sequence_number'' := ucast ?seq)"
  have at1: "at_buf ?s1 p N ?f1 tail" using b1(2) by (simp add: at_buf_def)
  have c1: "conns ?s1 c = Some (x\<lparr>last_sent_sequence := ?seq\<rparr>)" "length (redelivery_buffer (x\<lparr>last_sent_sequence := ?seq\<rparr>)) = 32"
    "?f1 ''sequence_number'' = ucast ?seq" "pool_inv (timers ?s1) R H" using c(4) pool(1) by simp_all
  obtain t w ts b2 where b2: "reliable_hook_send E c p ?s1 = Inr (HOOK_CONTINUE, ?s1\<lparr>conns := (conns ?s1)(c \<mapsto> x\<lparr>last_sent_sequence := ?seq\<rparr>
        \<lparr>redelivery_buffer := (redelivery_buffer (x\<lparr>last_sent_sequence := ?seq\<rparr>))[unat ?seq mod 32 := p]\<rparr>),
      nb__time_now := w, timers := ts, bufs := (bufs ?s1)(p \<mapsto> b2)\<rparr>)"
    "at_buf (?s1\<lparr>bufs := (bufs ?s1)(p \<mapsto> b2)\<rparr>) p N (?f1(''redelivery_timer'' := t, ''ack_sequence_number'' := 0)) tail"
    "t \<noteq> 0" "t \<notin> R \<union> H" "pool_inv ts (insert t R) H" "armed ts t (w + REDELIVERY_TIMEOUT_MS) p" "nb__time_now ?s1 \<noteq> - 1 \<longrightarrow> w = nb__time_now ?s1"
    using E at1 c(1) c1 pool(2) by (rule simple_reliable_send)
  let ?x = "x\<lparr>last_sent_sequence := ?seq, redelivery_buffer := (redelivery_buffer x)[unat ?seq mod 32 := p]\<rparr>"
  let ?s2 = "s\<lparr>conns := (conns s)(c \<mapsto> ?x), nb__time_now := w, timers := ts, bufs := (bufs s)(p \<mapsto> b2)\<rparr>"
  let ?f2 = "?f1(''redelivery_timer'' := t, ''ack_sequence_number'' := 0)"
  have h2: "reliable_hook_send E c p ?s1 = Inr (HOOK_CONTINUE, ?s2)" using b2(1) by simp
  have at2: "at_buf ?s2 p N ?f2 tail" using b2(2) by (simp add: at_buf_def)
  have hw: "holds_wire 38 ?f2 tail" using p(2) by (simp add: holds_wire_def)
  have c2: "conns ?s2 c = Some ?x" "good_ids ?x ?s2" using c(3) by (simp_all add: good_ids_def)
  have tx2: "send_packet E m s' = Inr (r m, s'\<lparr>transport_state := tr m\<rparr>)" if "transport_state s' = transport_state ?s2" for m s'
    using tx that by simp
  obtain b ck tail' where b: "run_hooks (hook_send E c p buff len) send_tail_modules (?s2, 0) =
      Inr (?s2\<lparr>bufs := (bufs ?s2)(p \<mapsto> b), transport_state := tr (take 38 (drop 24 b))\<rparr>, 0)"
    "length b = N" "pkt_is b ((addressed ?x ?s2 ?f2)(''checksum'' := ck)) tail'" "take (38 - 38) tail' = take (38 - 38) tail" "good_sum 38 b"
    using E at2 hw c(1) c2 tx2 by (rule send_tail_view)
  have "f ''computed_total_len'' = 38" using p(2) by (simp add: holds_wire_def)
  then have "data_packet x s [] t b"
    unfolding data_packet_def using b(3,5) p(3) by (intro exI [of _ "(addressed ?x ?s2 ?f2)(''checksum'' := ck)"] exI [of _ tail']) (simp add: addressed_def)
  moreover have "send_after E Signaling_Module c p buff len s = Inr (?s2\<lparr>bufs := (bufs ?s2)(p \<mapsto> b), transport_state := tr (take 38 (drop 24 b))\<rparr>)"
    using E b1(1) h2 b(1) by (simp add: send_after_signaling keep_ret_def)
  ultimately show ?thesis using b(2) b2(4,5) by (intro that) simp_all
qed

text \<open>The signaling packet is built in a new buffer and sent.\<close>

lemma signaling_establish_view:
  fixes s :: "('t, 'a) nb_state"
  assumes E: "simple_env E" and ha: "h \<noteq> 0" "a \<noteq> 0"
    and c: "c \<noteq> 0" "conns s c = Some x" "good_ids x s" "length (redelivery_buffer x) = 32"
    and pool: "pool_inv (timers s) R H" "R \<union> H \<noteq> Collect valid_timer"
    and req: "request_send_buffer E s = Inr (q, s\<lparr>mallocs := k, bufs := (bufs s)(q \<mapsto> b0)\<rparr>)" "q \<noteq> 0" "length b0 = 1024"
    and tx: "\<And>m s'. transport_state s' = transport_state s \<Longrightarrow> send_packet E m s' = Inr (r m, s'\<lparr>transport_state := tr m\<rparr>)"
  obtains b t w ts where "signaling_after_hook_establish E (send_after E Signaling_Module) c h a sa s = Inr (HOOK_CONTINUE, s\<lparr>mallocs := k,
      conns := (conns s)(c \<mapsto> x\<lparr>signaling_state := WAITING_FOR_SIGNAL, last_sent_sequence := last_sent_sequence x + 1,
        redelivery_buffer := (redelivery_buffer x)[unat (last_sent_sequence x + 1) mod 32 := q]\<rparr>),
      nb__time_now := w, timers := ts, bufs := (bufs s)(q \<mapsto> b), transport_state := tr (take 38 (drop 24 b))\<rparr>)"
    "length b = 1024" "data_packet x s [] t b" "t \<notin> R \<union> H" "pool_inv ts (insert t R) H"
proof -
  let ?x = "x\<lparr>signaling_state := WAITING_FOR_SIGNAL\<rparr>"
  let ?s0 = "s\<lparr>mallocs := k, bufs := (bufs s)(q \<mapsto> b0), conns := (conns s)(c \<mapsto> ?x)\<rparr>"
  obtain f0 where f0: "pkt_is b0 f0 (drop 62 b0)" using pkt_is_any [of b0] req(3) by auto
  have at0: "at_buf ?s0 q 1024 f0 (drop 62 b0)" using f0 req by (simp add: at_buf_def)
  have rep: "member_rep simple_layout ''total_len'' 38" "member_rep simple_layout ''computed_total_len'' 38"
    using fits_int [of 38] by (simp_all add: simple_reps)
  obtain b1 where b1: "bindE (pkt_set E ''total_len'' q 38 ?s0) (pkt_set E ''computed_total_len'' q 38) = Inr (?s0\<lparr>bufs := (bufs ?s0)(q \<mapsto> b1)\<rparr>)"
    "at_buf (?s0\<lparr>bufs := (bufs ?s0)(q \<mapsto> b1)\<rparr>) q 1024 (f0(''total_len'' := 38, ''computed_total_len'' := 38)) (drop 62 b0)"
    using E at0 in_header(10) rep(1) in_header(1) rep(2) by (rule pkt_set2_field)
  let ?s1 = "s\<lparr>mallocs := k, bufs := (bufs s)(q \<mapsto> b1), conns := (conns s)(c \<mapsto> ?x)\<rparr>" and ?f = "f0(''total_len'' := 38, ''computed_total_len'' := 38)"
  obtain s' where s': "pkt_set E ''total_len'' q 38 ?s0 = Inr s'" "pkt_set E ''computed_total_len'' q 38 s' = Inr ?s1"
    using b1(1) by (auto simp: bindE_eq_Inr)
  have at1: "at_buf ?s1 q 1024 ?f (drop 62 b0)" using b1(2) by (simp add: at_buf_def)
  have hw: "holds_wire 38 ?f (drop 62 b0)" "?f ''total_len'' = 38" using req(3) by (simp_all add: holds_wire_def)
  have c1: "conns ?s1 c = Some ?x" "good_ids ?x ?s1" "length (redelivery_buffer ?x) = 32" "pool_inv (timers ?s1) R H"
    using c(3,4) pool(1) by (simp_all add: good_ids_def)
  have tx1: "send_packet E m s' = Inr (r m, s'\<lparr>transport_state := tr m\<rparr>)" if "transport_state s' = transport_state ?s1" for m s'
    using tx that by simp
  obtain b t w ts where b: "send_after E Signaling_Module c q [0] 0 ?s1 = Inr (?s1\<lparr>conns := (conns ?s1)(c \<mapsto> ?x\<lparr>last_sent_sequence := last_sent_sequence ?x + 1,
        redelivery_buffer := (redelivery_buffer ?x)[unat (last_sent_sequence ?x + 1) mod 32 := q]\<rparr>),
      nb__time_now := w, timers := ts, bufs := (bufs ?s1)(q \<mapsto> b), transport_state := tr (take 38 (drop 24 b))\<rparr>)"
    "length b = 1024" "data_packet ?x ?s1 [] t b" "t \<notin> R \<union> H" "pool_inv ts (insert t R) H"
    using E at1 hw c(1) c1 pool(2) tx1 by (rule signal_send_view)
  have "(ucast h :: u64) \<noteq> 0" using ha(1) ucast_ucast_u32 [of h] by (metis unsigned_0)
  moreover have "data_packet x s [] t b" using b(3) by (simp add: data_packet_def)
  ultimately show ?thesis
    using E ha(2) c(1,2) req(1) s' b by (intro that [of b ts w t]) (simp_all add: signaling_after_hook_establish_def nb__wildcard_host_identifier_def)
qed

text \<open>The modules in front of the signaling module fill in the connection and its entry.\<close>

definition filled_conn :: "nb__connection_t \<Rightarrow> u64 \<Rightarrow> u32 \<Rightarrow> u32 \<Rightarrow> u32 \<Rightarrow> nb__connection_t" where
  "filled_conn x cb h a sa = (new_conn x cb h a sa)\<lparr>signaling_state := signaling_state x\<rparr>"

lemma establish_front_view:
  assumes E: "simple_env E" and c: "c \<noteq> 0" "conns s c = Some (x\<lparr>callback_f := cb\<rparr>)" "conn_mem x"
    and tab: "routing_table s = None" "ct_inv s" "num_conn s < MAX_ACTIVE_CONNECTIONS"
  shows "run_hooks (hook_establish E c h a sa) (Payload_Module # Signaling_Module # Inorder_Module # Reliable_Module # Identifier_Module # ms) s =
    run_hooks (hook_establish E c h a sa) ms (with_entry c sa a (ucast h) (s\<lparr>conns := (conns s)(c \<mapsto> filled_conn x cb h a sa)\<rparr>))"
proof -
  let ?x1 = "x\<lparr>callback_f := cb, last_sent_sequence := 1010, last_recv_sequence := 0, inorder_buffer := replicate 32 0, max_ooo_sequence := 0\<rparr>"
  let ?s1 = "s\<lparr>conns := (conns s)(c \<mapsto> ?x1)\<rparr>"
  have i: "inorder_hook_establish E c s = Inr (HOOK_CONTINUE, ?s1)"
    using E c clear_loop [of 32 "inorder_buffer x"]
    by (simp add: inorder_hook_establish_def conn_updE_def INORDER_BUFFER_SIZE_def conn_mem_def)
  let ?x2 = "?x1\<lparr>redelivery_buffer := replicate 32 0\<rparr>"
  let ?s2 = "s\<lparr>conns := (conns s)(c \<mapsto> ?x2)\<rparr>"
  have r: "reliable_hook_establish c ?s1 = Inr (HOOK_CONTINUE, ?s2)"
    using c clear_loop [of 32 "redelivery_buffer x"]
    by (simp add: reliable_hook_establish_def conn_updE_def REDELIVERY_BUFFER_SIZE_def conn_mem_def)
  let ?s3 = "s\<lparr>conns := (conns s)(c \<mapsto> filled_conn x cb h a sa)\<rparr>"
  have "ct_inv ?s3" "num_conn ?s3 < MAX_ACTIVE_CONNECTIONS" using tab by (simp_all add: ct_inv_def)
  then have "add_connection E c sa a (ucast h) ?s3 = Inr (with_entry c sa a (ucast h) ?s3)"
    using E by (intro add_connection_entry) simp_all
  then have "identifier_hook_establish E c h a sa ?s2 = Inr (HOOK_CONTINUE, with_entry c sa a (ucast h) ?s3)"
    using c(1) tab(1) by (simp add: identifier_hook_establish_def nb__routing_table_lookup_from_global_def filled_conn_def new_conn_def)
  with i r show ?thesis by (simp add: default_hook_def)
qed

definition after_establish :: "(ipc_state, 'a) nb_env \<Rightarrow> u64 \<Rightarrow> u32 \<Rightarrow> u32 \<Rightarrow> u32 \<Rightarrow> u8 list \<Rightarrow> u64 \<Rightarrow> timer_state \<Rightarrow>
    (ipc_state, 'a) nb_state \<Rightarrow> (ipc_state, 'a) nb_state" where
  "after_establish E cb h a sa b w ts s =
     (let k = mallocs s; c = malloc_addr E k; q = malloc_addr E (k + 1) in
      with_entry c sa a (ucast h) (s\<lparr>mallocs := k + 2, conns := (conns s)(c \<mapsto> opened_conn (malloc_conn E k) cb h a sa q),
        nb__time_now := w, timers := ts, bufs := (bufs s)(q \<mapsto> b), transport_state := sent (take 38 (drop 24 b)) (transport_state s)\<rparr>))"

lemma simple_modules_establish: "simple_modules = Payload_Module # Signaling_Module # Inorder_Module # Reliable_Module #
   Identifier_Module # [Signaling_Module_After, Routing_Module, Checksum_Module, Network_Module]"
  by (simp add: simple_modules_def)

lemma malloc_conn_ipc [simp]: "malloc_conn (ipc_env E) = malloc_conn E"
  by (simp add: ipc_env_def)

lemma unat_u32_host: "unat (ucast (h :: u32) :: u64) < 2 ^ 48"
  using unat_u32 [of h] by simp

lemma establish_over_ipc:
  assumes s: "can_establish E h a sa s" and m: "malloc_ok E (mallocs s) 2"
    and pool: "pool_inv (timers s) R H" "R \<union> H \<noteq> Collect valid_timer"
  obtains b t w ts where "nb__establish (ipc_env E) h a sa cb s = Inr (malloc_addr E (mallocs s), after_establish E cb h a sa b w ts s)"
    "length b = 1024" "data_packet (new_conn (malloc_conn E (mallocs s)) cb h a sa) s [] t b" "t \<notin> R \<union> H" "pool_inv ts (insert t R) H"
proof -
  let ?k = "mallocs s"
  let ?c = "malloc_addr E ?k" and ?q = "malloc_addr E (?k + 1)" and ?M = "malloc_conn E ?k"
  have cq: "?c \<noteq> 0" "?q \<noteq> 0" using malloc_okD(1) [OF m, of 0] malloc_okD(1) [OF m, of 1] by simp_all
  have E: "simple_env (ipc_env E)" "h \<noteq> 0" "a \<noteq> 0" "conn_mem ?M" "quiet (transport_state s)"
    and tab: "routing_table s = None" "ct_inv s" "num_conn s < MAX_ACTIVE_CONNECTIONS"
    and ids: "unat a < 65536" "unat sa < 65536" "unat (nb__my_local_host_id s) < 2 ^ 48" using s by (simp_all add: can_establish_def)
  let ?s0 = "s\<lparr>mallocs := ?k + 1, conns := (conns s)(?c \<mapsto> ?M\<lparr>callback_f := cb\<rparr>)\<rparr>"
  let ?x = "filled_conn ?M cb h a sa"
  let ?s1 = "with_entry ?c sa a (ucast h) (?s0\<lparr>conns := (conns ?s0)(?c \<mapsto> ?x)\<rparr>)"
  have front: "run_hooks (hook_establish (ipc_env E) ?c h a sa) simple_modules ?s0 =
      run_hooks (hook_establish (ipc_env E) ?c h a sa) [Signaling_Module_After, Routing_Module, Checksum_Module, Network_Module] ?s1"
    unfolding simple_modules_establish by (rule establish_front_view) (use E cq tab in \<open>simp_all add: ct_inv_def\<close>)
  have c1: "conns ?s1 ?c = Some ?x" "good_ids ?x ?s1" "length (redelivery_buffer ?x) = 32" "pool_inv (timers ?s1) R H"
    using ids unat_u32_host pool(1) by (simp_all add: good_ids_def filled_conn_def new_conn_def)
  have req: "request_send_buffer (ipc_env E) ?s1 = Inr (?q, ?s1\<lparr>mallocs := ?k + 2, bufs := (bufs ?s1)(?q \<mapsto> map (malloc_byte E (?k + 1)) [0..<1024])\<rparr>)"
    using ipc_request [OF cq(2), of ?s1] by simp
  have q1: "quiet (transport_state ?s1)" using E(5) by simp
  obtain b t w ts where b: "signaling_after_hook_establish (ipc_env E) (send_after (ipc_env E) Signaling_Module) ?c h a sa ?s1 = Inr (HOOK_CONTINUE, ?s1\<lparr>mallocs := ?k + 2,
      conns := (conns ?s1)(?c \<mapsto> ?x\<lparr>signaling_state := WAITING_FOR_SIGNAL, last_sent_sequence := last_sent_sequence ?x + 1,
        redelivery_buffer := (redelivery_buffer ?x)[unat (last_sent_sequence ?x + 1) mod 32 := ?q]\<rparr>),
      nb__time_now := w, timers := ts, bufs := (bufs ?s1)(?q \<mapsto> b), transport_state := sent (take 38 (drop 24 b)) (transport_state ?s1)\<rparr>)"
    "length b = 1024" "data_packet ?x ?s1 [] t b" "t \<notin> R \<union> H" "pool_inv ts (insert t R) H"
    using E(1-3) cq(1) c1 pool(2) req cq(2) _ ipc_tx [OF q1] by (rule signaling_establish_view) simp_all
  have "nb__establish (ipc_env E) h a sa cb s = Inr (?c, after_establish E cb h a sa b w ts s)"
    using E(1) cq(1) front b(1)
    by (simp add: nb__establish_def Let_def run_establish_path_def routing_hook_establish_def default_hook_def after_establish_def
        with_entry_def opened_conn_def new_conn_def filled_conn_def)
  moreover have "data_packet (new_conn ?M cb h a sa) s [] t b" using b(3) by (simp add: data_packet_def filled_conn_def)
  ultimately show ?thesis using b(2,4,5) by (intro that)
qed

section \<open>The listener\<close>

text \<open>
  A connection \<open>x\<close> at \<open>l\<close> that listens for the application \<open>a\<close>: no packet waits in its
  accept queue, and its callback changes the state of the application only.
\<close>

definition listens :: "('t, 'a) nb_env \<Rightarrow> u64 \<Rightarrow> nb__connection_t \<Rightarrow> u32 \<Rightarrow> ('t, 'a) nb_state \<Rightarrow> bool" where
  "listens F l x a u \<longleftrightarrow> l \<noteq> 0 \<and> conns u l = Some x \<and> local_app_id x = a \<and> aq_inv (accept_queue x) \<and> aq_list (accept_queue x) = [] \<and>
     retrieve_wildcard_connection a u = Inr l \<and>
     (\<forall>v. \<exists>w. run_callback F (callback_f x) QUEUE_EVENT_ACCEPT_READY l v = Inr (v\<lparr>app_state := w\<rparr>))"

lemma retrieve_wildcard_updates [simp]:
  "retrieve_wildcard_connection a (s\<lparr>mallocs := k\<rparr>) = retrieve_wildcard_connection a s"
  "retrieve_wildcard_connection a (s\<lparr>bufs := B\<rparr>) = retrieve_wildcard_connection a s"
  "retrieve_wildcard_connection a (s\<lparr>transport_state := tr\<rparr>) = retrieve_wildcard_connection a s"
  by (simp_all add: retrieve_wildcard_connection_def match_wildcard_def [abs_def] cong: if_cong option.case_cong)

lemma listens_updates [simp]:
  "listens F l x a (s\<lparr>mallocs := k\<rparr>) = listens F l x a s"
  "listens F l x a (s\<lparr>bufs := B\<rparr>) = listens F l x a s"
  "listens F l x a (s\<lparr>transport_state := tr\<rparr>) = listens F l x a s"
  by (simp_all add: listens_def)

lemma run_callback_ipc [simp]: "run_callback (ipc_env E) = run_callback E"
  by (simp add: ipc_env_def)

lemma listens_ipc [simp]: "listens (ipc_env F) = listens F"
  by (simp add: listens_def [abs_def] fun_eq_iff)

lemma retrieve_none:
  assumes "simple_env E" "ct_inv s" "(a, r, h) \<notin> ct_key ` set (ct_list s)"
  shows "retrieve_connection E a r h s = Inr 0"
proof -
  have "ct_find (a, r, h) (ct_list s) = 0" using assms(3) by (intro ct_find_None) force
  with assms(1,2) show ?thesis by (simp add: retrieve_connection_key)
qed

text \<open>A packet of an unknown connection is kept with its checksum, and the modules behind the identifier module do not see it.\<close>

lemma listener_ingress:
  assumes F: "simple_env F" and l: "listens F l x a u" and p: "p \<noteq> 0" "bufs u p = Some b" "length payload < 2 ^ 30"
    and b: "arrived b payload seq (nb__my_local_host_id u) a h sa"
    and new: "retrieve_connection F a sa h u = Inr 0"
  obtains b' q w where "nb__run_ingress_step F p len u = Inr (u\<lparr>bufs := (bufs u)(p \<mapsto> b'), conns := (conns u)(l \<mapsto> x\<lparr>accept_queue := q\<rparr>), app_state := w\<rparr>)"
    "arrived b' payload seq (nb__my_local_host_id u) a h sa" "aq_inv q" "aq_list q = [(sa, h, p)]"
proof -
  let ?n = "38 + length payload"
  obtain f tail where d: "pkt_is b f tail" "length payload + length payload mod 2 \<le> length tail" "take (length payload) tail = payload"
    "good_sum ?n b" "f ''total_len'' = of_nat ?n" "f ''sequence_number'' = ucast seq" "f ''ack_sequence_number'' = 0"
    "f ''dst_host_id'' = nb__my_local_host_id u" "f ''dst_app_id'' = ucast a" "f ''src_host_id'' = h" "f ''src_app_id'' = ucast sa"
    using b unfolding arrived_def by blast
  have "?n mod 2 = length payload mod 2" by presburger
  then have n: "38 \<le> ?n" "?n + ?n mod 2 \<le> 38 + length tail" "24 + ?n < 2 ^ 31" using p(3) d(2) by simp_all
  obtain b' ck tail' where b': "nb__run_ingress_step F p len u =
      run_hooks (hook_ingress F p) [Identifier_Module, Reliable_Module, Inorder_Module, Signaling_Module, Payload_Module] (u\<lparr>bufs := (bufs u)(p \<mapsto> b')\<rparr>)"
    "length b' = length b" "pkt_is b' (f(''computed_total_len'' := of_nat ?n, ''checksum'' := ck)) tail'"
    "take (?n - 38) tail' = take (?n - 38) tail" "length tail' = length tail" "good_sum ?n b'"
    using F p(1,2) d(1,4,5) n by (rule ingress_checked_view)
  let ?u = "u\<lparr>bufs := (bufs u)(p \<mapsto> b')\<rparr>" and ?f = "f(''computed_total_len'' := of_nat ?n, ''checksum'' := ck)"
  have at: "at_buf ?u p (length b) ?f tail'" using b'(2,3) p(1) by (simp add: at_buf_def)
  have l': "l \<noteq> 0" "conns u l = Some x" "aq_inv (accept_queue x)" "aq_list (accept_queue x) = []" "retrieve_wildcard_connection a u = Inr l"
    using l by (simp_all add: listens_def)
  have "aq_current_elems (accept_queue x) = 0" using l'(4) by (simp add: aq_list_def)
  then obtain q where q: "nb__insert_accept_queue sa h p (accept_queue x) = Inr q" "aq_inv q" "aq_list q = [(sa, h, p)]"
    using aq_insert_ok [OF l'(3), of sa h p] l'(4) by (auto simp: MAX_ACCEPT_QUEUE_ELEMS_def)
  let ?v = "?u\<lparr>conns := (conns ?u)(l \<mapsto> x\<lparr>accept_queue := q\<rparr>)\<rparr>"
  obtain w where w: "run_callback F (callback_f x) QUEUE_EVENT_ACCEPT_READY l ?v = Inr (?v\<lparr>app_state := w\<rparr>)"
    using l by (auto simp: listens_def)
  have "identifier_hook_ingress F p ?u = Inr (HOOK_DROP, ?v\<lparr>app_state := w\<rparr>)"
    using F at d(8-11) new l'(1,2,5) q(1) w by (simp add: identifier_hook_ingress_def pkt_get_field Let_def conn_updE_def)
  then have "nb__run_ingress_step F p len u = Inr (u\<lparr>bufs := (bufs u)(p \<mapsto> b'), conns := (conns u)(l \<mapsto> x\<lparr>accept_queue := q\<rparr>), app_state := w\<rparr>)"
    unfolding b'(1) by simp
  moreover have "arrived b' payload seq (nb__my_local_host_id u) a h sa"
    unfolding arrived_def using b'(3-6) d(2,3,5-11) by (intro exI [of _ ?f] exI [of _ tail']) simp
  ultimately show ?thesis using q(2,3) by (rule that)
qed

section \<open>Accepting\<close>

lemma ct_updates [simp]:
  "ct_inv (s\<lparr>mallocs := k\<rparr>) = ct_inv s" "ct_inv (s\<lparr>bufs := B\<rparr>) = ct_inv s" "ct_inv (s\<lparr>conns := X\<rparr>) = ct_inv s"
  "ct_inv (s\<lparr>timers := ts\<rparr>) = ct_inv s" "ct_inv (s\<lparr>nb__time_now := w\<rparr>) = ct_inv s" "ct_inv (s\<lparr>transport_state := tr\<rparr>) = ct_inv s"
  "ct_inv (s\<lparr>app_state := ap\<rparr>) = ct_inv s"
  "ct_list (s\<lparr>mallocs := k\<rparr>) = ct_list s" "ct_list (s\<lparr>bufs := B\<rparr>) = ct_list s" "ct_list (s\<lparr>conns := X\<rparr>) = ct_list s"
  "ct_list (s\<lparr>timers := ts\<rparr>) = ct_list s" "ct_list (s\<lparr>nb__time_now := w\<rparr>) = ct_list s" "ct_list (s\<lparr>transport_state := tr\<rparr>) = ct_list s"
  "ct_list (s\<lparr>app_state := ap\<rparr>) = ct_list s"
  by (simp_all add: ct_inv_def ct_list_def)

lemma after_establish_simps [simp]:
  "mallocs (after_establish E cb h a sa b w ts s) = mallocs s + 2" "timers (after_establish E cb h a sa b w ts s) = ts"
  "conns (after_establish E cb h a sa b w ts s) = (conns s)(malloc_addr E (mallocs s) \<mapsto>
     opened_conn (malloc_conn E (mallocs s)) cb h a sa (malloc_addr E (mallocs s + 1)))"
  "bufs (after_establish E cb h a sa b w ts s) = (bufs s)(malloc_addr E (mallocs s + 1) \<mapsto> b)"
  "transport_state (after_establish E cb h a sa b w ts s) = sent (take 38 (drop 24 b)) (transport_state s)"
  "nb__my_local_host_id (after_establish E cb h a sa b w ts s) = nb__my_local_host_id s"
  by (simp_all add: after_establish_def Let_def)

lemma after_establish_retrieve:
  assumes "can_establish E h a sa s"
  shows "retrieve_connection E sa a (ucast h) (after_establish E cb h a sa b w ts s) = Inr (malloc_addr E (mallocs s))"
proof -
  have s: "simple_env E" "ct_inv s" "num_conn s < MAX_ACTIVE_CONNECTIONS" "(sa, a, ucast h) \<notin> ct_key ` set (ct_list s)"
    using assms by (simp_all add: can_establish_def)
  let ?s = "after_establish E cb h a sa b w ts s"
  have "ct_inv ?s" "ct_list ?s = ct_list s @ [(sa, a, ucast h, malloc_addr E (mallocs s))]"
    using s(2,3) by (simp_all add: after_establish_def Let_def with_entry_list)
  with s(1,4) show ?thesis by (intro retrieve_new)
qed

lemma good_ids_opened:
  "can_establish E h a sa s \<Longrightarrow> good_ids (opened_conn x cb h a sa q) s"
  using unat_u32_host [of h] by (simp add: can_establish_def good_ids_def opened_conn_def new_conn_def)

lemma awaits_opened: "conn_mem x \<Longrightarrow> awaits (opened_conn x cb h a sa q) seq"
  by (simp add: awaits_def opened_conn_def new_conn_def conn_mem_def dq_inv_def nb__new_data_queue_def MAX_DATA_QUEUE_ELEMS_def)

lemma opened_queue: "dq_list (input_queue (opened_conn x cb h a sa q)) = []"
  by (simp add: dq_list_def opened_conn_def new_conn_def nb__new_data_queue_def)

text \<open>The connection after its first packet: the one with the number \<open>seq\<close>, whatever the number is.\<close>

definition greeted :: "nb__connection_t \<Rightarrow> data_queue_t \<Rightarrow> u32 \<Rightarrow> nb__connection_t" where
  "greeted x dq seq = x\<lparr>input_queue := dq, last_recv_sequence := seq, signaling_state := SIGNALED\<rparr>"

lemma awaits_greeted:
  assumes "dq_inv dq" "dq_list dq = payload_entry p n"
  shows "awaits (greeted (opened_conn x cb h a sa q) dq seq) (seq + 1)"
proof -
  have "dq_current_elems dq \<le> 1" using length_dq_list [OF assms(1)] assms(2) by (simp add: payload_entry_def split: if_splits)
  with assms(1) show ?thesis by (simp add: awaits_def greeted_def opened_conn_def new_conn_def MAX_DATA_QUEUE_ELEMS_def)
qed

lemma accept_loop_empty:
  "c \<noteq> 0 \<Longrightarrow> conns s c = Some x \<Longrightarrow> aq_current_elems (accept_queue x) = 0 \<Longrightarrow> accept_loop E c a h i s = Some (Inr s)"
  by (subst accept_loop.simps) (simp add: accept_peek_def)

lemma accept_over_ipc:
  assumes u: "can_establish F h sa a u" and m: "malloc_ok F (mallocs u) 3" "\<And>i. i < 3 \<Longrightarrow> malloc_addr F (mallocs u + i) \<noteq> p"
    and pool: "pool_inv (timers u) R H" "R \<union> H \<noteq> Collect valid_timer"
    and l: "l \<noteq> 0" "conns u l = Some x" "local_app_id x = a" "aq_inv (accept_queue x)" "aq_list (accept_queue x) = [(sa, ucast h, p)]" "l \<noteq> malloc_addr F (mallocs u)"
    and p: "p \<noteq> 0" "bufs u p = Some b0" "arrived b0 payload seq (nb__my_local_host_id u) a (ucast h) sa" "length payload < 2 ^ 30"
  obtains u2 b bq t dq where "nb__accept (ipc_env F) l cb u = Inr (malloc_addr F (mallocs u), u2)"
    "conns u2 (malloc_addr F (mallocs u)) = Some (greeted (opened_conn (malloc_conn F (mallocs u)) cb h sa a (malloc_addr F (mallocs u + 1))) dq seq)"
    "dq_inv dq" "dq_list dq = payload_entry p (length payload)"
    "transport_state u2 = sent (take 39 (drop 24 bq)) (sent (take 38 (drop 24 b)) (transport_state u))"
    "mallocs u2 = mallocs u + 3" "nb__my_local_host_id u2 = nb__my_local_host_id u" "t \<notin> R \<union> H" "pool_inv (timers u2) (insert t R) H"
    "retrieve_connection F a sa (ucast h) u2 = Inr (malloc_addr F (mallocs u))"
    "length b = 1024" "data_packet (new_conn (malloc_conn F (mallocs u)) cb h sa a) u [] t b" "bufs u2 (malloc_addr F (mallocs u + 1)) = Some b"
    "length bq = 1024" "ack_packet (opened_conn (malloc_conn F (mallocs u)) cb h sa a (malloc_addr F (mallocs u + 1))) u seq bq"
proof -
  let ?k = "mallocs u"
  let ?d = "malloc_addr F ?k" and ?q = "malloc_addr F (?k + 1)" and ?r = "malloc_addr F (?k + 2)" and ?M = "malloc_conn F ?k"
  have ne: "?d \<noteq> 0" "?q \<noteq> 0" "?r \<noteq> 0" "?q \<noteq> p" "?r \<noteq> p" "?q \<noteq> ?r"
    using malloc_okD(1) [OF m(1), of 0] malloc_okD(1) [OF m(1), of 1] malloc_okD(1) [OF m(1), of 2] malloc_okD(2) [OF m(1), of 1 2] m(2) [of 1] m(2) [of 2] by simp_all
  have F: "simple_env F" "simple_env (ipc_env F)" "conn_mem ?M" "quiet (transport_state u)" using u by (simp_all add: can_establish_def)
  obtain q0 where q0: "aq_pop_last (accept_queue x) = Inr ((sa, ucast h, p), q0)" "aq_list q0 = []"
    using aq_pop_last_ok [OF l(4), of "[]" "(sa, ucast h, p)"] l(5) by auto
  have e0: "aq_current_elems q0 = 0" "aq_current_elems (accept_queue x) \<noteq> 0" using arg_cong [OF q0(2), of length] arg_cong [OF l(5), of length] by (simp_all add: aq_list_def)
  let ?x = "x\<lparr>accept_queue := q0\<rparr>"
  let ?u0 = "u\<lparr>conns := (conns u)(l \<mapsto> ?x)\<rparr>"
  have u0: "can_establish F h sa a ?u0" "malloc_ok F (mallocs ?u0) 2" "pool_inv (timers ?u0) R H"
    using u malloc_ok_drop [OF m(1), of _ 0 2] pool(1) by (simp_all add: can_establish_def)
  obtain b t w ts where b: "nb__establish (ipc_env F) h sa a cb ?u0 = Inr (malloc_addr F (mallocs ?u0), after_establish F cb h sa a b w ts ?u0)"
    "length b = 1024" "data_packet (new_conn (malloc_conn F (mallocs ?u0)) cb h sa a) ?u0 [] t b" "t \<notin> R \<union> H" "pool_inv ts (insert t R) H"
    using u0 pool(2) by (rule establish_over_ipc)
  let ?u1 = "after_establish F cb h sa a b w ts ?u0" and ?y = "opened_conn ?M cb h sa a ?q"
  let ?Y = "?y\<lparr>signaling_state := SIGNALED\<rparr>"
  let ?u2 = "?u1\<lparr>conns := (conns ?u1)(?d \<mapsto> ?Y)\<rparr>"
  have p2: "bufs ?u2 p = Some b0" "arrived b0 payload seq (nb__my_local_host_id ?u2) a (ucast h) sa" using p(2,3) ne(4) by simp_all
  have c2: "retrieve_connection (ipc_env F) a sa (ucast h) ?u2 = Inr ?d" "conns ?u2 ?d = Some ?Y" "good_ids ?Y ?u2" "awaits ?Y seq"
    using after_establish_retrieve [OF u0(1), of cb b w ts] good_ids_opened [OF u, of ?M cb ?q] awaits_opened [OF F(3), of cb h sa a ?q seq]
    by (simp_all add: good_ids_def awaits_def)
  have req: "request_send_buffer (ipc_env F) v = Inr (?r, v\<lparr>mallocs := ?k + 3, bufs := (bufs v)(?r \<mapsto> map (malloc_byte F (?k + 2)) [0..<1024])\<rparr>)"
    if "mallocs v = mallocs ?u2" for v
    using ipc_request [OF ne(3), of v] that by (simp add: numeral_3_eq_3)
  have q2: "quiet (transport_state ?u2)" using F(4) by simp
  obtain bp bq dq where r: "nb__run_ingress_step (ipc_env F) p 0 ?u2 = Inr (?u2\<lparr>mallocs := ?k + 3, bufs := (bufs ?u2)(?r \<mapsto> bq, p \<mapsto> bp),
      conns := (conns ?u2)(?d \<mapsto> ?Y\<lparr>input_queue := dq, last_recv_sequence := seq, signaling_state := signal_of ?Y\<rparr>),
      transport_state := sent (take 39 (drop 24 bq)) (transport_state ?u2)\<rparr>)"
    "length bq = 1024" "ack_packet ?Y ?u2 seq bq" "take (length payload) (drop 62 bp) = payload" "length payload \<le> length (drop 62 bp)"
    "dq_inv dq" "dq_list dq = dq_list (input_queue ?Y) @ payload_entry p (length payload)"
    using F(2) p(1) p2 p(4) c2(1) ne(1) c2(2-4) req ne(3,5) _ ipc_tx [OF q2] by (rule simple_ingress_view) simp_all
  let ?u3 = "?u2\<lparr>mallocs := ?k + 3, bufs := (bufs ?u2)(?r \<mapsto> bq, p \<mapsto> bp), conns := (conns ?u2)(?d \<mapsto> greeted ?y dq seq),
      transport_state := sent (take 39 (drop 24 bq)) (transport_state ?u2)\<rparr>"
  have g: "?Y\<lparr>input_queue := dq, last_recv_sequence := seq, signaling_state := signal_of ?Y\<rparr> = greeted ?y dq seq"
    by (simp add: greeted_def signal_of_def SIGNALED_def WAITING_FOR_SIGNAL_def)
  have loop: "accept_loop (ipc_env F) l sa (ucast h) 0 ?u3 = Some (Inr ?u3)"
    using l(1,6) e0(1) by (intro accept_loop_empty [where x = ?x]) simp_all
  have "nb__accept (ipc_env F) l cb u = Inr (?d, ?u3)"
    using l(1-3) e0(2) q0(1) b(1) r(1) [unfolded g] loop p(1) ne(1) by (simp add: nb__accept_def)
  moreover have "dq_list (input_queue ?Y) = []" by (simp add: opened_conn_def new_conn_def dq_list_def nb__new_data_queue_def)
  moreover have "data_packet (new_conn ?M cb h sa a) u [] t b" "ack_packet ?y u seq bq" using b(3) r(3) by (simp_all add: data_packet_def ack_packet_def)
  moreover have "retrieve_connection F a sa (ucast h) ?u3 = Inr ?d" using c2(1) by simp
  moreover have "bufs ?u3 ?q = Some b" using ne(4,6) by simp
  ultimately show ?thesis using b(2,4,5) r(2,6,7) by (intro that [of ?u3]) simp_all
qed

section \<open>Both ends\<close>

text \<open>
  An end that has sent its signaling packet, which is still to be acknowledged, and has received that
  of the other end. \<open>R\<close> and \<open>H\<close> are the timers that ran and were held before.
\<close>

definition end_open :: "(ipc_state, 'a) nb_env \<Rightarrow> u64 \<Rightarrow> u32 \<Rightarrow> u32 \<Rightarrow> u32 \<Rightarrow> u64 set \<Rightarrow> u64 set \<Rightarrow> (ipc_state, 'a) nb_state \<Rightarrow> bool" where
  "end_open E c h a sa R H v \<longleftrightarrow> (\<exists>x cb q dq f tail.
     conns v c = Some (greeted (opened_conn x cb h a sa q) dq 1011) \<and> dq_inv dq \<and> dq_list dq = [] \<and>
     at_buf v q 1024 f tail \<and> f ''redelivery_timer'' \<notin> R \<union> H \<and> pool_inv (timers v) (insert (f ''redelivery_timer'') R) H \<and>
     malloc_ok E (mallocs v) 3 \<and> malloc_addr E (mallocs v) \<noteq> q \<and> simple_env E \<and> c \<noteq> 0 \<and> good_ids (opened_conn x cb h a sa q) v \<and>
     quiet (transport_state v) \<and> sock_in (transport_state v) = [] \<and> retrieve_connection E sa a (ucast h) v = Inr c)"

lemma end_openI:
  assumes "conns v c = Some (greeted (opened_conn x cb h a sa q) dq 1011)" "dq_inv dq" "dq_list dq = []"
    "at_buf v q 1024 f tail" "f ''redelivery_timer'' = t" "t \<notin> R \<union> H" "pool_inv (timers v) (insert t R) H"
    "malloc_ok E (mallocs v) 3" "malloc_addr E (mallocs v) \<noteq> q" "simple_env E" "c \<noteq> 0" "good_ids (opened_conn x cb h a sa q) v"
    "quiet (transport_state v)" "sock_in (transport_state v) = []" "retrieve_connection E sa a (ucast h) v = Inr c"
  shows "end_open E c h a sa R H v"
  using assms unfolding end_open_def by blast

text \<open>An end of a connection with nothing in flight, and what follows for two such ends.\<close>

definition end_ready :: "(ipc_state, 'a) nb_env \<Rightarrow> u64 \<Rightarrow> u32 \<Rightarrow> u32 \<Rightarrow> u32 \<Rightarrow> (ipc_state, 'a) nb_state \<Rightarrow> bool" where
  "end_ready E c h a sa v \<longleftrightarrow> (\<exists>x. conns v c = Some x \<and> remote_host_id x = ucast h \<and> remote_app_id x = a \<and> local_app_id x = sa \<and>
     last_sent_sequence x = 1011 \<and> awaits x 1012 \<and> length (redelivery_buffer x) = 32 \<and> dq_list (input_queue x) = [] \<and> signaling_state x = SIGNALED \<and>
     malloc_ok E (mallocs v) 2 \<and> simple_env E \<and> c \<noteq> 0 \<and> good_ids x v \<and> quiet (transport_state v) \<and> sock_in (transport_state v) = [] \<and>
     retrieve_connection E sa a (ucast h) v = Inr c)"

definition connected :: "(ipc_state, 'a) nb_env \<Rightarrow> u64 \<Rightarrow> (ipc_state, 'a) nb_state \<Rightarrow> (ipc_state, 'b) nb_env \<Rightarrow> u64 \<Rightarrow> (ipc_state, 'b) nb_state \<Rightarrow> bool" where
  "connected E c s F d u \<longleftrightarrow> (\<exists>x y. can_send E c x s \<and>
     can_receive F d y (remote_app_id x) (local_app_id x) (nb__my_local_host_id s) (last_sent_sequence x + 1) u \<and>
     nb__my_local_host_id u = remote_host_id x \<and> dq_list (input_queue y) = [] \<and> sock_in (transport_state u) = [] \<and>
     signaling_state x = SIGNALED \<and> signaling_state y = SIGNALED)"

lemma ready_connected:
  assumes "end_ready E c h a sa s" "end_ready F d hc sa a u" "nb__my_local_host_id s = ucast hc" "nb__my_local_host_id u = ucast h"
  shows "connected E c s F d u"
proof -
  obtain x where x: "conns s c = Some x" "remote_host_id x = ucast h" "remote_app_id x = a" "local_app_id x = sa" "last_sent_sequence x = 1011"
    "length (redelivery_buffer x) = 32" "malloc_ok E (mallocs s) 2" "simple_env E" "c \<noteq> 0" "good_ids x s" "quiet (transport_state s)" "signaling_state x = SIGNALED"
    using assms(1) unfolding end_ready_def by blast
  obtain y where y: "conns u d = Some y" "awaits y 1012" "dq_list (input_queue y) = []" "malloc_ok F (mallocs u) 2" "simple_env F" "d \<noteq> 0" "good_ids y u"
    "quiet (transport_state u)" "sock_in (transport_state u) = []" "retrieve_connection F a sa (ucast hc) u = Inr d" "signaling_state y = SIGNALED"
    using assms(2) unfolding end_ready_def by blast
  have "malloc_addr E (mallocs s) \<noteq> 0" "malloc_addr F (mallocs u) \<noteq> 0" "malloc_addr F (mallocs u + 1) \<noteq> 0"
    "malloc_addr F (mallocs u + 1) \<noteq> malloc_addr F (mallocs u)"
    using malloc_okD(1) [OF x(7), of 0] malloc_okD(1) [OF y(4), of 0] malloc_okD(1) [OF y(4), of 1] malloc_okD(2) [OF y(4), of 1 0] by simp_all
  with x y assms(3,4) show ?thesis unfolding connected_def can_send_def can_receive_def by (intro exI [of _ x] exI [of _ y]) simp
qed

text \<open>The acknowledgement of the signaling packet.\<close>

lemma end_acknowledged:
  assumes v: "end_open E c h a sa R H v" "nb__my_local_host_id v = remote_host_id y"
    and b: "ack_packet y u 1011 b" "length b = 1024"
    and y: "remote_app_id y = sa" "local_app_id y = a" "nb__my_local_host_id u = ucast h"
  obtains v' where "take_packet (ipc_env E) (arrives (take 39 (drop 24 b)) v) = Inr v'" "end_ready E c h a sa v'" "pool_inv (timers v') R H"
    "nb__my_local_host_id v' = nb__my_local_host_id v"
proof -
  obtain x cb q dq f tail where o: "conns v c = Some (greeted (opened_conn x cb h a sa q) dq 1011)" "dq_inv dq" "dq_list dq = []"
    "at_buf v q 1024 f tail" "f ''redelivery_timer'' \<notin> R \<union> H" "pool_inv (timers v) (insert (f ''redelivery_timer'') R) H"
    "malloc_ok E (mallocs v) 3" "malloc_addr E (mallocs v) \<noteq> q" "simple_env E" "c \<noteq> 0" "good_ids (opened_conn x cb h a sa q) v"
    "quiet (transport_state v)" "sock_in (transport_state v) = []" "retrieve_connection E sa a (ucast h) v = Inr c"
    using v(1) unfolding end_open_def by blast
  let ?x = "greeted (opened_conn x cb h a sa q) dq 1011"
  have red: "redelivery_buffer ?x = (replicate 32 0)[19 := q]" by (simp add: greeted_def opened_conn_def)
  have len: "length (redelivery_buffer ?x) = 32" "redelivery_buffer ?x ! (unat (1011 :: u32) mod 32) = q" "(1011 :: u32) \<noteq> 0" by (simp_all add: red)
  have m: "malloc_addr E (mallocs v) \<noteq> 0" using malloc_okD(1) [OF o(7), of 0] by simp
  have ids: "remote_host_id y = nb__my_local_host_id v" "retrieve_connection E (remote_app_id y) (local_app_id y) (nb__my_local_host_id u) v = Inr c"
    using v(2) y o(14) by simp_all
  let ?x' = "?x\<lparr>redelivery_buffer := (redelivery_buffer ?x)[unat (1011 :: u32) mod 32 := 0]\<rparr>"
  obtain b' tb ts where r: "take_packet (ipc_env E) (arrives (take 39 (drop 24 b)) v) = Inr (v\<lparr>mallocs := mallocs v + 1,
      transport_state := (transport_state v)\<lparr>sock_in := [], temp_buf := tb\<rparr>, bufs := (bufs v)(malloc_addr E (mallocs v) \<mapsto> b'), timers := ts,
      conns := (conns v)(c \<mapsto> ?x')\<rparr>)" "pool_inv ts R H" "quiet ((transport_state v)\<lparr>sock_in := [], temp_buf := tb\<rparr>)"
    using o(9,10,1) len(1,2) o(4) refl o(6,5,12,13) m o(8) b len(3) ids by (rule ack_over_ipc)
  let ?v = "v\<lparr>mallocs := mallocs v + 1, transport_state := (transport_state v)\<lparr>sock_in := [], temp_buf := tb\<rparr>,
      bufs := (bufs v)(malloc_addr E (mallocs v) \<mapsto> b'), timers := ts, conns := (conns v)(c \<mapsto> ?x')\<rparr>"
  have "awaits ?x 1012" using awaits_greeted [OF o(2), of 0 0 x cb h a sa q 1011] o(3) by (simp add: payload_entry_def)
  then have "awaits ?x' 1012" by (simp add: awaits_def)
  moreover have "malloc_ok E (mallocs ?v) 2" using malloc_ok_drop [OF o(7), of _ 1 2] by simp
  moreover have "good_ids ?x' ?v" using o(11) by (simp add: good_ids_def greeted_def)
  moreover have "last_sent_sequence ?x' = 1011" "remote_host_id ?x' = ucast h" "remote_app_id ?x' = a" "local_app_id ?x' = sa"
    "dq_list (input_queue ?x') = []" "signaling_state ?x' = SIGNALED" "length (redelivery_buffer ?x') = 32"
    using o(3) len(1) by (simp_all add: greeted_def opened_conn_def new_conn_def)
  ultimately have "end_ready E c h a sa ?v" unfolding end_ready_def using o(9,10,14) r(3) by (intro exI [of _ ?x']) simp
  then show ?thesis by (intro that [OF r(1)]) (use r(2) in simp_all)
qed

text \<open>The client when the signaling packet of the other end arrives.\<close>

lemma client_signaled:
  assumes s: "can_establish E h a sa s" "malloc_ok E (mallocs s) 7" "sock_in (transport_state s) = []"
    and b: "data_packet x0 s [] t b" "length b = 1024" "t \<notin> R \<union> H" "pool_inv ts (insert t R) H"
    and b2: "data_packet y0 u [] t2 b2" "length b2 = 1024" "remote_app_id y0 = sa" "local_app_id y0 = a"
      "remote_host_id y0 = nb__my_local_host_id s" "last_sent_sequence y0 = 1010" "nb__my_local_host_id u = ucast h"
  obtains s2 bq where "take_packet (ipc_env E) (arrives (take 38 (drop 24 b2)) (after_establish E cb h a sa b w ts s)) = Inr s2"
    "end_open E (malloc_addr E (mallocs s)) h a sa R H s2" "nb__my_local_host_id s2 = nb__my_local_host_id s" "length bq = 1024"
    "ack_packet (opened_conn (malloc_conn E (mallocs s)) cb h a sa (malloc_addr E (mallocs s + 1))) s 1011 bq"
    "sock_out (transport_state s2) = sock_out (transport_state s) @ [take 38 (drop 24 b), take 39 (drop 24 bq)]"
proof -
  let ?k = "mallocs s" and ?s1 = "after_establish E cb h a sa b w ts s"
  let ?c = "malloc_addr E ?k" and ?q = "malloc_addr E (?k + 1)"
  let ?x = "opened_conn (malloc_conn E ?k) cb h a sa ?q"
  have E: "simple_env E" "quiet (transport_state s)" "conn_mem (malloc_conn E ?k)" using s(1) by (simp_all add: can_establish_def)
  note m = malloc_okD(1) [OF s(2)] and md = malloc_okD(2) [OF s(2)]
  have m0: "?c \<noteq> 0" "malloc_addr E (?k + 2) \<noteq> 0" "malloc_addr E (?k + 2 + 1) \<noteq> 0" "malloc_addr E (?k + 2 + 1) \<noteq> malloc_addr E (?k + 2)"
    "malloc_addr E (?k + 2) \<noteq> ?q" "malloc_addr E (?k + 2 + 1) \<noteq> ?q" "malloc_addr E (?k + 4) \<noteq> ?q"
    using m [of 0] m [of 2] m [of 3] md [of 3 2] md [of 2 1] md [of 3 1] md [of 4 1] by (simp_all add: numeral_3_eq_3)
  have rcv: "can_receive E ?c ?x (remote_app_id y0) (local_app_id y0) (nb__my_local_host_id u) (last_sent_sequence y0 + 1) ?s1"
    using E m0 b2 good_ids_opened [OF s(1), of "malloc_conn E ?k" cb ?q] awaits_opened [OF E(3), of cb h a sa ?q 1011] after_establish_retrieve [OF s(1), of cb b w ts]
    by (simp add: can_receive_def good_ids_def)
  have sock: "nb__my_local_host_id ?s1 = remote_host_id y0" "sock_in (transport_state ?s1) = []" "length ([] :: u8 list) \<le> 961" using b2(5) s(3) by simp_all
  obtain bp bq dq tb where r0: "take_packet (ipc_env E) (arrives (take (38 + length ([] :: u8 list)) (drop 24 b2)) ?s1) =
      Inr (after_receive E ?c ?x (last_sent_sequence y0 + 1) bp bq dq tb ?s1)" "quiet ((transport_state ?s1)\<lparr>sock_in := [], temp_buf := tb\<rparr>)"
    "length bq = 1024" "ack_packet ?x ?s1 (last_sent_sequence y0 + 1) bq"
    "take (length ([] :: u8 list)) (drop 62 bp) = []" "length ([] :: u8 list) \<le> length (drop 62 bp)"
    "dq_inv dq" "dq_list dq = dq_list (input_queue ?x) @ payload_entry (malloc_addr E (mallocs ?s1)) (length ([] :: u8 list))"
    using rcv sock(1,2) b2(1,2) sock(3) by (rule receive_over_ipc_state)
  have seq: "last_sent_sequence y0 + 1 = 1011" using b2(6) by simp
  have r: "take_packet (ipc_env E) (arrives (take 38 (drop 24 b2)) ?s1) = Inr (after_receive E ?c ?x 1011 bp bq dq tb ?s1)"
    "quiet ((transport_state ?s1)\<lparr>sock_in := [], temp_buf := tb\<rparr>)" "length bq = 1024" "ack_packet ?x ?s1 1011 bq" "dq_inv dq" "dq_list dq = []"
    using r0(1-4,7,8) by (simp_all add: seq opened_queue payload_entry_def)
  let ?s2 = "after_receive E ?c ?x 1011 bp bq dq tb ?s1"
  obtain f tail where f: "pkt_is b f tail" "f ''redelivery_timer'' = t" using b(1) unfolding data_packet_def by blast
  have "?x\<lparr>input_queue := dq, last_recv_sequence := 1011, signaling_state := signal_of ?x\<rparr> = greeted ?x dq 1011"
    by (simp add: greeted_def signal_of_def opened_conn_def new_conn_def)
  then have s2: "conns ?s2 ?c = Some (greeted ?x dq 1011)" by (simp add: after_receive_def)
  have "?q \<noteq> 0" using m [of 1] by simp
  then have q: "at_buf ?s2 ?q 1024 f tail" using f(1) b(2) m0(5,6) [symmetric] by (simp add: at_buf_def after_receive_def)
  have k2: "mallocs ?s2 = ?k + 4" by (simp add: after_receive_def)
  have k3: "malloc_ok E (mallocs ?s2) 3" by (rule malloc_ok_drop [OF s(2) k2]) simp
  have k4: "malloc_addr E (mallocs ?s2) \<noteq> ?q" using m0(7) unfolding k2 .
  have ids: "good_ids ?x ?s2" using good_ids_opened [OF s(1)] by (simp add: good_ids_def after_receive_def)
  have tr: "quiet (transport_state ?s2)" "sock_in (transport_state ?s2) = []" "retrieve_connection E sa a (ucast h) ?s2 = Inr ?c"
    using r(2) after_establish_retrieve [OF s(1), of cb b w ts] by (simp_all add: after_receive_def)
  have pool: "pool_inv (timers ?s2) (insert t R) H" using b(4) by (simp add: after_receive_def)
  have "end_open E ?c h a sa R H ?s2"
    using s2 r(5,6) q f(2) b(3) pool k3 k4 E(1) m0(1) ids tr by (rule end_openI)
  moreover have "ack_packet ?x s 1011 bq" using r(4) by (simp add: ack_packet_def)
  ultimately show ?thesis using r(1,3) by (intro that [of ?s2 bq]) (simp_all add: after_receive_def)
qed

text \<open>The listener when the signaling packet of a client arrives.\<close>

lemma listen_over_ipc:
  assumes F: "simple_env F" and l: "listens F l x a u" and sock: "quiet (transport_state u)" "sock_in (transport_state u) = []"
    and p: "malloc_addr F (mallocs u) = p" "p \<noteq> 0"
    and b: "data_packet x0 s [] t b" "length b = 1024" "remote_host_id x0 = nb__my_local_host_id u" "remote_app_id x0 = a" "local_app_id x0 = sa"
    and new: "ct_inv u" "(a, sa, nb__my_local_host_id s) \<notin> ct_key ` set (ct_list u)"
  obtains b' q v tb where "take_packet (ipc_env F) (arrives (take 38 (drop 24 b)) u) = Inr (u\<lparr>mallocs := mallocs u + 1,
      transport_state := (transport_state u)\<lparr>sock_in := [], temp_buf := tb\<rparr>, bufs := (bufs u)(p \<mapsto> b'),
      conns := (conns u)(l \<mapsto> x\<lparr>accept_queue := q\<rparr>), app_state := v\<rparr>)"
    "quiet ((transport_state u)\<lparr>sock_in := [], temp_buf := tb\<rparr>)" "aq_inv q" "aq_list q = [(sa, nb__my_local_host_id s, p)]"
    "arrived b' [] (last_sent_sequence x0 + 1) (nb__my_local_host_id u) a (nb__my_local_host_id s) sa"
proof -
  let ?m = "take 38 (drop 24 b)"
  have m: "length ?m = 38" using b(2) by simp
  then have m': "?m \<noteq> []" "length ?m \<le> 1024" by auto
  obtain b2 tb where b2: "take_packet (ipc_env F) (arrives ?m u) = nb__run_ingress_step (ipc_env F) p (int (length ?m)) (u\<lparr>mallocs := mallocs u + 1,
      transport_state := (transport_state u)\<lparr>sock_in := [], temp_buf := tb\<rparr>, bufs := (bufs u)(p \<mapsto> b2)\<rparr>)"
    "length b2 = 1048" "take (length ?m) (drop 24 b2) = ?m" "quiet ((transport_state u)\<lparr>sock_in := [], temp_buf := tb\<rparr>)"
    using F sock m' p by (rule take_arrived)
  let ?u = "u\<lparr>mallocs := mallocs u + 1, transport_state := (transport_state u)\<lparr>sock_in := [], temp_buf := tb\<rparr>, bufs := (bufs u)(p \<mapsto> b2)\<rparr>"
  have "take 38 (drop 24 b2) = ?m" using b2(3) unfolding m .
  then have arr: "arrived b2 [] (last_sent_sequence x0 + 1) (nb__my_local_host_id ?u) a (nb__my_local_host_id s) sa"
    using data_packet_arrives [OF b(1,2) _ b2(2)] b(3-5) by simp
  have l1: "simple_env (ipc_env F)" "listens (ipc_env F) l x a ?u" "bufs ?u p = Some b2" "length ([] :: u8 list) < 2 ^ 30" using F l by simp_all
  have "retrieve_connection (ipc_env F) a sa (nb__my_local_host_id s) ?u = Inr 0" using retrieve_none [OF F new] by simp
  with l1(1,2) p(2) l1(3,4) arr obtain b' q v where r: "nb__run_ingress_step (ipc_env F) p (int (length ?m)) ?u =
      Inr (?u\<lparr>bufs := (bufs ?u)(p \<mapsto> b'), conns := (conns ?u)(l \<mapsto> x\<lparr>accept_queue := q\<rparr>), app_state := v\<rparr>)"
    "arrived b' [] (last_sent_sequence x0 + 1) (nb__my_local_host_id ?u) a (nb__my_local_host_id s) sa" "aq_inv q" "aq_list q = [(sa, nb__my_local_host_id s, p)]"
    by (rule listener_ingress)
  from b2(1) r(1) have "take_packet (ipc_env F) (arrives ?m u) = Inr (u\<lparr>mallocs := mallocs u + 1,
      transport_state := (transport_state u)\<lparr>sock_in := [], temp_buf := tb\<rparr>, bufs := (bufs u)(p \<mapsto> b'),
      conns := (conns u)(l \<mapsto> x\<lparr>accept_queue := q\<rparr>), app_state := v\<rparr>)" by simp
  then show ?thesis using b2(4) r(2-4) by (intro that) simp_all
qed

text \<open>The listener accepts: it answers with its own signaling packet and an acknowledgement.\<close>

lemma server_accepts:
  assumes u: "can_establish F hc sa a u" "malloc_ok F (mallocs u) 7" "sock_in (transport_state u) = []"
    and l: "listens F l x a u" "conns u (malloc_addr F (mallocs u + 1)) = None"
    and pool: "pool_inv (timers u) R H" "R \<union> H \<noteq> Collect valid_timer"
    and b: "data_packet x0 s [] t b" "length b = 1024" "remote_host_id x0 = nb__my_local_host_id u" "remote_app_id x0 = a" "local_app_id x0 = sa"
      "last_sent_sequence x0 = 1010" "nb__my_local_host_id s = ucast hc"
  obtains u1 u2 m q b2 t2 bq where "take_packet (ipc_env F) (arrives (take 38 (drop 24 b)) u) = Inr u1"
    "nb__accept (ipc_env F) l cb u1 = Inr (malloc_addr F (mallocs u + 1), u2)" "end_open F (malloc_addr F (mallocs u + 1)) hc sa a R H u2"
    "nb__my_local_host_id u1 = nb__my_local_host_id u" "nb__my_local_host_id u2 = nb__my_local_host_id u"
    "sock_out (transport_state u2) = sock_out (transport_state u) @ [take 38 (drop 24 b2), take 39 (drop 24 bq)]"
    "length b2 = 1024" "data_packet (new_conn m cb hc sa a) u1 [] t2 b2" "length bq = 1024" "ack_packet (opened_conn m cb hc sa a q) u1 1011 bq"
proof -
  let ?k = "mallocs u"
  let ?p = "malloc_addr F ?k" and ?d = "malloc_addr F (?k + 1)" and ?q = "malloc_addr F (?k + 1 + 1)" and ?M = "malloc_conn F (?k + 1)"
  have F: "simple_env F" "quiet (transport_state u)" "ct_inv u" "(a, sa, nb__my_local_host_id s) \<notin> ct_key ` set (ct_list u)"
    using u(1) b(7) by (simp_all add: can_establish_def)
  note m = malloc_okD(1) [OF u(2)] and md = malloc_okD(2) [OF u(2)]
  have p: "?p \<noteq> 0" "?d \<noteq> 0" "?q \<noteq> 0" using m [of 0] m [of 1] m [of 2] by simp_all
  obtain b' q v tb where r: "take_packet (ipc_env F) (arrives (take 38 (drop 24 b)) u) = Inr (u\<lparr>mallocs := ?k + 1,
      transport_state := (transport_state u)\<lparr>sock_in := [], temp_buf := tb\<rparr>, bufs := (bufs u)(?p \<mapsto> b'),
      conns := (conns u)(l \<mapsto> x\<lparr>accept_queue := q\<rparr>), app_state := v\<rparr>)"
    "quiet ((transport_state u)\<lparr>sock_in := [], temp_buf := tb\<rparr>)" "aq_inv q" "aq_list q = [(sa, nb__my_local_host_id s, ?p)]"
    "arrived b' [] (last_sent_sequence x0 + 1) (nb__my_local_host_id u) a (nb__my_local_host_id s) sa"
    using F(1) l(1) F(2) u(3) refl p(1) b(1-5) F(3,4) by (rule listen_over_ipc)
  let ?u1 = "u\<lparr>mallocs := ?k + 1, transport_state := (transport_state u)\<lparr>sock_in := [], temp_buf := tb\<rparr>, bufs := (bufs u)(?p \<mapsto> b'),
      conns := (conns u)(l \<mapsto> x\<lparr>accept_queue := q\<rparr>), app_state := v\<rparr>" and ?x = "x\<lparr>accept_queue := q\<rparr>"
  have k1: "mallocs ?u1 = ?k + 1" by simp
  have u1: "can_establish F hc sa a ?u1" using u(1) r(2) by (simp add: can_establish_def)
  have m1: "malloc_ok F (mallocs ?u1) 3" by (rule malloc_ok_drop [OF u(2) k1]) simp
  have m2: "malloc_addr F (mallocs ?u1 + i) \<noteq> ?p" if "i < 3" for i using md [of "1 + i" 0] that by (simp add: add.assoc)
  have pool1: "pool_inv (timers ?u1) R H" using pool(1) by simp
  have l1: "l \<noteq> 0" "conns ?u1 l = Some ?x" "local_app_id ?x = a" "aq_inv (accept_queue ?x)" "aq_list (accept_queue ?x) = [(sa, ucast hc, ?p)]"
    "l \<noteq> malloc_addr F (mallocs ?u1)" using l r(3,4) b(7) by (auto simp: listens_def)
  have p1: "bufs ?u1 ?p = Some b'" "arrived b' [] 1011 (nb__my_local_host_id ?u1) a (ucast hc) sa" "length ([] :: u8 list) < 2 ^ 30"
    using r(5) b(6,7) by simp_all
  obtain u2 b2 bq t2 dq where a: "nb__accept (ipc_env F) l cb ?u1 = Inr (malloc_addr F (mallocs ?u1), u2)"
    "conns u2 (malloc_addr F (mallocs ?u1)) = Some (greeted (opened_conn (malloc_conn F (mallocs ?u1)) cb hc sa a (malloc_addr F (mallocs ?u1 + 1))) dq 1011)"
    "dq_inv dq" "dq_list dq = payload_entry ?p (length ([] :: u8 list))"
    "transport_state u2 = sent (take 39 (drop 24 bq)) (sent (take 38 (drop 24 b2)) (transport_state ?u1))"
    "mallocs u2 = mallocs ?u1 + 3" "nb__my_local_host_id u2 = nb__my_local_host_id ?u1" "t2 \<notin> R \<union> H" "pool_inv (timers u2) (insert t2 R) H"
    "retrieve_connection F a sa (ucast hc) u2 = Inr (malloc_addr F (mallocs ?u1))"
    "length b2 = 1024" "data_packet (new_conn (malloc_conn F (mallocs ?u1)) cb hc sa a) ?u1 [] t2 b2" "bufs u2 (malloc_addr F (mallocs ?u1 + 1)) = Some b2"
    "length bq = 1024" "ack_packet (opened_conn (malloc_conn F (mallocs ?u1)) cb hc sa a (malloc_addr F (mallocs ?u1 + 1))) ?u1 1011 bq"
    using u1 m1 m2 pool1 pool(2) l1 p(1) p1 by (rule accept_over_ipc)
  note a' = a [unfolded k1]
  obtain f tail where f: "pkt_is b2 f tail" "f ''redelivery_timer'' = t2" using a(12) unfolding data_packet_def by blast
  have at: "at_buf u2 ?q 1024 f tail" using a'(13) f(1) a(11) p(3) by (simp add: at_buf_def)
  have k2: "mallocs u2 = ?k + 4" using a'(6) by simp
  have k3: "malloc_ok F (mallocs u2) 3" by (rule malloc_ok_drop [OF u(2) k2]) simp
  have k4: "malloc_addr F (mallocs u2) \<noteq> ?q" using md [of 4 2] unfolding k2 by simp
  have dq: "dq_list dq = []" using a(4) by (simp add: payload_entry_def)
  have ids: "good_ids (opened_conn ?M cb hc sa a ?q) u2" using good_ids_opened [OF u1, of ?M cb ?q] a(7) by (simp add: good_ids_def)
  have tr: "quiet (transport_state u2)" "sock_in (transport_state u2) = []" using a(5) r(2) by simp_all
  have eo: "end_open F ?d hc sa a R H u2"
    using a'(2,3) dq at f(2) a(8,9) k3 k4 F(1) p(2) ids tr a'(10) by (rule end_openI)
  show ?thesis by (rule that [OF r(1) a'(1) eo _ _ _ a'(11,12,14,15)]) (use a(5,7) in simp_all)
qed

section \<open>The handshake\<close>

text \<open>
  C1. When a node opens a connection to an application for which the other node listens, the
  handshake succeeds: \<open>nb__establish\<close> puts one message on the socket; when it arrives,
  \<open>nb__accept\<close> returns a connection and puts a signaling packet and an acknowledgement on the
  socket; the signaling packet connects the client, which acknowledges it. After the two
  acknowledgements both ends are signaled, each end can send and the other receives it next, and no
  timer is left over at either node.
\<close>

theorem connection_established:
  assumes client: "can_establish E h a sa s" "malloc_ok E (mallocs s) 7" "sock_in (transport_state s) = []"
      "pool_inv (timers s) R H" "R \<union> H \<noteq> Collect valid_timer"
    and server: "can_establish F hc sa a u" "malloc_ok F (mallocs u) 7" "sock_in (transport_state u) = []"
      "listens F l x a u" "conns u (malloc_addr F (mallocs u + 1)) = None" "pool_inv (timers u) R' H'" "R' \<union> H' \<noteq> Collect valid_timer"
    and hosts: "nb__my_local_host_id s = ucast hc" "nb__my_local_host_id u = ucast h"
  shows "\<exists>c s1 m1 u1 d u2 m2 a1 s2 a2 s3 u3.
    nb__establish (ipc_env E) h a sa cb s = Inr (c, s1) \<and> sock_out (transport_state s1) = sock_out (transport_state s) @ [m1] \<and>
    take_packet (ipc_env F) (arrives m1 u) = Inr u1 \<and> nb__accept (ipc_env F) l cb' u1 = Inr (d, u2) \<and>
    sock_out (transport_state u2) = sock_out (transport_state u) @ [m2, a1] \<and>
    take_packet (ipc_env E) (arrives m2 s1) = Inr s2 \<and> sock_out (transport_state s2) = sock_out (transport_state s1) @ [a2] \<and>
    take_packet (ipc_env E) (arrives a1 s2) = Inr s3 \<and> take_packet (ipc_env F) (arrives a2 u2) = Inr u3 \<and>
    connected E c s3 F d u3 \<and> connected F d u3 E c s3 \<and> pool_inv (timers s3) R H \<and> pool_inv (timers u3) R' H'"
proof -
  let ?c = "malloc_addr E (mallocs s)" and ?d = "malloc_addr F (mallocs u + 1)"
  let ?x = "new_conn (malloc_conn E (mallocs s)) cb h a sa"
  have "malloc_ok E (mallocs s) 2" by (rule malloc_ok_drop [OF client(2), of _ 0]) simp_all
  from client(1) this client(4,5) obtain b t w ts where e: "nb__establish (ipc_env E) h a sa cb s = Inr (?c, after_establish E cb h a sa b w ts s)"
    "length b = 1024" "data_packet ?x s [] t b" "t \<notin> R \<union> H" "pool_inv ts (insert t R) H" by (rule establish_over_ipc)
  have x: "remote_host_id ?x = nb__my_local_host_id u" "remote_app_id ?x = a" "local_app_id ?x = sa" "last_sent_sequence ?x = 1010"
    using hosts(2) by (simp_all add: new_conn_def)
  obtain u1 u2 m q b2 t2 bq where v: "take_packet (ipc_env F) (arrives (take 38 (drop 24 b)) u) = Inr u1"
    "nb__accept (ipc_env F) l cb' u1 = Inr (?d, u2)" "end_open F ?d hc sa a R' H' u2"
    "nb__my_local_host_id u1 = nb__my_local_host_id u" "nb__my_local_host_id u2 = nb__my_local_host_id u"
    "sock_out (transport_state u2) = sock_out (transport_state u) @ [take 38 (drop 24 b2), take 39 (drop 24 bq)]"
    "length b2 = 1024" "data_packet (new_conn m cb' hc sa a) u1 [] t2 b2" "length bq = 1024" "ack_packet (opened_conn m cb' hc sa a q) u1 1011 bq"
    using server e(3,2) x hosts(1) by (rule server_accepts)
  have y: "remote_app_id (new_conn m cb' hc sa a) = sa" "local_app_id (new_conn m cb' hc sa a) = a"
    "remote_host_id (new_conn m cb' hc sa a) = nb__my_local_host_id s" "last_sent_sequence (new_conn m cb' hc sa a) = 1010" "nb__my_local_host_id u1 = ucast h"
    using hosts v(4) by (simp_all add: new_conn_def)
  obtain s2 br where s2: "take_packet (ipc_env E) (arrives (take 38 (drop 24 b2)) (after_establish E cb h a sa b w ts s)) = Inr s2"
    "end_open E ?c h a sa R H s2" "nb__my_local_host_id s2 = nb__my_local_host_id s" "length br = 1024"
    "ack_packet (opened_conn (malloc_conn E (mallocs s)) cb h a sa (malloc_addr E (mallocs s + 1))) s 1011 br"
    "sock_out (transport_state s2) = sock_out (transport_state s) @ [take 38 (drop 24 b), take 39 (drop 24 br)]"
    using client(1-3) e(3,2,4,5) v(8,7) y by (rule client_signaled)
  have o: "nb__my_local_host_id s2 = remote_host_id (opened_conn m cb' hc sa a q)" "remote_app_id (opened_conn m cb' hc sa a q) = sa"
    "local_app_id (opened_conn m cb' hc sa a q) = a" using s2(3) hosts(1) by (simp_all add: opened_conn_def new_conn_def)
  obtain s3 where s3: "take_packet (ipc_env E) (arrives (take 39 (drop 24 bq)) s2) = Inr s3" "end_ready E ?c h a sa s3" "pool_inv (timers s3) R H"
    "nb__my_local_host_id s3 = nb__my_local_host_id s2" using s2(2) o(1) v(10,9) o(2,3) y(5) by (rule end_acknowledged)
  let ?X = "opened_conn (malloc_conn E (mallocs s)) cb h a sa (malloc_addr E (mallocs s + 1))"
  have O: "nb__my_local_host_id u2 = remote_host_id ?X" "remote_app_id ?X = a" "local_app_id ?X = sa"
    using v(5) hosts(2) by (simp_all add: opened_conn_def new_conn_def)
  obtain u3 where u3: "take_packet (ipc_env F) (arrives (take 39 (drop 24 br)) u2) = Inr u3" "end_ready F ?d hc sa a u3" "pool_inv (timers u3) R' H'"
    "nb__my_local_host_id u3 = nb__my_local_host_id u2" using v(3) O(1) s2(5,4) O(2,3) hosts(1) by (rule end_acknowledged)
  have h: "nb__my_local_host_id s3 = ucast hc" "nb__my_local_host_id u3 = ucast h" using s3(4) s2(3) u3(4) v(5) hosts by simp_all
  have "connected E ?c s3 F ?d u3" "connected F ?d u3 E ?c s3"
    by (rule ready_connected [OF s3(2) u3(2) h], rule ready_connected [OF u3(2) s3(2) h(2,1)])
  moreover have "sock_out (transport_state s2) = sock_out (transport_state (after_establish E cb h a sa b w ts s)) @ [take 39 (drop 24 br)]"
    "sock_out (transport_state (after_establish E cb h a sa b w ts s)) = sock_out (transport_state s) @ [take 38 (drop 24 b)]" using s2(6) by simp_all
  ultimately show ?thesis using e(1) v(1,2,6) s2(1) s3(1,3) u3(1,3) by (intro exI conjI)
qed

end
