(* ===== verification/Socket_Setup.thy ===== *)
theory Socket_Setup
  imports Ipc_Transport
begin

text \<open>
  Opening the sockets of the transports and of the hub (\<open>nb__ipc_init\<close> of
  \<open>runtime/nb_ipc_transport.c\<close>, \<open>nb__linux_runtime_init\<close> of
  \<open>runtime/nb_linux_transport.c\<close>, the start of \<open>utils/hub/ipc_hub.c\<close>). The kernel
  is a parameter: the result of a call is a function of the calls made before it.
\<close>

section \<open>The calls\<close>

datatype sock_call =
    Sys_Socket
  | Sys_Raw_Socket
  | Sys_Connect int string
  | Sys_Unlink string
  | Sys_Bind int string
  | Sys_Listen int nat
  | Sys_Accept int
  | Sys_Nonblock int
  | Sys_Ifindex int string
  | Sys_Bind_Interface int int
  | Sys_Close int

type_synonym sock_log = "(sock_call \<times> int) list"
type_synonym kernel = "sock_log \<Rightarrow> sock_call \<Rightarrow> int"

definition sys :: "kernel \<Rightarrow> sock_call \<Rightarrow> sock_log \<Rightarrow> int \<times> sock_log" where
  "sys K c log = (K log c, log @ [(c, K log c)])"

text \<open>\<open>strcpy\<close> of a string to an array of \<open>n\<close> characters.\<close>

definition strcpy_to :: "nat \<Rightarrow> string \<Rightarrow> string res" where
  "strcpy_to n str = (if length str + 1 \<le> n then Inr str else Inl Out_Of_Bounds)"

definition SUN_PATH :: nat where "SUN_PATH = 108"
definition IFNAMSIZ :: nat where "IFNAMSIZ = 16"

section \<open>The transport over Unix sockets\<close>

text \<open>A call ends the program with a message when its result is negative.\<close>

definition or_exit :: "string \<Rightarrow> int \<times> sock_log \<Rightarrow> (int \<times> sock_log) res" where
  "or_exit msg r = (if fst r < 0 then Inl (Assert_Fail msg) else Inr r)"

definition ipc_connect :: "kernel \<Rightarrow> string \<Rightarrow> int \<Rightarrow> sock_log \<Rightarrow> (int \<times> sock_log) res" where
  "ipc_connect K sock_path ipc_socket log =
     bindE (strcpy_to SUN_PATH sock_path) (\<lambda>sun_path.
     bindE (or_exit ''Socket connect failed'' (sys K (Sys_Connect ipc_socket sun_path) log)) (\<lambda>(r, log).
     case sys K (Sys_Nonblock ipc_socket) log of (r, log) \<Rightarrow> Inr (ipc_socket, log)))"

definition ipc_accept :: "kernel \<Rightarrow> string \<Rightarrow> sock_log \<Rightarrow> (int \<times> sock_log) res" where
  "ipc_accept K sock_path log =
     (case sys K (Sys_Unlink sock_path) log of (r, log) \<Rightarrow>
      bindE (or_exit ''Socket create failed'' (sys K Sys_Socket log)) (\<lambda>(ipc_fd, log).
      bindE (strcpy_to SUN_PATH sock_path) (\<lambda>sun_path.
      bindE (or_exit ''Socket bind failed'' (sys K (Sys_Bind ipc_fd sun_path) log)) (\<lambda>(r, log).
      case sys K (Sys_Listen ipc_fd 1) log of (r, log) \<Rightarrow>
      bindE (or_exit ''Socket accept failed'' (sys K (Sys_Accept ipc_fd) log)) (\<lambda>(ipc_socket, log).
      case sys K (Sys_Nonblock ipc_socket) log of (r, log) \<Rightarrow>
      case sys K (Sys_Close ipc_fd) log of (r, log) \<Rightarrow> Inr (ipc_socket, log))))))"

definition nb__ipc_init :: "kernel \<Rightarrow> string \<Rightarrow> int \<Rightarrow> sock_log \<Rightarrow> (int \<times> sock_log) res" where
  "nb__ipc_init K sock_path mode log =
     bindE (or_exit ''Socket create failed'' (sys K Sys_Socket log)) (\<lambda>(ipc_socket, log).
     if mode = 0 then ipc_connect K sock_path ipc_socket log else ipc_accept K sock_path log)"

definition nb__transport_default_init :: "kernel \<Rightarrow> sock_log \<Rightarrow> (int \<times> sock_log) res" where
  "nb__transport_default_init K log = nb__ipc_init K ''/tmp/ipc_socket'' 0 log"

definition nb__transport_default_deinit :: "ipc_state \<Rightarrow> ipc_state" where
  "nb__transport_default_deinit t = nb__ipc_deinit t"

section \<open>The transport over raw sockets and the hub\<close>

text \<open>
  \<open>ifr_ifindex\<close> is the number that the kernel gives for the interface. Only the descriptor 0
  is taken for a failure of \<open>socket\<close>.
\<close>

definition nb__linux_runtime_init :: "kernel \<Rightarrow> (sock_log \<Rightarrow> int) \<Rightarrow> string \<Rightarrow> sock_log \<Rightarrow> (int \<times> sock_log) res" where
  "nb__linux_runtime_init K ifr_ifindex interface_name log =
     (case sys K Sys_Raw_Socket log of (main_socket, log) \<Rightarrow>
      bindE (guardE (main_socket \<noteq> 0) (Assert_Fail ''Failed to create raw socket, are you running as root?'')) (\<lambda>_.
      bindE (strcpy_to IFNAMSIZ interface_name) (\<lambda>ifr_name.
      case sys K (Sys_Ifindex main_socket ifr_name) log of (r, log) \<Rightarrow>
      bindE (guardE (r = 0) (Assert_Fail (''Failed to grab interface id, is the interface name ('' @ interface_name @ '') correct?''))) (\<lambda>_.
      case sys K (Sys_Bind_Interface main_socket (ifr_ifindex log)) log of (r, log) \<Rightarrow>
      bindE (guardE (r = 0) (Assert_Fail ''Failed to bind to raw socket'')) (\<lambda>_.
      case sys K (Sys_Nonblock main_socket) log of (r, log) \<Rightarrow> Inr (main_socket, log))))))"

definition nb__linux_runtime_deinit :: "kernel \<Rightarrow> int \<Rightarrow> sock_log \<Rightarrow> sock_log" where
  "nb__linux_runtime_deinit K main_socket log = snd (sys K (Sys_Close main_socket) log)"

definition SOCK_PATH :: string where "SOCK_PATH = ''/tmp/ipc_socket''"

definition hub_setup :: "kernel \<Rightarrow> sock_log \<Rightarrow> (int \<times> sock_log) res" where
  "hub_setup K log =
     bindE (or_exit ''Socket create failed'' (sys K Sys_Socket log)) (\<lambda>(ipc_socket, log).
     case sys K (Sys_Unlink SOCK_PATH) log of (r, log) \<Rightarrow>
     bindE (strcpy_to SUN_PATH SOCK_PATH) (\<lambda>sun_path.
     bindE (or_exit ''Socket bind failed'' (sys K (Sys_Bind ipc_socket sun_path) log)) (\<lambda>(r, log).
     case sys K (Sys_Listen ipc_socket 10) log of (r, log) \<Rightarrow> Inr (ipc_socket, log))))"

section \<open>Descriptors\<close>

text \<open>The descriptors that are open after some calls.\<close>

fun fd_step :: "int set \<Rightarrow> sock_call \<times> int \<Rightarrow> int set" where
  "fd_step fds (Sys_Socket, r) = (if 0 \<le> r then insert r fds else fds)"
| "fd_step fds (Sys_Raw_Socket, r) = (if 0 \<le> r then insert r fds else fds)"
| "fd_step fds (Sys_Accept fd, r) = (if 0 \<le> r then insert r fds else fds)"
| "fd_step fds (Sys_Close fd, r) = fds - {fd}"
| "fd_step fds (c, r) = fds"

definition open_fds :: "sock_log \<Rightarrow> int set" where
  "open_fds log = foldl fd_step {} log"

lemma open_fds_append [simp]: "open_fds (log @ es) = foldl fd_step (open_fds log) es"
  by (simp add: open_fds_def)

text \<open>A new descriptor is one that is not open, as POSIX has it for \<open>socket\<close> and \<open>accept\<close>.\<close>

definition fresh_fds :: "kernel \<Rightarrow> bool" where
  "fresh_fds K \<longleftrightarrow> (\<forall>log fd. (0 \<le> K log Sys_Socket \<longrightarrow> K log Sys_Socket \<notin> open_fds log) \<and>
     (0 \<le> K log (Sys_Accept fd) \<longrightarrow> K log (Sys_Accept fd) \<notin> open_fds log))"

lemma fresh_socket: "fresh_fds K \<Longrightarrow> 0 \<le> K log Sys_Socket \<Longrightarrow> K log Sys_Socket \<notin> open_fds log"
  by (simp add: fresh_fds_def)

lemma fresh_accept: "fresh_fds K \<Longrightarrow> 0 \<le> K log (Sys_Accept fd) \<Longrightarrow> K log (Sys_Accept fd) \<notin> open_fds log"
  by (simp add: fresh_fds_def)

lemmas setup_defs = sys_def or_exit_def strcpy_to_def

lemma ipc_connect_result:
  "ipc_connect K path s log =
     (if 108 \<le> length path then Inl Out_Of_Bounds
      else if K log (Sys_Connect s path) < 0 then Inl (Assert_Fail ''Socket connect failed'')
      else Inr (s, snd (sys K (Sys_Nonblock s) (snd (sys K (Sys_Connect s path) log)))))"
  by (auto simp: ipc_connect_def setup_defs SUN_PATH_def)

lemma ipc_connect_opens:
  assumes "ipc_connect K path s log = Inr (fd, log')"
  shows "fd = s" "open_fds log' = open_fds log" "\<exists>r. (Sys_Nonblock s, r) \<in> set log'"
    "\<exists>r. 0 \<le> r \<and> (Sys_Connect s path, r) \<in> set log'"
proof -
  from assms have ok: "fd = s" "0 \<le> K log (Sys_Connect s path)"
    "log' = snd (sys K (Sys_Nonblock s) (snd (sys K (Sys_Connect s path) log)))"
    by (auto simp: ipc_connect_result split: if_splits)
  from ok have "(Sys_Connect s path, K log (Sys_Connect s path)) \<in> set log'" by (simp add: sys_def)
  with ok(2) show "\<exists>r. 0 \<le> r \<and> (Sys_Connect s path, r) \<in> set log'" by blast
  show "fd = s" "open_fds log' = open_fds log" "\<exists>r. (Sys_Nonblock s, r) \<in> set log'"
    using ok by (auto simp: sys_def)
qed

lemma ipc_connect_error:
  "ipc_connect K path s log = Inl e \<Longrightarrow> e = Out_Of_Bounds \<and> 108 \<le> length path \<or> (\<exists>msg. e = Assert_Fail msg)"
  by (auto simp: ipc_connect_result split: if_splits)

lemma ipc_accept_opens:
  assumes K: "fresh_fds K" and r: "ipc_accept K path log = Inr (fd, log')"
  shows "0 \<le> fd \<and> fd \<notin> open_fds log \<and> open_fds log' = insert fd (open_fds log) \<and> (\<exists>r. (Sys_Nonblock fd, r) \<in> set log') \<and>
    (\<exists>listener r. (Sys_Bind listener path, r) \<in> set log' \<and> 0 \<le> r \<and> (Sys_Accept listener, fd) \<in> set log' \<and> listener \<notin> open_fds log')"
proof -
  let ?l1 = "snd (sys K (Sys_Unlink path) log)"
  let ?s = "K ?l1 Sys_Socket" and ?l2 = "snd (sys K Sys_Socket ?l1)"
  let ?l4 = "snd (sys K (Sys_Listen ?s 1) (snd (sys K (Sys_Bind ?s path) ?l2)))"
  let ?l6 = "snd (sys K (Sys_Nonblock fd) (snd (sys K (Sys_Accept ?s) ?l4)))"
  from r have ok: "0 \<le> ?s" "0 \<le> K ?l2 (Sys_Bind ?s path)" "fd = K ?l4 (Sys_Accept ?s)" "0 \<le> fd" "log' = snd (sys K (Sys_Close ?s) ?l6)"
    by (auto simp: ipc_accept_def setup_defs bindE_def split: if_splits)
  have o1: "open_fds ?l1 = open_fds log" "open_fds ?l4 = insert ?s (open_fds log)" using ok(1) by (simp_all add: sys_def)
  have fresh: "?s \<notin> open_fds log" "fd \<notin> insert ?s (open_fds log)"
    using fresh_socket [OF K ok(1)] fresh_accept [OF K, of ?l4 ?s] ok(3,4) o1 by auto
  have "open_fds log' = insert fd (insert ?s (open_fds log)) - {?s}" using ok(3-5) o1(2) by (simp add: sys_def)
  then have "open_fds log' = insert fd (open_fds log)" "?s \<notin> open_fds log'" using fresh by auto
  moreover have "(Sys_Nonblock fd, K (snd (sys K (Sys_Accept ?s) ?l4)) (Sys_Nonblock fd)) \<in> set log'"
    "(Sys_Bind ?s path, K ?l2 (Sys_Bind ?s path)) \<in> set log'" "(Sys_Accept ?s, fd) \<in> set log'"
    using ok(3,5) by (auto simp: sys_def)
  ultimately show ?thesis using fresh(2) ok(2,4) by blast
qed

lemma ipc_accept_error:
  "ipc_accept K path log = Inl e \<Longrightarrow> e = Out_Of_Bounds \<and> 108 \<le> length path \<or> (\<exists>msg. e = Assert_Fail msg)"
  by (auto simp: ipc_accept_def setup_defs SUN_PATH_def bindE_def split: if_splits)

text \<open>
  C33. With a kernel that gives new descriptors, \<open>nb__ipc_init\<close> either ends the program with a
  message, or overruns the address when the path has 108 or more characters, or leaves a new
  descriptor that was made non-blocking. In the mode in which a node connects this is the only
  descriptor it leaves open, and it is connected to the path. In the mode in which it waits for a peer
  it was accepted on a listener bound to the path that is closed again, but the socket created first
  stays open as well, and nothing refers to it.
\<close>

theorem ipc_init_descriptors:
  assumes K: "fresh_fds K"
  shows "(\<forall>fd log'. nb__ipc_init K path mode log = Inr (fd, log') \<longrightarrow>
      0 \<le> fd \<and> fd \<notin> open_fds log \<and> (\<exists>r. (Sys_Nonblock fd, r) \<in> set log') \<and>
      (if mode = 0 then open_fds log' = insert fd (open_fds log) \<and> (\<exists>r. 0 \<le> r \<and> (Sys_Connect fd path, r) \<in> set log')
       else (\<exists>first. first \<noteq> fd \<and> first \<notin> open_fds log \<and> open_fds log' = insert fd (insert first (open_fds log))) \<and>
         (\<exists>listener r. (Sys_Bind listener path, r) \<in> set log' \<and> 0 \<le> r \<and> (Sys_Accept listener, fd) \<in> set log' \<and> listener \<notin> open_fds log'))) \<and>
    (\<forall>e. nb__ipc_init K path mode log = Inl e \<longrightarrow> e = Out_Of_Bounds \<and> 108 \<le> length path \<or> (\<exists>msg. e = Assert_Fail msg))"
proof (cases "0 \<le> K log Sys_Socket")
  case False
  then show ?thesis by (simp add: nb__ipc_init_def setup_defs)
next
  case True
  let ?s = "K log Sys_Socket" and ?l = "log @ [(Sys_Socket, K log Sys_Socket)]"
  have fresh: "?s \<notin> open_fds log" using K True by (rule fresh_socket)
  have ol: "open_fds ?l = insert ?s (open_fds log)" using True by simp
  show ?thesis
  proof (cases "mode = 0")
    case 0: True
    then have init: "nb__ipc_init K path mode log = ipc_connect K path ?s ?l" using True by (simp add: nb__ipc_init_def setup_defs)
    show ?thesis unfolding init
    proof (intro conjI allI impI)
      fix fd log' assume "ipc_connect K path ?s ?l = Inr (fd, log')"
      note ok = ipc_connect_opens [OF this, unfolded ol]
      with 0 True fresh show "0 \<le> fd" "fd \<notin> open_fds log" "\<exists>r. (Sys_Nonblock fd, r) \<in> set log'"
        "if mode = 0 then open_fds log' = insert fd (open_fds log) \<and> (\<exists>r. 0 \<le> r \<and> (Sys_Connect fd path, r) \<in> set log')
         else (\<exists>first. first \<noteq> fd \<and> first \<notin> open_fds log \<and> open_fds log' = insert fd (insert first (open_fds log))) \<and>
           (\<exists>listener r. (Sys_Bind listener path, r) \<in> set log' \<and> 0 \<le> r \<and> (Sys_Accept listener, fd) \<in> set log' \<and> listener \<notin> open_fds log')"
        by simp_all
    qed (rule ipc_connect_error)
  next
    case 1: False
    then have init: "nb__ipc_init K path mode log = ipc_accept K path ?l" using True by (simp add: nb__ipc_init_def setup_defs)
    show ?thesis unfolding init
    proof (intro conjI allI impI)
      fix fd log' assume "ipc_accept K path ?l = Inr (fd, log')"
      note ok = ipc_accept_opens [OF K this, unfolded ol]
      then show "0 \<le> fd" "fd \<notin> open_fds log" "\<exists>r. (Sys_Nonblock fd, r) \<in> set log'" by auto
      have "?s \<noteq> fd" "open_fds log' = insert fd (insert ?s (open_fds log))" using ok by auto
      with ok fresh 1 show "if mode = 0 then open_fds log' = insert fd (open_fds log) \<and> (\<exists>r. 0 \<le> r \<and> (Sys_Connect fd path, r) \<in> set log')
       else (\<exists>first. first \<noteq> fd \<and> first \<notin> open_fds log \<and> open_fds log' = insert fd (insert first (open_fds log))) \<and>
         (\<exists>listener r. (Sys_Bind listener path, r) \<in> set log' \<and> 0 \<le> r \<and> (Sys_Accept listener, fd) \<in> set log' \<and> listener \<notin> open_fds log')"
        by auto
    qed (rule ipc_accept_error)
  qed
qed

end
