(* ===== verification/Stack_Scenarios.thy ===== *)
theory Stack_Scenarios
  imports Node_Scenarios Ip_Checksum Wireshark_Plugin Redelivery Handshake Socket_Setup
begin

text \<open>
  Concrete runs of the whole simple stack: two nodes and a payload of two bytes, the checksum of an
  IPv4 header, and what the Wireshark plugin shows of a packet.
\<close>

section \<open>Two nodes\<close>

text \<open>
  Host 9 sends on its connection from port 8080 to port 80 of host 7, which has the connection in
  the opposite direction.
\<close>

definition demo_quiet :: ipc_state where
  "demo_quiet = demo_ipc\<lparr>nb__ipc_simulate_out_of_order := False\<rparr>"

definition demo_sender :: "timer_state \<Rightarrow> (ipc_state, unit) nb_state" where
  "demo_sender ts = demo_state\<lparr>timers := ts, transport_state := demo_quiet, num_conn := 1,
     active_local_app_ids := replicate 512 8080, active_remote_app_ids := replicate 512 80,
     active_remote_host_ids := replicate 512 7, active_connections := replicate 512 256\<rparr>"

definition demo_peer :: nb__connection_t where
  "demo_peer = demo_conn\<lparr>remote_host_id := 9, remote_app_id := 8080, local_app_id := 80\<rparr>"

definition demo_receiver :: "(ipc_state, unit) nb_state" where
  "demo_receiver = demo_state\<lparr>conns := [512 \<mapsto> demo_peer], transport_state := demo_quiet, nb__my_local_host_id := 7, num_conn := 1,
     active_local_app_ids := replicate 512 80, active_remote_app_ids := replicate 512 8080,
     active_remote_host_ids := replicate 512 9, active_connections := replicate 512 512\<rparr>"

lemma demo_quiet [simp]: "quiet demo_quiet" "sock_in demo_quiet = []" "sock_out demo_quiet = []"
  by (simp_all add: quiet_def demo_quiet_def demo_ipc_def IPC_MTU_def)

lemma demo_simple_env [simp]: "simple_env demo_env"
  unfolding simple_env_def by simp

lemma demo_malloc [simp]: "malloc_addr demo_env k = of_nat (4096 + k)"
  by (simp add: demo_env_def ipc_env_def)

lemma demo_ids [simp]:
  "remote_app_id demo_conn = 80" "local_app_id demo_conn = 8080" "remote_host_id demo_conn = 7" "last_sent_sequence demo_conn = 1010"
  "remote_app_id demo_peer = 8080" "local_app_id demo_peer = 80" "remote_host_id demo_peer = 9"
  by (simp_all add: demo_conn_def demo_peer_def)

lemma demo_can_send: "can_send demo_env 256 demo_conn (demo_sender ts)"
  by (simp add: can_send_def demo_sender_def demo_state_def good_ids_def) (simp add: demo_conn_def)

lemma demo_can_receive: "can_receive demo_env 512 demo_peer 80 8080 9 1011 demo_receiver"
proof -
  have "retrieve_connection demo_env 80 8080 9 demo_receiver = Inr 512"
    by (simp add: retrieve_connection_def demo_receiver_def match_connection_def arr_get_def simple_config_def)
  moreover have "awaits demo_peer 1011"
    by (simp add: awaits_def demo_peer_def demo_conn_def demo_queue_def dq_inv_def MAX_DATA_QUEUE_ELEMS_def)
  ultimately show ?thesis
    by (simp add: can_receive_def) (simp add: demo_receiver_def demo_state_def good_ids_def)
qed

lemma demo_pool: "\<exists>ts. nb__init_timers 1000 demo_timers = Inr ts \<and> pool_inv ts {} {}"
  using demo_timers_init tr_init [of demo_timers 1000] timer_reach_inv by (auto simp: demo_timers_def)

lemma demo_valid_timer: "valid_timer 1"
  by (simp add: valid_timer_def MAX_TIMER_ALLOCS_def)

lemma demo_sender_simps:
  "timers (demo_sender ts) = ts" "nb__my_local_host_id (demo_sender ts) = 9" "transport_state (demo_sender ts) = demo_quiet"
  by (simp_all add: demo_sender_def demo_state_def)

lemma demo_receiver_simps: "transport_state demo_receiver = demo_quiet" "nb__my_local_host_id demo_receiver = 7"
  by (simp_all add: demo_receiver_def demo_state_def)

theorem simple_end_to_end_example:
  "\<exists>ts s' m u1 u2. nb__init_timers 1000 demo_timers = Inr ts \<and>
     nb__send (ipc_env demo_env) 256 [104, 105] 2 (demo_sender ts) = Inr (2, s') \<and> sock_out (transport_state s') = [m] \<and>
     take_packet (ipc_env demo_env) (arrives m demo_receiver) = Inr u1 \<and> nb__read 512 100 u1 = Inr ((2, [104, 105]), u2)"
proof -
  obtain ts where ts: "nb__init_timers 1000 demo_timers = Inr ts" "pool_inv ts {} {}" using demo_pool by blast
  note demo = demo_sender_simps [of ts] demo_receiver_simps
  have "dq_list (input_queue demo_peer) = []" by (simp add: demo_peer_def demo_conn_def dq_list_def demo_queue_def)
  moreover have "{} \<union> {} \<noteq> Collect valid_timer" using demo_valid_timer by auto
  ultimately show ?thesis
    using simple_end_to_end [OF demo_can_send, of ts "{}" "{}" "[104, 105]" 100 demo_env 512 demo_peer demo_receiver] ts demo_can_receive demo
    by auto
qed

theorem ack_ends_redelivery_example:
  "\<exists>ts s1 m u1 a s2. nb__init_timers 1000 demo_timers = Inr ts \<and>
     nb__send (ipc_env demo_env) 256 [104, 105] 2 (demo_sender ts) = Inr (2, s1) \<and> sock_out (transport_state s1) = [m] \<and>
     take_packet (ipc_env demo_env) (arrives m demo_receiver) = Inr u1 \<and> sock_out (transport_state u1) = [a] \<and>
     take_packet (ipc_env demo_env) (arrives a s1) = Inr s2 \<and> pool_inv (timers s2) {} {}"
proof -
  obtain ts where ts: "nb__init_timers 1000 demo_timers = Inr ts" "pool_inv ts {} {}" using demo_pool by blast
  note demo = demo_sender_simps [of ts] demo_receiver_simps
  have "retrieve_connection demo_env 8080 80 7 (demo_sender ts) = Inr 256"
    by (simp add: retrieve_connection_def demo_sender_def match_connection_def arr_get_def simple_config_def)
  moreover have "peers demo_conn (demo_sender ts) demo_peer demo_receiver" by (simp add: peers_def demo)
  moreover have "mallocs (demo_sender ts) = 0" by (simp add: demo_sender_def demo_state_def)
  moreover have "{} \<union> {} \<noteq> Collect valid_timer" using demo_valid_timer by auto
  ultimately show ?thesis
    using ack_ends_redelivery [OF demo_can_send, of ts "{}" "{}" "[104, 105]" demo_peer demo_receiver demo_env 512] ts demo_can_receive demo
    by simp blast
qed

theorem lost_packet_redelivered_example:
  "\<exists>ts s1 m s2 u1 u2. nb__init_timers 1000 demo_timers = Inr ts \<and>
     nb__send (ipc_env demo_env) 256 [104, 105] 2 (demo_sender ts) = Inr (2, s1) \<and>
     check_all (ipc_env demo_env) [1050, 1100] s1 = Inr s2 \<and> sock_out (transport_state s2) = [m, m, m] \<and>
     take_packet (ipc_env demo_env) (arrives m demo_receiver) = Inr u1 \<and> nb__read 512 100 u1 = Inr ((2, [104, 105]), u2)"
proof -
  obtain ts where ts: "nb__init_timers 1000 demo_timers = Inr ts" "pool_inv ts {} {}" using demo_pool by blast
  note demo = demo_sender_simps [of ts] demo_receiver_simps
  have "dq_list (input_queue demo_peer) = []" by (simp add: demo_peer_def demo_conn_def dq_list_def demo_queue_def)
  moreover have "{} \<noteq> Collect valid_timer" using demo_valid_timer by auto
  moreover have "nb__time_now (demo_sender ts) = 1000" by (simp add: demo_sender_def demo_state_def)
  moreover have "spaced 1000 [1050, 1100]" by simp
  ultimately obtain s1 m u1 u2 where s1: "nb__send (ipc_env demo_env) 256 [104, 105] 2 (demo_sender ts) = Inr (2, s1)"
    "\<forall>nows. spaced 1000 nows \<longrightarrow> (\<exists>s2. check_all (ipc_env demo_env) nows s1 = Inr s2 \<and> sock_out (transport_state s2) = replicate (Suc (length nows)) m)"
    "take_packet (ipc_env demo_env) (arrives m demo_receiver) = Inr u1" "nb__read 512 100 u1 = Inr ((2, [104, 105]), u2)"
    using lost_packet_redelivered [OF demo_can_send, of ts "{}" "[104, 105]" 100 demo_env 512 demo_peer demo_receiver] ts demo_can_receive demo
    by auto
  moreover obtain s2 where "check_all (ipc_env demo_env) [1050, 1100] s1 = Inr s2" "sock_out (transport_state s2) = [m, m, m]"
    using s1(2) [rule_format, of "[1050, 1100]"] by (auto simp: numeral_3_eq_3)
  ultimately show ?thesis using ts(1) by blast
qed

text \<open>
  The handshake: host 9 opens a connection from port 8080 to port 80 of host 7, on which the connection
  at 512 listens.
\<close>

definition demo_client :: "timer_state \<Rightarrow> (ipc_state, unit) nb_state" where
  "demo_client ts = demo_state\<lparr>timers := ts, transport_state := demo_quiet\<rparr>"

definition demo_listen :: nb__connection_t where
  "demo_listen = demo_conn\<lparr>remote_host_id := 0, remote_app_id := 0, local_app_id := 80, signaling_state := SIGNAL_NA\<rparr>"

definition demo_server :: "timer_state \<Rightarrow> (ipc_state, unit) nb_state" where
  "demo_server ts = demo_state\<lparr>conns := [512 \<mapsto> demo_listen], timers := ts, transport_state := demo_quiet, nb__my_local_host_id := 7, num_conn := 1,
     active_local_app_ids := replicate 512 80, active_connections := replicate 512 512\<rparr>"

lemma demo_malloc_ok: "malloc_ok demo_env 0 7"
proof -
  have "(of_nat (4096 + j) :: u64) \<noteq> of_nat (4096 + i)" if "j < i" "i < 7" for i j
    using that by (simp add: word_of_nat_eq_iff take_bit_nat_eq_self del: of_nat_add)
  moreover have "(of_nat (4096 + i) :: u64) \<noteq> 0" if "i < 7" for i
    using that word_of_nat_eq_0_iff [of "4096 + i", where 'a = 64] nat_dvd_not_less [of "4096 + i" "2 ^ 64"] by simp
  ultimately show ?thesis by (simp add: malloc_ok_def del: of_nat_add)
qed

lemma demo_can_establish: "can_establish demo_env 7 80 8080 (demo_client ts)" "can_establish demo_env 9 8080 80 (demo_server ts)"
  by (simp_all add: can_establish_def demo_client_def demo_server_def demo_state_def ct_inv_def ct_list_def conn_mem_def MAX_ACTIVE_CONNECTIONS_def)
    (simp_all add: demo_env_def ipc_env_def demo_conn_def demo_queue_def MAX_DATA_QUEUE_ELEMS_def)

lemma demo_listens: "listens demo_env 512 demo_listen 80 (demo_server ts)"
proof -
  have "retrieve_wildcard_connection 80 (demo_server ts) = Inr 512"
    by (simp add: retrieve_wildcard_connection_def match_wildcard_def demo_server_def demo_state_def arr_get_def WILDCARD_APP_ID_def nb__wildcard_host_identifier_def)
  moreover have "\<exists>w. run_callback demo_env f e c v = Inr (v\<lparr>app_state := w\<rparr>)" for f e c v
    by (intro exI [of _ "app_state v"]) (simp add: demo_env_def ipc_env_def)
  ultimately show ?thesis
    by (simp add: listens_def) (simp add: demo_server_def demo_listen_def demo_conn_def demo_accept_def aq_inv_def aq_list_def MAX_ACCEPT_QUEUE_ELEMS_def)
qed

theorem connection_established_example:
  "\<exists>ts c s1 m1 u1 d u2 m2 a1 s2 a2 s3 u3. nb__init_timers 1000 demo_timers = Inr ts \<and>
     nb__establish (ipc_env demo_env) 7 80 8080 1 (demo_client ts) = Inr (c, s1) \<and> sock_out (transport_state s1) = [m1] \<and>
     take_packet (ipc_env demo_env) (arrives m1 (demo_server ts)) = Inr u1 \<and> nb__accept (ipc_env demo_env) 512 1 u1 = Inr (d, u2) \<and>
     sock_out (transport_state u2) = [m2, a1] \<and> take_packet (ipc_env demo_env) (arrives m2 s1) = Inr s2 \<and>
     take_packet (ipc_env demo_env) (arrives a1 s2) = Inr s3 \<and> take_packet (ipc_env demo_env) (arrives a2 u2) = Inr u3 \<and>
     connected demo_env c s3 demo_env d u3 \<and> connected demo_env d u3 demo_env c s3"
proof -
  obtain ts where ts: "nb__init_timers 1000 demo_timers = Inr ts" "pool_inv ts {} {}" using demo_pool by blast
  have "{} \<union> {} \<noteq> Collect valid_timer" using demo_valid_timer by auto
  moreover have "mallocs (demo_client ts) = 0" "sock_in (transport_state (demo_client ts)) = []" "timers (demo_client ts) = ts"
    "sock_out (transport_state (demo_client ts)) = []" "nb__my_local_host_id (demo_client ts) = ucast (9 :: u32)"
    "mallocs (demo_server ts) = 0" "sock_in (transport_state (demo_server ts)) = []" "timers (demo_server ts) = ts"
    "sock_out (transport_state (demo_server ts)) = []" "nb__my_local_host_id (demo_server ts) = ucast (7 :: u32)"
    "conns (demo_server ts) (malloc_addr demo_env (0 + 1)) = None"
    by (simp_all add: demo_client_def demo_server_def demo_state_def)
  ultimately show ?thesis
    using connection_established [OF demo_can_establish(1) [of ts], where R = "{}" and H = "{}" and hc = 9 and F = demo_env and u = "demo_server ts"
        and l = 512 and x = demo_listen and R' = "{}" and H' = "{}" and cb = 1 and cb' = 1]
      demo_can_establish(2) demo_malloc_ok demo_listens ts by simp blast
qed

section \<open>The checksum of an IPv4 header\<close>

definition demo_header :: "u8 list" where
  "demo_header = [0x45, 0, 0, 0x73, 0, 0, 0x40, 0, 0x40, 0x11, 0, 0, 0xc0, 0xa8, 0, 1, 0xc0, 0xa8, 0, 0xc7]"

theorem ip_checksum_ones_complement_example:
  "\<exists>b'. nb__do_ip_checksum demo_header 0 20 = Inr (htons 0xb861) \<and>
     buf_write 2 10 (ucast (htons 0xb861)) demo_header = Inr b' \<and> nb__do_ip_checksum b' 0 20 = Inr 0"
proof -
  have words: "header_words demo_header 0 10 = [0x4500, 0x73, 0, 0x4000, 0x4011, 0, 0xc0a8, 1, 0xc0a8, 0xc7]"
    by (simp add: header_words_def demo_header_def be16_def upt_rec)
  have "ones_sum (header_words demo_header 0 10) = 0x479e"
    unfolding words by (simp add: ones_sum_def oc_add_def)
  then have ck: "nb__do_ip_checksum demo_header 0 (2 * 10) = Inr (htons 0xb861)"
    and all: "\<forall>j b' ck. j < 10 \<and> demo_header ! (0 + 2 * j) = 0 \<and> demo_header ! (0 + 2 * j + 1) = 0 \<and>
       nb__do_ip_checksum demo_header 0 (2 * 10) = Inr ck \<and> buf_write 2 (0 + 2 * j) (ucast ck) demo_header = Inr b' \<longrightarrow>
       nb__do_ip_checksum b' 0 (2 * 10) = Inr 0"
    using ip_checksum_ones_complement [of 0 10 demo_header] by (simp_all add: demo_header_def)
  obtain b' where b': "buf_write 2 10 (ucast (htons 0xb861)) demo_header = Inr b'" by (auto simp: buf_write_def demo_header_def)
  moreover have "demo_header ! 10 = 0" "demo_header ! 11 = 0" by (simp_all add: demo_header_def)
  ultimately have "nb__do_ip_checksum b' 0 20 = Inr 0" using all [rule_format, of 5 "htons 0xb861" b'] ck by simp
  with ck b' show ?thesis by auto
qed

section \<open>The Wireshark plugin\<close>

theorem plugin_shows_members_example:
  "\<exists>ts. iterate_and_generate (\<lambda>k n. Some (replicate n CHR ''x'')) simple_layout (replicate 64 7) = Inr ts \<and>
     map st_name ts = drop 4 (member_names simple_members) \<and> st_start (hd ts) = 0"
proof -
  let ?gs = "drop 2 (m_registered_members simple_members)" and ?g1 = "tl (m_registered_members simple_members ! 1)"
  have groups: "m_registered_members simple_members = take 4 (member_names simple_members) # (''dst_host_id'' # ?g1) # ?gs"
    and names: "concat ((''dst_host_id'' # ?g1) # ?gs) = drop 4 (member_names simple_members)"
    by (simp_all add: simple_members_def member_names_def)
  have whole: "whole_bytes (fix_layout simple_members) 63 n" if "n \<in> set (concat ((''dst_host_id'' # ?g1) # ?gs))" for n
    using that simple_byte_members [of n] unfolding names whole_bytes_def simple_layout_def by (auto dest: in_set_dropD)
  show ?thesis
    using plugin_shows_members [OF simple_wf _ groups whole, where base = "replicate 64 7" and malloc = "\<lambda>k n. Some (replicate n CHR ''x'')"]
    unfolding names simple_layout_def by (auto simp: simple_wf_members)
qed

section \<open>Opening the socket of the transport over Unix sockets\<close>

text \<open>A kernel in which every call succeeds and a new descriptor is larger than all before it.\<close>

definition demo_kernel :: kernel where
  "demo_kernel log c =
     (case c of Sys_Socket \<Rightarrow> 3 + (\<Sum>e\<leftarrow>log. \<bar>snd e\<bar>) | Sys_Accept fd \<Rightarrow> 3 + (\<Sum>e\<leftarrow>log. \<bar>snd e\<bar>) | _ \<Rightarrow> 0)"

lemma open_fds_bound: "r \<in> open_fds log \<Longrightarrow> r \<le> (\<Sum>e\<leftarrow>log. \<bar>snd e\<bar>)"
proof (induction log rule: rev_induct)
  case Nil
  then show ?case by (simp add: open_fds_def)
next
  case (snoc e log)
  obtain c v where e: "e = (c, v)" by force
  from snoc.prems have "r \<in> open_fds log \<or> r = v" unfolding e by (cases c) (auto split: if_splits)
  moreover have "0 \<le> (\<Sum>e\<leftarrow>log. \<bar>snd e\<bar>)" by (rule sum_list_nonneg) auto
  ultimately show ?case using snoc.IH e by fastforce
qed

lemma demo_kernel_fresh: "fresh_fds demo_kernel"
  using open_fds_bound by (fastforce simp: fresh_fds_def demo_kernel_def)

theorem ipc_init_descriptors_example:
  "(\<exists>log. nb__ipc_init demo_kernel ''/tmp/ipc_socket'' 0 [] = Inr (3, log) \<and> open_fds log = {3}) \<and>
   (\<exists>log fd first. nb__ipc_init demo_kernel ''/tmp/ipc_socket'' 1 [] = Inr (fd, log) \<and> first \<noteq> fd \<and> open_fds log = {fd, first})"
proof -
  note init = ipc_init_descriptors [OF demo_kernel_fresh, of "''/tmp/ipc_socket''" _ "[]", THEN conjunct1, rule_format]
  obtain log where c: "nb__ipc_init demo_kernel ''/tmp/ipc_socket'' 0 [] = Inr (3, log)"
    by (simp add: nb__ipc_init_def ipc_connect_result setup_defs demo_kernel_def)
  obtain fd log' where a: "nb__ipc_init demo_kernel ''/tmp/ipc_socket'' 1 [] = Inr (fd, log')"
    by (simp add: nb__ipc_init_def ipc_accept_def setup_defs demo_kernel_def SUN_PATH_def)
  have "open_fds [] = {}" by (simp add: open_fds_def)
  then have "open_fds log = {3}" "\<exists>first. first \<noteq> fd \<and> open_fds log' = {fd, first}"
    using init [OF c] init [OF a] by simp_all
  with c a show ?thesis by blast
qed

end
