(* ===== verification/Pipeline.thy ===== *)
theory Pipeline
  imports Simple_Stack "HOL-Library.Char_ord" "HOL-Library.List_Lexorder" "HOL-Library.Sublist"
begin

text \<open>
  The code generation pipeline: \<open>dynamic_object\<close>, the members that the modules register
  in \<open>conn_layout\<close> and \<open>net_state\<close> (\<open>include/core/connection.h\<close>,
  \<open>src/core/connection.cpp\<close>, the \<open>init_module\<close> functions), and
  \<open>run_nb_pipeline\<close> (\<open>src/core/impl.cpp\<close>), which writes the structs and the
  functions of a protocol. BuildIt, which extracts the functions and prints them, is a parameter. The
  lemmas show which members the structs have, that these are the ones the generated code and the
  runtime use, that every configuration gives a well-formed packet layout, and for which
  configurations the generation succeeds.
\<close>

section \<open>Dynamic objects\<close>

text \<open>The types of the members, as the template arguments name them.\<close>

datatype block_type =
    Base_Type string
  | Named_Type string
  | Pointer_Type block_type
  | Array_Type block_type nat
  | Function_Type block_type "block_type list"

record decl_stmt =
  var_type :: block_type
  var_name :: string
  init_expr :: "string option"

text \<open>\<open>operator[]\<close> of a \<open>std::map\<close> on the left of an assignment: the keys are kept in order.\<close>

fun map_put :: "'k::linorder \<Rightarrow> 'v \<Rightarrow> ('k \<times> 'v) list \<Rightarrow> ('k \<times> 'v) list" where
  "map_put k v [] = [(k, v)]"
| "map_put k v ((k', v') # xs) =
     (if k < k' then (k, v) # (k', v') # xs else if k = k' then (k, v) # xs else (k', v') # map_put k v xs)"

record dynamic_object =
  m_allowed_members :: "(string \<times> int) list"
  m_decl_field :: "(string \<times> decl_stmt) list"

definition register_member :: "block_type \<Rightarrow> string \<Rightarrow> dynamic_object \<Rightarrow> dynamic_object" where
  "register_member T s ob =
     (let decl = \<lparr>var_type = T, var_name = s, init_expr = None\<rparr> in
      ob\<lparr>m_allowed_members := map_put s 1 (m_allowed_members ob), m_decl_field := map_put s decl (m_decl_field ob)\<rparr>)"

section \<open>The members that the modules register\<close>

record gen_objects =
  conn_layout :: dynamic_object
  net_state :: dynamic_object

definition register_conn :: "block_type \<Rightarrow> string \<Rightarrow> gen_objects \<Rightarrow> gen_objects" where
  "register_conn T s ob = ob\<lparr>conn_layout := register_member T s (conn_layout ob)\<rparr>"

definition register_state :: "block_type \<Rightarrow> string \<Rightarrow> gen_objects \<Rightarrow> gen_objects" where
  "register_state T s ob = ob\<lparr>net_state := register_member T s (net_state ob)\<rparr>"

abbreviation (input) bt_int :: block_type where "bt_int \<equiv> Base_Type ''int''"
abbreviation (input) bt_uint :: block_type where "bt_uint \<equiv> Base_Type ''unsigned int''"
abbreviation (input) bt_ull :: block_type where "bt_ull \<equiv> Base_Type ''unsigned long long''"
abbreviation (input) bt_void_ptr :: block_type where "bt_void_ptr \<equiv> Pointer_Type (Base_Type ''void'')"

definition connection_t :: block_type where "connection_t = Named_Type ''nb__connection_t''"
definition data_queue_type :: block_type where "data_queue_type = Named_Type ''nb__data_queue_t''"
definition accept_queue_type :: block_type where "accept_queue_type = Named_Type ''nb__accept_queue_t''"
definition rte_t :: block_type where "rte_t = Named_Type ''struct routing_table_entry''"

definition callback_t :: block_type where
  "callback_t = Function_Type (Base_Type ''void'') [bt_int, Pointer_Type connection_t]"

definition interface_register :: "gen_objects \<Rightarrow> gen_objects" where
  "interface_register ob = register_conn bt_void_ptr ''user_data'' (register_conn callback_t ''callback_f'' ob)"

definition signaling_register :: "gen_objects \<Rightarrow> gen_objects" where
  "signaling_register ob = register_conn bt_int ''signaling_state'' ob"

definition inorder_register :: "nb_config \<Rightarrow> gen_objects \<Rightarrow> gen_objects" where
  "inorder_register C ob =
     (let ob = register_conn bt_uint ''last_sent_sequence'' ob; ob = register_conn bt_uint ''last_recv_sequence'' ob in
      if inorder_strategy C = hold_forever then
        register_conn bt_uint ''max_ooo_sequence''
          (register_conn (Array_Type bt_void_ptr INORDER_BUFFER_SIZE) ''inorder_buffer'' ob)
      else ob)"

definition reliable_register :: "nb_config \<Rightarrow> gen_objects \<Rightarrow> gen_objects" where
  "reliable_register C ob =
     (if \<not> reliable_is_enabled C then ob else
      register_conn bt_uint ''first_unacked_seq''
        (register_conn (Array_Type bt_void_ptr REDELIVERY_BUFFER_SIZE) ''redelivery_buffer'' ob))"

definition identifier_register :: "nb_config \<Rightarrow> gen_objects \<Rightarrow> gen_objects" where
  "identifier_register C ob =
     (let ob = register_conn bt_ull ''remote_host_id'' ob; ob = register_conn bt_uint ''remote_app_id'' ob;
          ob = register_conn bt_uint ''local_app_id'' ob;
          ob = register_conn (Pointer_Type data_queue_type) ''input_queue'' ob;
          ob = register_conn (Pointer_Type accept_queue_type) ''accept_queue'' ob;
          ob = register_state bt_int ''num_conn'' ob;
          ob = register_state (Array_Type bt_uint MAX_ACTIVE_CONNECTIONS) ''active_local_app_ids'' ob;
          ob = (if flow_identifier C = src_dst_identifier then
                  register_state (Array_Type bt_ull MAX_ACTIVE_CONNECTIONS) ''active_remote_host_ids''
                    (register_state (Array_Type bt_uint MAX_ACTIVE_CONNECTIONS) ''active_remote_app_ids'' ob)
                else ob);
          ob = register_state (Array_Type (Pointer_Type connection_t) MAX_ACTIVE_CONNECTIONS) ''active_connections'' ob;
          ob = register_state (Pointer_Type rte_t) ''routing_table'' ob in
      register_state bt_int ''routing_table_len'' ob)"

definition routing_register :: "nb_config \<Rightarrow> gen_objects \<Rightarrow> gen_objects" where
  "routing_register C ob = (if \<not> routing_is_enabled C then ob else register_conn bt_uint ''dst_global_id'' ob)"

text \<open>The calls of \<open>main\<close> in \<open>src/impls/simple.cpp\<close>, in the order of \<open>init_stack\<close>.\<close>

definition no_members :: dynamic_object where
  "no_members = \<lparr>m_allowed_members = [], m_decl_field = []\<rparr>"

definition init_objects :: "nb_config \<Rightarrow> gen_objects" where
  "init_objects C =
     (let ob = interface_register \<lparr>conn_layout = no_members, net_state = no_members\<rparr>;
          ob = signaling_register ob; ob = inorder_register C ob; ob = reliable_register C ob;
          ob = identifier_register C ob in
      routing_register C ob)"

section \<open>The members that the code uses\<close>

text \<open>
  The names that the hooks of a module pass to \<open>conn_layout.get\<close> and
  \<open>get_state\<close>, in the order of the code; a use that the generator guards by the
  configuration is guarded here.
\<close>

definition signaling_uses :: "string list" where "signaling_uses = [''signaling_state'']"

definition inorder_uses :: "nb_config \<Rightarrow> string list" where
  "inorder_uses C = [''last_sent_sequence'', ''last_recv_sequence'', ''input_queue''] @
     (if inorder_strategy C = hold_forever then [''inorder_buffer'', ''max_ooo_sequence''] else [])"

definition reliable_uses :: "string list" where "reliable_uses = [''redelivery_buffer'']"

definition identifier_uses :: "nb_config \<Rightarrow> string list" where
  "identifier_uses C = [''remote_host_id'', ''remote_app_id'', ''local_app_id'', ''input_queue'', ''accept_queue''] @
     (if flow_identifier C = src_dst_identifier then [''callback_f''] else [])"

definition identifier_state_uses :: "nb_config \<Rightarrow> string list" where
  "identifier_state_uses C = [''num_conn'', ''routing_table'', ''routing_table_len'', ''active_local_app_ids'', ''active_connections''] @
     (if flow_identifier C = src_dst_identifier then [''active_remote_app_ids'', ''active_remote_host_ids''] else [])"

definition routing_uses :: "string list" where "routing_uses = [''dst_global_id'']"

fun conn_uses :: "nb_config \<Rightarrow> module_id \<Rightarrow> string list" where
  "conn_uses C Signaling_Module = signaling_uses"
| "conn_uses C Signaling_Module_After = signaling_uses"
| "conn_uses C Inorder_Module = inorder_uses C"
| "conn_uses C Reliable_Module = reliable_uses"
| "conn_uses C Identifier_Module = identifier_uses C"
| "conn_uses C Routing_Module = routing_uses"
| "conn_uses C m = []"

fun state_uses :: "nb_config \<Rightarrow> module_id \<Rightarrow> string list" where
  "state_uses C Identifier_Module = identifier_state_uses C"
| "state_uses C m = []"

text \<open>\<open>establish_impl\<close> and the functions of \<open>nb_runtime.c\<close>.\<close>

definition interface_uses :: "string list" where "interface_uses = [''callback_f'']"

definition runtime_conn_uses :: "string list" where
  "runtime_conn_uses = [''input_queue'', ''accept_queue'', ''local_app_id'', ''callback_f'', ''signaling_state'', ''user_data'']"

text \<open>The POSIX layer (\<open>network.c\<close>).\<close>

definition posix_conn_uses :: "string list" where
  "posix_conn_uses = [''remote_app_id'', ''remote_host_id'', ''input_queue'']"

definition runtime_state_uses :: "string list" where
  "runtime_state_uses = [''num_conn'', ''active_connections'']"

text \<open>The packet members that the hooks look up; \<open>operator[]\<close> ends the generator when one is missing.\<close>

fun send_uses :: "nb_config \<Rightarrow> module_id \<Rightarrow> string list" where
  "send_uses C Payload_Module = (if \<not> isIPCompat (compat_level C) then [''total_len''] else []) @ [''computed_total_len'', ''payload'']"
| "send_uses C Inorder_Module = (if inorder_strategy C \<noteq> no_inorder \<or> reliable_is_enabled C then [''sequence_number''] else [])"
| "send_uses C Reliable_Module = [''sequence_number'', ''redelivery_timer'', ''ack_sequence_number'']"
| "send_uses C Identifier_Module = [''dst_host_id'', ''dst_app_id'', ''src_host_id'', ''src_app_id''] @
     (if isEthCompat (compat_level C) then [''protocol_identifier''] else [])"
| "send_uses C Routing_Module = [''dst_global_id'', ''src_global_id''] @
     (if isIPCompat (compat_level C) then
        [''ip_VIDE'', ''ip_IFF'', ''ip_ttl'', ''ip_protocol'', ''ip_header_checksum'', ''ip_total_len''] else [])"
| "send_uses C Checksum_Module = ''checksum'' # (if checksum_type C = full_packet then [''computed_total_len''] else [])"
| "send_uses C Network_Module = [''computed_total_len'']"
| "send_uses C m = []"

fun ingress_uses :: "nb_config \<Rightarrow> module_id \<Rightarrow> string list" where
  "ingress_uses C Payload_Module = (if \<not> isIPCompat (compat_level C) then [''computed_total_len'', ''total_len''] else [])"
| "ingress_uses C Signaling_Module = [''flow_identifier'']"
| "ingress_uses C Inorder_Module = ''flow_identifier'' #
     (if inorder_strategy C = drop_out_of_order then [''sequence_number'', ''computed_total_len'', ''payload'']
      else if inorder_strategy C = hold_forever then [''sequence_number'', ''computed_total_len'', ''total_len'', ''payload'']
      else [''computed_total_len'', ''payload''])"
| "ingress_uses C Reliable_Module = [''ack_sequence_number'', ''flow_identifier'', ''redelivery_timer'', ''sequence_number'',
     ''total_len'', ''computed_total_len'']"
| "ingress_uses C Identifier_Module = [''dst_host_id'', ''dst_app_id'', ''src_app_id'', ''src_host_id'', ''flow_identifier'']"
| "ingress_uses C Routing_Module = (if isIPCompat (compat_level C) then [''ip_total_len'', ''computed_total_len''] else [])"
| "ingress_uses C Checksum_Module = ''checksum'' # (if checksum_type C = full_packet then [''computed_total_len''] else [])"
| "ingress_uses C Network_Module = (if \<not> isIPCompat (compat_level C) then [''computed_total_len'', ''total_len''] else [])"
| "ingress_uses C m = []"

definition modules_after :: "module_id \<Rightarrow> module_id list \<Rightarrow> module_id list" where
  "modules_after m ms = drop 1 (dropWhile (\<lambda>x. x \<noteq> m) ms)"

definition establish_uses :: "nb_config \<Rightarrow> module_id list \<Rightarrow> string list" where
  "establish_uses C ms =
     (if \<not> signaling_is_enabled C then [] else
      (if \<not> isIPCompat (compat_level C) then [''total_len''] else []) @ [''computed_total_len''] @
      concat (map (send_uses C) (modules_after Signaling_Module ms)))"

text \<open>The ingress path runs the modules from the last to the first, and a packet is acknowledged by the hooks after the reliable module.\<close>

definition all_ingress_uses :: "nb_config \<Rightarrow> module_id list \<Rightarrow> string list" where
  "all_ingress_uses C ms = concat (map (\<lambda>m. ingress_uses C m @
     (if m = Reliable_Module then concat (map (send_uses C) (modules_after Reliable_Module ms)) else [])) (rev ms))"

section \<open>The pipeline\<close>

text \<open>
  What the pipeline takes from BuildIt: \<open>printer::indent\<close>, \<open>generate_code\<close> on
  a declaration and on a function, \<open>extract_function_ast\<close> and
  \<open>eliminate_redundant_vars\<close>.
\<close>

datatype gen_function =
    establish_wrapper | destablish_wrapper | send_wrapper | run_ingress_step_wrapper | net_init_wrapper | redelivery_cb_function
  | iterate_and_generate_function

record 'ast buildit =
  indent :: "nat \<Rightarrow> string"
  generate_decl :: "decl_stmt \<Rightarrow> string"
  extract_function_ast :: "gen_function \<Rightarrow> string \<Rightarrow> 'ast"
  eliminate_redundant_vars :: "'ast \<Rightarrow> 'ast"
  generate_code :: "'ast \<Rightarrow> string"

definition endl :: string where "endl = [CHR 0x0A]"

fun show_nat :: "nat \<Rightarrow> string" where
  "show_nat n = (if n < 10 then [char_of (48 + n)] else show_nat (n div 10) @ [char_of (48 + n mod 10)])"

declare show_nat.simps [simp del]

definition generate_struct_decl :: "'ast buildit \<Rightarrow> string \<Rightarrow> dynamic_object \<Rightarrow> nat \<Rightarrow> string \<times> nat" where
  "generate_struct_decl B struct_name ob dynamic_object_counter =
     (let tag = ''struct dynamic_struct_'' @ show_nat dynamic_object_counter in
      (tag @ '';'' @ endl @ ''typedef '' @ tag @ '' '' @ struct_name @ '';'' @ endl @ tag @ '' {'' @ endl @
         concat (map (\<lambda>v. indent B 1 @ generate_decl B (snd v)) (m_decl_field ob)) @ ''};'' @ endl,
       dynamic_object_counter + 1))"

definition generate_headers :: string where
  "generate_headers = ''#include '' @ [CHR 0x22] @ ''nb_runtime.h'' @ [CHR 0x22] @ endl"

text \<open>Extracting a function runs the hooks, which look up members of the packet.\<close>

definition look_up :: "dynamic_layout \<Rightarrow> string list \<Rightarrow> unit res" where
  "look_up L ns = bindE (mapE (layout_member L) ns) (\<lambda>_. Inr ())"

definition generate_function :: "'ast buildit \<Rightarrow> dynamic_layout \<Rightarrow> string list \<Rightarrow> gen_function \<Rightarrow> string \<Rightarrow> string res" where
  "generate_function B L uses f name =
     bindE (look_up L uses) (\<lambda>_. Inr (generate_code B (eliminate_redundant_vars B (extract_function_ast B f name))))"

definition generate_net_init :: "'ast buildit \<Rightarrow> gen_state \<Rightarrow> string res" where
  "generate_net_init B g = generate_function B (gen_layout g) [] net_init_wrapper ''nb__net_init''"

definition generate_establish :: "'ast buildit \<Rightarrow> nb_config \<Rightarrow> gen_state \<Rightarrow> string res" where
  "generate_establish B C g =
     generate_function B (gen_layout g) (establish_uses C (gen_modules g)) establish_wrapper ''nb__establish''"

definition generate_destablish :: "'ast buildit \<Rightarrow> gen_state \<Rightarrow> string res" where
  "generate_destablish B g = generate_function B (gen_layout g) [] destablish_wrapper ''nb__destablish''"

definition generate_send :: "'ast buildit \<Rightarrow> nb_config \<Rightarrow> gen_state \<Rightarrow> string res" where
  "generate_send B C g =
     generate_function B (gen_layout g) (concat (map (send_uses C) (gen_modules g))) send_wrapper ''nb__send''"

definition generate_ingress_step :: "'ast buildit \<Rightarrow> nb_config \<Rightarrow> gen_state \<Rightarrow> string res" where
  "generate_ingress_step B C g =
     generate_function B (gen_layout g) (all_ingress_uses C (gen_modules g)) run_ingress_step_wrapper ''nb__run_ingress_step''"

definition gen_timer_callback :: "'ast buildit \<Rightarrow> gen_state \<Rightarrow> string res" where
  "gen_timer_callback B g =
     generate_function B (gen_layout g) [''computed_total_len''] redelivery_cb_function ''nb__reliable_redelivery_timer_cb''"

definition generate_connection_layout :: "'ast buildit \<Rightarrow> gen_objects \<Rightarrow> dynamic_layout \<Rightarrow> string res" where
  "generate_connection_layout B ob L =
     (case generate_struct_decl B ''nb__connection_t'' (conn_layout ob) 0 of (conn_decl, n) \<Rightarrow>
      case generate_struct_decl B ''nb__net_state_t'' (net_state ob) n of (state_decl, n) \<Rightarrow>
      bindE (get_headroom L) (\<lambda>headroom.
      Inr (''#pragma once'' @ endl @ ''#include '' @ [CHR 0x22] @ ''nb_data_queue.h'' @ [CHR 0x22] @ endl @ conn_decl @ state_decl @
           ''static const int nb__packet_headroom = '' @ show_nat headroom @ '';'' @ endl)))"

text \<open>The text of the plugin, whose function \<open>iterate_and_generate\<close> the theory \<open>Wireshark_Plugin\<close> models.\<close>

definition generate_wireshark_plugin :: "'ast buildit \<Rightarrow> string" where
  "generate_wireshark_plugin B =
     ''#include '' @ [CHR 0x22] @ ''config.h'' @ [CHR 0x22] @ endl @ ''#include <epan/packet.h>'' @ endl @ ''#include<stdio.h>'' @ endl @
     generate_code B (eliminate_redundant_vars B (extract_function_ast B iterate_and_generate_function ''run_plugin''))"

text \<open>The texts of the header file and of the output file.\<close>

definition run_nb_pipeline :: "'ast buildit \<Rightarrow> nb_config \<Rightarrow> gen_objects \<Rightarrow> gen_state \<Rightarrow> (string \<times> string) res" where
  "run_nb_pipeline B C ob g =
     bindE (generate_connection_layout B ob (gen_layout g)) (\<lambda>hoss.
     bindE (generate_net_init B g) (\<lambda>net_init.
     bindE (generate_establish B C g) (\<lambda>establish.
     bindE (generate_destablish B g) (\<lambda>destablish.
     bindE (generate_send B C g) (\<lambda>send.
     bindE (generate_ingress_step B C g) (\<lambda>ingress.
     bindE (gen_timer_callback B g) (\<lambda>timer.
     Inr (hoss, generate_headers @ net_init @ establish @ destablish @ send @ ingress @ timer))))))))"

text \<open>\<open>main\<close> of \<open>src/impls/simple.cpp\<close> with any configuration of the modules.\<close>

definition generator_main :: "'ast buildit \<Rightarrow> nb_config \<Rightarrow> (string \<times> string) res" where
  "generator_main B C =
     bindE (init_stack C) (\<lambda>g.
     bindE (print_layout (gen_layout g)) (\<lambda>_.
     run_nb_pipeline B C (init_objects C) g))"

section \<open>The structs\<close>

definition members_of :: "dynamic_object \<Rightarrow> string list" where
  "members_of ob = map fst (m_decl_field ob)"

lemma map_put_keys: "set (map fst (map_put k v xs)) = insert k (set (map fst xs))"
  by (induction k v xs rule: map_put.induct) auto

lemma map_put_sorted: "sorted_wrt (<) (map fst xs) \<Longrightarrow> sorted_wrt (<) (map fst (map_put k v xs))"
proof (induction xs)
  case (Cons x xs)
  obtain k' v' where x: "x = (k', v')" by force
  have "sorted_wrt (<) (map fst (map_put k v xs))" "sorted_wrt (<) (map fst xs)" using Cons by simp_all
  moreover have "\<forall>y \<in> set (map fst xs). k' < y" using Cons.prems x by simp
  ultimately show ?case
    by (cases k k' rule: linorder_cases) (auto simp: x Cons.prems map_put_keys simp del: set_map intro: less_trans)
qed simp

definition object_inv :: "dynamic_object \<Rightarrow> bool" where
  "object_inv ob \<longleftrightarrow> sorted_wrt (<) (members_of ob) \<and> map fst (m_allowed_members ob) = members_of ob \<and>
     (\<forall>v \<in> set (m_decl_field ob). var_name (snd v) = fst v)"

lemma map_put_fst:
  assumes "map fst xs = map fst ys"
  shows "map fst (map_put k v xs) = map fst (map_put k w ys)"
proof -
  have "length xs = length ys" using assms map_eq_imp_length_eq by blast
  then show ?thesis using assms by (induction xs ys rule: list_induct2) auto
qed

lemma map_put_set: "set (map_put k v xs) \<subseteq> insert (k, v) (set xs)"
  by (induction k v xs rule: map_put.induct) auto

lemma register_member_inv [intro]:
  assumes ob: "object_inv ob"
  shows "object_inv (register_member T s ob)"
proof -
  let ?d = "\<lparr>var_type = T, var_name = s, init_expr = None\<rparr>"
  have "sorted_wrt (<) (map fst (map_put s ?d (m_decl_field ob)))"
    using ob by (intro map_put_sorted) (simp add: object_inv_def members_of_def)
  moreover have "map fst (map_put s (1::int) (m_allowed_members ob)) = map fst (map_put s ?d (m_decl_field ob))"
    using ob by (intro map_put_fst) (simp add: object_inv_def members_of_def)
  moreover have "\<forall>v \<in> set (map_put s ?d (m_decl_field ob)). var_name (snd v) = fst v"
    using ob map_put_set [of s ?d "m_decl_field ob"] by (auto simp: object_inv_def)
  ultimately show ?thesis by (simp add: object_inv_def register_member_def members_of_def Let_def)
qed

lemma register_member_set [simp]: "set (members_of (register_member T s ob)) = insert s (set (members_of ob))"
  by (simp add: register_member_def members_of_def Let_def map_put_keys del: set_map)

lemma no_members_inv [intro!, simp]: "object_inv no_members" "members_of no_members = []"
  by (simp_all add: object_inv_def no_members_def members_of_def)

definition objects_inv :: "gen_objects \<Rightarrow> bool" where
  "objects_inv ob \<longleftrightarrow> object_inv (conn_layout ob) \<and> object_inv (net_state ob)"

abbreviation conn_members :: "gen_objects \<Rightarrow> string set" where
  "conn_members ob \<equiv> set (members_of (conn_layout ob))"

abbreviation state_members :: "gen_objects \<Rightarrow> string set" where
  "state_members ob \<equiv> set (members_of (net_state ob))"

lemma register_simps [simp]:
  "objects_inv ob \<Longrightarrow> objects_inv (register_conn T s ob)"
  "conn_members (register_conn T s ob) = insert s (conn_members ob)"
  "net_state (register_conn T s ob) = net_state ob"
  "objects_inv ob \<Longrightarrow> objects_inv (register_state T s ob)"
  "state_members (register_state T s ob) = insert s (state_members ob)"
  "conn_layout (register_state T s ob) = conn_layout ob"
  by (auto simp: objects_inv_def register_conn_def register_state_def)

lemmas register_defs = interface_register_def signaling_register_def inorder_register_def
  reliable_register_def identifier_register_def routing_register_def Let_def

lemma module_registers:
  "conn_members (interface_register ob) = {''user_data'', ''callback_f''} \<union> conn_members ob"
  "conn_members (signaling_register ob) = {''signaling_state''} \<union> conn_members ob"
  "conn_members (inorder_register C ob) =
     (if inorder_strategy C = hold_forever then {''max_ooo_sequence'', ''inorder_buffer''} else {}) \<union>
     ({''last_recv_sequence'', ''last_sent_sequence''} \<union> conn_members ob)"
  "conn_members (reliable_register C ob) =
     (if reliable_is_enabled C then {''first_unacked_seq'', ''redelivery_buffer''} else {}) \<union> conn_members ob"
  "conn_members (identifier_register C ob) =
     {''accept_queue'', ''input_queue'', ''local_app_id'', ''remote_app_id'', ''remote_host_id''} \<union> conn_members ob"
  "conn_members (routing_register C ob) = (if routing_is_enabled C then {''dst_global_id''} else {}) \<union> conn_members ob"
  "state_members (identifier_register C ob) =
     {''routing_table_len'', ''routing_table'', ''active_connections''} \<union>
     ((if flow_identifier C = src_dst_identifier then {''active_remote_host_ids'', ''active_remote_app_ids''} else {}) \<union>
     ({''active_local_app_ids'', ''num_conn''} \<union> state_members ob))"
  by (simp_all add: register_defs insert_commute)

lemma module_registers_state:
  "net_state (interface_register ob) = net_state ob" "net_state (signaling_register ob) = net_state ob"
  "net_state (inorder_register C ob) = net_state ob" "net_state (reliable_register C ob) = net_state ob"
  "net_state (routing_register C ob) = net_state ob"
  by (simp_all add: register_defs)

lemma module_registers_inv:
  "objects_inv ob \<Longrightarrow> objects_inv (interface_register ob)" "objects_inv ob \<Longrightarrow> objects_inv (signaling_register ob)"
  "objects_inv ob \<Longrightarrow> objects_inv (inorder_register C ob)" "objects_inv ob \<Longrightarrow> objects_inv (reliable_register C ob)"
  "objects_inv ob \<Longrightarrow> objects_inv (identifier_register C ob)" "objects_inv ob \<Longrightarrow> objects_inv (routing_register C ob)"
  by (simp_all add: register_defs)

lemma init_objects_inv: "objects_inv (init_objects C)"
  unfolding init_objects_def Let_def by (intro module_registers_inv) (simp add: objects_inv_def)

definition conn_member_list :: "nb_config \<Rightarrow> string list" where
  "conn_member_list C =
     (if routing_is_enabled C then [''dst_global_id''] else []) @
     [''accept_queue'', ''input_queue'', ''local_app_id'', ''remote_app_id'', ''remote_host_id''] @
     (if reliable_is_enabled C then [''first_unacked_seq'', ''redelivery_buffer''] else []) @
     (if inorder_strategy C = hold_forever then [''max_ooo_sequence'', ''inorder_buffer''] else []) @
     [''last_recv_sequence'', ''last_sent_sequence''] @ [''signaling_state''] @ [''user_data'', ''callback_f'']"

definition state_member_list :: "nb_config \<Rightarrow> string list" where
  "state_member_list C =
     [''routing_table_len'', ''routing_table'', ''active_connections''] @
     (if flow_identifier C = src_dst_identifier then [''active_remote_host_ids'', ''active_remote_app_ids''] else []) @
     [''active_local_app_ids'', ''num_conn'']"

lemma init_conn_members: "conn_members (init_objects C) = set (conn_member_list C)"
  unfolding init_objects_def Let_def module_registers conn_member_list_def
  by (simp only: set_append if_distrib [of set] list.set gen_objects.simps no_members_inv Un_empty_right)

lemma init_state_members: "state_members (init_objects C) = set (state_member_list C)"
  unfolding init_objects_def Let_def module_registers module_registers_state state_member_list_def
  by (simp only: set_append if_distrib [of set] list.set gen_objects.simps no_members_inv Un_empty_right)

section \<open>The packet layout of every configuration\<close>

text \<open>
  \<open>laid_out L ns\<close>: the layout is well-formed, its members are \<open>ns\<close>, and once
  \<open>dst_host_id\<close> is added the group 1 is not empty.
\<close>

definition laid_out :: "dynamic_layout \<Rightarrow> string set \<Rightarrow> bool" where
  "laid_out L ns \<longleftrightarrow> wf_layout L \<and> set (member_names L) = ns \<and> dom (m_members_map L) = ns \<and>
     (''dst_host_id'' \<in> ns \<longrightarrow> 1 < length (m_registered_members L) \<and> m_registered_members L ! 1 \<noteq> [])"

lemma mset_concat_add:
  "i < length xs \<Longrightarrow> mset (concat (xs[i := xs ! i @ [n]])) = add_mset n (mset (concat xs))"
  by (induction xs arbitrary: i) (auto split: nat.splits)

lemma concat_grown [simp]: "concat (xs @ replicate k []) = concat xs"
  by (induction k) auto

lemma add_member_names: "mset (member_names (add_member n m grp L)) = add_mset n (mset (member_names L))"
proof -
  let ?xs = "m_registered_members L @ replicate (Suc grp - length (m_registered_members L)) []"
  have "member_names (add_member n m grp L) = concat (?xs[grp := ?xs ! grp @ [n]])"
    by (simp add: member_names_def add_member_def Let_def)
  then show ?thesis using mset_concat_add [of grp ?xs n] by (simp add: member_names_def)
qed

lemma laid_out_add:
  assumes L: "laid_out L ns" and n: "n \<notin> ns" and one: "n = ''dst_host_id'' \<longrightarrow> grp = 1"
  shows "laid_out (add_member n m grp L) (insert n ns)"
proof -
  have "mset (member_names (add_member n m grp L)) = mset (n # member_names L)"
    by (simp add: add_member_names)
  then have names: "set (member_names (add_member n m grp L)) = insert n ns" "distinct (member_names (add_member n m grp L))"
    using L n mset_eq_setD [of "member_names (add_member n m grp L)" "n # member_names L"]
      mset_eq_imp_distinct_iff [of "member_names (add_member n m grp L)" "n # member_names L"]
    by (auto simp: laid_out_def wf_layout_def)
  moreover have "dom (m_members_map (add_member n m grp L)) = insert n ns"
    using L by (simp add: laid_out_def add_member_def Let_def)
  moreover have "1 < length (m_registered_members (add_member n m grp L)) \<and> m_registered_members (add_member n m grp L) ! 1 \<noteq> []"
    if "''dst_host_id'' \<in> insert n ns"
    using that L one by (auto simp: laid_out_def add_member_def Let_def nth_list_update nth_append)
  ultimately show ?thesis using names by (auto simp: laid_out_def wf_layout_def)
qed

lemma gen_add_simps [simp]:
  "gen_layout (gen_add n m grp g) = add_member n m grp (gen_layout g)" "gen_modules (gen_add n m grp g) = gen_modules g"
  "gen_layout (gen_register m' g) = gen_layout g" "gen_modules (gen_register m' g) = gen_modules g @ [m']"
  by (simp_all add: gen_add_def gen_register_def register_module_def)

text \<open>What a module adds to the layout and to the modules.\<close>

definition extends :: "gen_state \<Rightarrow> gen_state \<Rightarrow> string list \<Rightarrow> module_id list \<Rightarrow> bool" where
  "extends g g' new ms \<longleftrightarrow> gen_modules g' = gen_modules g @ ms \<and>
     (\<forall>ns. laid_out (gen_layout g) ns \<longrightarrow> distinct new \<longrightarrow> set new \<inter> ns = {} \<longrightarrow> laid_out (gen_layout g') (set new \<union> ns))"

lemma extends_refl: "extends g g [] []"
  by (simp add: extends_def)

lemma extends_register: "extends g g' new ms \<Longrightarrow> extends g (gen_register m g') new (ms @ [m])"
  by (simp add: extends_def)

lemma extends_add: "extends g g' new ms \<Longrightarrow> n \<noteq> ''dst_host_id'' \<or> grp = 1 \<Longrightarrow> extends g (gen_add n m grp g') (n # new) ms"
  unfolding extends_def by (auto intro!: laid_out_add)

lemma extends_trans:
  assumes "extends g g' new ms" "extends g' g'' new' ms'"
  shows "extends g g'' (new' @ new) (ms @ ms')"
  unfolding extends_def
proof (intro conjI allI impI)
  show "gen_modules g'' = gen_modules g @ ms @ ms'" using assms by (simp add: extends_def)
  fix ns assume ns: "laid_out (gen_layout g) ns" "distinct (new' @ new)" "set (new' @ new) \<inter> ns = {}"
  then have "distinct new" "set new \<inter> ns = {}" and new': "distinct new'" "set new' \<inter> (set new \<union> ns) = {}" by auto
  then have "laid_out (gen_layout g') (set new \<union> ns)" using assms(1) ns(1) by (simp add: extends_def)
  then have "laid_out (gen_layout g'') (set new' \<union> (set new \<union> ns))" using assms(2) new' by (simp add: extends_def)
  then show "laid_out (gen_layout g'') (set (new' @ new) \<union> ns)" by (simp add: Un_assoc)
qed

lemmas extends_intros = extends_refl extends_register extends_add

lemma extends_interface: "extends g (interface_init_module g) [''computed_total_len''] []"
  unfolding interface_init_module_def by (intro extends_intros) simp

definition payload_names :: "nb_config \<Rightarrow> string list" where
  "payload_names C = (if \<not> isIPCompat (compat_level C) then [''total_len''] else []) @ [''payload'']"

lemma extends_payload: "payload_init_module C g = Inr g' \<Longrightarrow> extends g g' (payload_names C) [Payload_Module]"
  unfolding payload_init_module_def payload_names_def Let_def
  by (auto simp: resE split: if_splits intro!: extends_register [where ms = "[]", simplified] extends_add extends_refl)

lemma extends_signaling: "extends g (signaling_init_module g) [''is_signaling''] [Signaling_Module]"
  unfolding signaling_init_module_def
  by (intro extends_add extends_register [where ms = "[]", simplified] extends_refl) simp

definition inorder_names :: "nb_config \<Rightarrow> string list" where
  "inorder_names C = (if inorder_strategy C \<noteq> no_inorder \<or> reliable_is_enabled C then [''sequence_number''] else [])"

lemma extends_inorder: "extends g (inorder_init_module C g) (inorder_names C) [Inorder_Module]"
  unfolding inorder_init_module_def inorder_names_def
  by (auto intro!: extends_register [where ms = "[]", simplified] extends_add extends_refl)

definition reliable_names :: "nb_config \<Rightarrow> string list" where
  "reliable_names C = (if reliable_is_enabled C then [''redelivery_timer'', ''ack_sequence_number''] else [])"

lemma extends_reliable:
  "extends g (reliable_init_module C g) (reliable_names C) (if reliable_is_enabled C then [Reliable_Module] else [])"
  unfolding reliable_init_module_def reliable_names_def
  by (auto intro!: extends_register [where ms = "[]", simplified] extends_add extends_refl)

definition identifier_names :: "nb_config \<Rightarrow> string list" where
  "identifier_names C =
     (if isUDPCompat (compat_level C) then [''udp_checksum'', ''udp_len''] else []) @ [''src_app_id'', ''dst_app_id''] @
     (if isEthCompat (compat_level C) then [''protocol_identifier''] else []) @ [''src_host_id'', ''dst_host_id'', ''flow_identifier'']"

lemma extends_identifier: "identifier_init_module C g = Inr g' \<Longrightarrow> extends g g' (identifier_names C) [Identifier_Module]"
  unfolding identifier_init_module_def identifier_names_def Let_def
  by (clarsimp simp only: bindE_eq_Inr sum.inject)
    (intro extends_register [where ms = "[]", simplified], simp split: if_split, intro conjI impI extends_add extends_refl; simp)

definition routing_names :: "nb_config \<Rightarrow> string list" where
  "routing_names C =
     (if routing_is_enabled C then [''src_global_id'', ''dst_global_id''] else []) @
     (if routing_is_enabled C \<and> isIPCompat (compat_level C) then
        [''ip_header_checksum'', ''ip_protocol'', ''ip_ttl'', ''ip_IFF'', ''ip_total_len'', ''ip_VIDE''] else [])"

lemma extends_routing:
  "extends g (routing_init_module C g) (routing_names C) (if routing_is_enabled C then [Routing_Module] else [])"
  unfolding routing_init_module_def routing_names_def Let_def
  by (auto intro!: extends_register [where ms = "[]", simplified] extends_add extends_refl)

definition checksum_names :: "nb_config \<Rightarrow> string list" where
  "checksum_names C = (if checksum_is_enabled C then [''checksum''] else [])"

lemma extends_checksum:
  "extends g (checksum_init_module C g) (checksum_names C) (if checksum_is_enabled C then [Checksum_Module] else [])"
  unfolding checksum_init_module_def checksum_names_def
  by (auto intro!: extends_register [where ms = "[]", simplified] extends_add extends_refl)

lemma extends_modules:
  "extends g (signaling_after_init_module g) [] [Signaling_Module_After]" "extends g (network_init_module g) [] [Network_Module]"
  unfolding signaling_after_init_module_def network_init_module_def
  by (intro extends_register [where ms = "[]", simplified] extends_refl)+

definition layout_names :: "nb_config \<Rightarrow> string list" where
  "layout_names C =
     checksum_names C @ routing_names C @ identifier_names C @ reliable_names C @ inorder_names C @ [''is_signaling''] @
     payload_names C @ [''computed_total_len'']"

definition config_modules :: "nb_config \<Rightarrow> module_id list" where
  "config_modules C =
     [Payload_Module, Signaling_Module, Inorder_Module] @ (if reliable_is_enabled C then [Reliable_Module] else []) @
     [Identifier_Module, Signaling_Module_After] @ (if routing_is_enabled C then [Routing_Module] else []) @
     (if checksum_is_enabled C then [Checksum_Module] else []) @ [Network_Module]"

lemmas names_defs = checksum_names_def routing_names_def identifier_names_def reliable_names_def inorder_names_def payload_names_def

definition all_names :: "string list" where
  "all_names =
     [''checksum''] @ [''src_global_id'', ''dst_global_id''] @
     [''ip_header_checksum'', ''ip_protocol'', ''ip_ttl'', ''ip_IFF'', ''ip_total_len'', ''ip_VIDE''] @
     [''udp_checksum'', ''udp_len''] @ [''src_app_id'', ''dst_app_id''] @ [''protocol_identifier''] @
     [''src_host_id'', ''dst_host_id'', ''flow_identifier''] @ [''redelivery_timer'', ''ack_sequence_number''] @
     [''sequence_number''] @ [''is_signaling''] @ [''total_len''] @ [''payload''] @ [''computed_total_len'']"

lemma layout_names_distinct: "distinct (layout_names C)"
proof -
  have "distinct all_names" by (simp add: all_names_def)
  moreover have "subseq (layout_names C) all_names"
    unfolding layout_names_def all_names_def names_defs append_assoc by (intro list_emb_append_mono) auto
  ultimately show ?thesis using subseq_conv_nths distinct_nthsI by metis
qed

lemma extends_stack:
  assumes "init_stack C = Inr g"
  obtains L where "gen_layout g = fix_layout L" "laid_out L (set (layout_names C))" "gen_modules g = config_modules C"
proof -
  let ?g0 = "\<lparr>gen_layout = empty_layout, gen_modules = []\<rparr>"
  from assms obtain g1 g2 where g1: "payload_init_module C (interface_init_module ?g0) = Inr g1"
    and g2: "identifier_init_module C (reliable_init_module C (inorder_init_module C (signaling_init_module g1))) = Inr g2"
    and g: "g = (let h = network_init_module (checksum_init_module C (routing_init_module C (signaling_after_init_module g2)))
                 in h\<lparr>gen_layout := fix_layout (gen_layout h)\<rparr>)"
    by (auto simp: init_stack_def Let_def bindE_eq_Inr)
  let ?h = "network_init_module (checksum_init_module C (routing_init_module C (signaling_after_init_module g2)))"
  have "extends ?g0 ?h (layout_names C) (config_modules C)"
    using extends_trans [OF extends_interface extends_trans [OF extends_payload [OF g1] extends_trans [OF extends_signaling
      extends_trans [OF extends_inorder extends_trans [OF extends_reliable extends_trans [OF extends_identifier [OF g2]
      extends_trans [OF extends_modules(1) extends_trans [OF extends_routing extends_trans [OF extends_checksum extends_modules(2)]]]]]]]]]
    by (simp only: layout_names_def config_modules_def append_assoc append_Nil append_Cons)
  moreover have "laid_out empty_layout {}" by (simp add: laid_out_def empty_layout_def wf_layout_def member_names_def)
  ultimately have "laid_out (gen_layout ?h) (set (layout_names C))" "gen_modules ?h = config_modules C"
    using layout_names_distinct by (auto simp: extends_def)
  then show ?thesis using that g by (simp add: Let_def)
qed

text \<open>So every offset of the layout is defined, and the group 1 starts at a byte.\<close>

lemma fix_layout_dom: "dom (m_members_map (fix_layout L)) = dom (m_members_map L)"
proof -
  have "m_members_map (fix_layout L) n = None \<longleftrightarrow> m_members_map L n = None" for n
    using fix_layout_kind [of L n] by (metis map_option_is_None)
  then show ?thesis by (simp add: dom_def)
qed

lemma get_offset_defined:
  assumes "wf_layout L" "n \<in> set (member_names L)"
  obtains off where "get_offset (fix_layout L) n = Some off"
  using assms get_offset_chain [OF assms(1)] by (metis in_set_conv_nth)

lemma print_layout_ok:
  assumes "wf_layout L"
  obtains ts where "print_layout (fix_layout L) = Inr ts"
proof -
  have "\<exists>t. bindE (of_option Null_Deref (m_members_map (fix_layout L) n)) (\<lambda>m.
      bindE (member_offset (fix_layout L) n) (\<lambda>off. Inr (n, get_size m, off))) = Inr t" if n: "n \<in> set (member_names L)" for n
  proof -
    obtain off where "get_offset (fix_layout L) n = Some off" using get_offset_defined [OF assms n] .
    moreover obtain m where "m_members_map (fix_layout L) n = Some m"
      using assms n fix_layout_dom [of L] unfolding wf_layout_def by blast
    ultimately show ?thesis by (simp add: member_offset_def)
  qed
  then obtain t where t: "\<And>n. n \<in> set (member_names L) \<Longrightarrow> bindE (of_option Null_Deref (m_members_map (fix_layout L) n)) (\<lambda>m.
      bindE (member_offset (fix_layout L) n) (\<lambda>off. Inr (n, get_size m, off))) = Inr (t n)"
    by metis
  have "print_layout (fix_layout L) = Inr (map (map t) (m_registered_members L))"
    unfolding print_layout_def using t by (auto intro!: mapE_all_ok simp: member_names_def)
  then show ?thesis using that by blast
qed

lemma headroom_ok:
  assumes L: "laid_out L ns" and dst: "''dst_host_id'' \<in> ns"
  obtains h where "get_headroom (fix_layout L) = Inr h"
proof -
  from L dst obtain n rest where g1: "1 < length (m_registered_members L)" "m_registered_members L ! 1 = n # rest"
    by (cases "m_registered_members L ! 1") (auto simp: laid_out_def)
  then have n: "n \<in> set (member_names L)" using nth_mem [OF g1(1)] by (force simp: member_names_def)
  from L have wf: "wf_layout L" by (simp add: laid_out_def)
  obtain off where "get_offset (fix_layout L) n = Some off" using get_offset_defined [OF wf n] .
  moreover obtain m where "m_members_map L n = Some m" using wf n unfolding wf_layout_def by blast
  ultimately have "get_headroom (fix_layout L) = Inr (off div 8)"
    using group_start_fix_layout [OF g1] by (simp add: get_headroom_def)
  then show ?thesis using that by blast
qed

lemma look_up_result:
  assumes "dom (m_members_map L) = ns"
  shows "look_up L us = (if set us \<subseteq> ns then Inr () else Inl (Assert_Fail ''Requested member not found in layout''))"
proof (induction us)
  case (Cons u us)
  have "look_up L (u # us) = bindE (layout_member L u) (\<lambda>_. look_up L us)"
    by (cases "layout_member L u") (simp_all add: look_up_def bindE_assoc)
  then show ?case using Cons assms by (cases "m_members_map L u") (auto simp: layout_member_def)
qed (simp add: look_up_def)

lemma present [simp]:
  "''computed_total_len'' \<in> set (layout_names C)" "''payload'' \<in> set (layout_names C)"
  "''total_len'' \<in> set (layout_names C) \<longleftrightarrow> \<not> isIPCompat (compat_level C)"
  "''is_signaling'' \<in> set (layout_names C)"
  "''sequence_number'' \<in> set (layout_names C) \<longleftrightarrow> inorder_strategy C \<noteq> no_inorder \<or> reliable_is_enabled C"
  "''redelivery_timer'' \<in> set (layout_names C) \<longleftrightarrow> reliable_is_enabled C"
  "''ack_sequence_number'' \<in> set (layout_names C) \<longleftrightarrow> reliable_is_enabled C"
  "''flow_identifier'' \<in> set (layout_names C)" "''dst_host_id'' \<in> set (layout_names C)" "''src_host_id'' \<in> set (layout_names C)"
  "''dst_app_id'' \<in> set (layout_names C)" "''src_app_id'' \<in> set (layout_names C)"
  "''protocol_identifier'' \<in> set (layout_names C) \<longleftrightarrow> isEthCompat (compat_level C)"
  "''dst_global_id'' \<in> set (layout_names C) \<longleftrightarrow> routing_is_enabled C"
  "''src_global_id'' \<in> set (layout_names C) \<longleftrightarrow> routing_is_enabled C"
  "''checksum'' \<in> set (layout_names C) \<longleftrightarrow> checksum_is_enabled C"
  by (simp_all add: layout_names_def names_defs)

lemma ip_present [simp]:
  assumes "routing_is_enabled C" "isIPCompat (compat_level C)"
  shows "''ip_header_checksum'' \<in> set (layout_names C)" "''ip_protocol'' \<in> set (layout_names C)"
    "''ip_ttl'' \<in> set (layout_names C)" "''ip_IFF'' \<in> set (layout_names C)"
    "''ip_total_len'' \<in> set (layout_names C)" "''ip_VIDE'' \<in> set (layout_names C)"
  using assms by (simp_all add: layout_names_def routing_names_def)

lemma subset_list_all: "set xs \<subseteq> A \<longleftrightarrow> list_all (\<lambda>x. x \<in> A) xs"
  by (auto simp: list_all_iff)

lemma config_modules_cases:
  "m \<in> set (config_modules C) \<Longrightarrow> (m = Reliable_Module \<longrightarrow> reliable_is_enabled C) \<and> (m = Routing_Module \<longrightarrow> routing_is_enabled C) \<and>
     (m = Checksum_Module \<longrightarrow> checksum_is_enabled C)"
  by (auto simp: config_modules_def split: if_splits)

lemma send_uses_present:
  assumes "m \<in> set (config_modules C)"
  shows "set (send_uses C m) \<subseteq> set (layout_names C)"
  using config_modules_cases [OF assms] unfolding subset_list_all by (cases m) simp_all

lemma ingress_uses_present:
  assumes "m \<in> set (config_modules C)" "isIPCompat (compat_level C) \<longrightarrow> \<not> reliable_is_enabled C \<and> inorder_strategy C \<noteq> hold_forever"
  shows "set (ingress_uses C m) \<subseteq> set (layout_names C)"
  using config_modules_cases [OF assms(1)] assms(2) unfolding subset_list_all
  by (cases m; cases "inorder_strategy C") (simp_all split: if_splits)

lemma modules_after_subset: "set (modules_after m ms) \<subseteq> set ms"
  unfolding modules_after_def using set_drop_subset set_dropWhileD by fastforce

section \<open>What the pipeline writes\<close>

lemma generate_function_result:
  assumes "dom (m_members_map L) = ns"
  shows "generate_function B L us f name =
    (if set us \<subseteq> ns then Inr (generate_code B (eliminate_redundant_vars B (extract_function_ast B f name)))
     else Inl (Assert_Fail ''Requested member not found in layout''))"
  by (simp add: generate_function_def look_up_result [OF assms])

lemma concat_uses_subset: "set (concat (map f ms)) \<subseteq> A \<longleftrightarrow> (\<forall>m \<in> set ms. set (f m) \<subseteq> A)"
  by auto

lemma ingress_uses_total_len:
  assumes "isIPCompat (compat_level C)" "reliable_is_enabled C \<or> inorder_strategy C = hold_forever"
  obtains m where "m \<in> set (config_modules C)" "''total_len'' \<in> set (ingress_uses C m)"
proof (cases "reliable_is_enabled C")
  case True
  then show thesis using that [of Reliable_Module] by (simp add: config_modules_def)
next
  case False
  then show thesis using that [of Inorder_Module] assms(2) by (simp add: config_modules_def)
qed

lemma send_all_present: "set ms \<subseteq> set (config_modules C) \<Longrightarrow> set (concat (map (send_uses C) ms)) \<subseteq> set (layout_names C)"
  unfolding concat_uses_subset using send_uses_present by blast

lemma establish_uses_present: "set (establish_uses C (config_modules C)) \<subseteq> set (layout_names C)"
  using send_all_present [OF modules_after_subset [of Signaling_Module "config_modules C"]] unfolding establish_uses_def subset_list_all by simp

definition needs_total_len :: "nb_config \<Rightarrow> bool" where
  "needs_total_len C \<longleftrightarrow> isIPCompat (compat_level C) \<and> (reliable_is_enabled C \<or> inorder_strategy C = hold_forever)"

lemma all_ingress_uses_present:
  "set (all_ingress_uses C (config_modules C)) \<subseteq> set (layout_names C) \<longleftrightarrow> \<not> needs_total_len C"
proof (cases "needs_total_len C")
  case True
  then obtain m where "m \<in> set (config_modules C)" "''total_len'' \<in> set (ingress_uses C m)"
    using ingress_uses_total_len by (auto simp: needs_total_len_def)
  then have "''total_len'' \<in> set (all_ingress_uses C (config_modules C))" unfolding all_ingress_uses_def by force
  with True show ?thesis unfolding needs_total_len_def using present(3) by blast
next
  case False
  have "set (ingress_uses C m @ (if m = Reliable_Module then concat (map (send_uses C) (modules_after Reliable_Module (config_modules C)))
      else [])) \<subseteq> set (layout_names C)" if "m \<in> set (config_modules C)" for m
    using ingress_uses_present [OF that] False send_all_present [OF modules_after_subset [of Reliable_Module "config_modules C"]]
    by (cases "m = Reliable_Module") (simp_all add: needs_total_len_def del: set_concat)
  then show ?thesis using False unfolding all_ingress_uses_def concat_uses_subset by (simp only: set_rev) blast
qed

text \<open>
  C40. For every configuration that the modules accept, the generator succeeds or stops at an
  assertion, and which of the two is decided by the configuration alone: it stops exactly when an IP
  or a layer above it is emulated and either packets are acknowledged or packets are held back until
  they are in order, because these two look up \<open>total_len\<close>, which is not in such a
  packet. Otherwise the header holds the two structs and the headroom of the layout, and the output
  file the six functions of the protocol in order.
\<close>

theorem generation_succeeds_iff:
  assumes "init_stack C = Inr g"
  shows "if isIPCompat (compat_level C) \<and> (reliable_is_enabled C \<or> inorder_strategy C = hold_forever)
    then generator_main B C = Inl (Assert_Fail ''Requested member not found in layout'')
    else \<exists>hoss headroom. get_headroom (gen_layout g) = Inr headroom \<and>
      generate_connection_layout B (init_objects C) (gen_layout g) = Inr hoss \<and>
      generator_main B C = Inr (hoss, generate_headers @
        concat (map (\<lambda>(f, name). generate_code B (eliminate_redundant_vars B (extract_function_ast B f name)))
          [(net_init_wrapper, ''nb__net_init''), (establish_wrapper, ''nb__establish''), (destablish_wrapper, ''nb__destablish''),
           (send_wrapper, ''nb__send''), (run_ingress_step_wrapper, ''nb__run_ingress_step''),
           (redelivery_cb_function, ''nb__reliable_redelivery_timer_cb'')]))"
proof -
  obtain L where L: "gen_layout g = fix_layout L" "laid_out L (set (layout_names C))" and ms: "gen_modules g = config_modules C"
    using extends_stack [OF assms] .
  then have dom: "dom (m_members_map (fix_layout L)) = set (layout_names C)" and wf: "wf_layout L"
    by (simp_all add: fix_layout_dom laid_out_def)
  note gen = generate_function_result [OF dom]
  obtain ts where ts: "print_layout (fix_layout L) = Inr ts" using print_layout_ok [OF wf] .
  obtain h where h: "get_headroom (fix_layout L) = Inr h" using headroom_ok [OF L(2)] by auto
  then obtain hoss where hoss: "generate_connection_layout B (init_objects C) (fix_layout L) = Inr hoss"
    unfolding generate_connection_layout_def generate_struct_decl_def Let_def prod.case by (simp only: bindE_Inr)
  have send: "set (concat (map (send_uses C) (config_modules C))) \<subseteq> set (layout_names C)" by (rule send_all_present) simp
  show ?thesis
    using all_ingress_uses_present [of C] establish_uses_present [of C] send
    by (simp add: generator_main_def assms L(1) ms ts h hoss run_nb_pipeline_def generate_net_init_def generate_establish_def
        generate_destablish_def generate_send_def generate_ingress_step_def gen_timer_callback_def gen
        needs_total_len_def del: set_concat)
qed

lemmas uses_defs = inorder_uses_def identifier_uses_def identifier_state_uses_def signaling_uses_def reliable_uses_def
  routing_uses_def interface_uses_def runtime_conn_uses_def posix_conn_uses_def runtime_state_uses_def

text \<open>
  C16. For every configuration that the modules accept, the two generated structs list their members in
  increasing order of the names, each once, and they have exactly the members that the registered
  modules, the interface functions, the runtime and the POSIX layer use: the generated code compiles against them and
  nothing is missing. The only member that nothing uses is \<open>first_unacked_seq\<close>.
\<close>

theorem structs_declare_uses:
  assumes "init_stack C = Inr g"
  shows "sorted_wrt (<) (members_of (conn_layout (init_objects C))) \<and> sorted_wrt (<) (members_of (net_state (init_objects C))) \<and>
    set (members_of (conn_layout (init_objects C))) =
      set (concat (map (conn_uses C) (gen_modules g)) @ interface_uses @ runtime_conn_uses @ posix_conn_uses @
        (if reliable_is_enabled C then [''first_unacked_seq''] else [])) \<and>
    set (members_of (net_state (init_objects C))) = set (concat (map (state_uses C) (gen_modules g)) @ runtime_state_uses)"
proof -
  obtain L where "gen_layout g = fix_layout L" and ms: "gen_modules g = config_modules C" using extends_stack [OF assms] .
  have inv: "object_inv (conn_layout (init_objects C))" "object_inv (net_state (init_objects C))"
    using init_objects_inv [of C] by (simp_all add: objects_inv_def)
  have set_eq: "set xs = set ys \<longleftrightarrow> list_all (\<lambda>x. x \<in> set ys) xs \<and> list_all (\<lambda>y. y \<in> set xs) ys" for xs ys :: "string list"
    by (auto simp: list_all_iff)
  have "set (conn_member_list C) = set (concat (map (conn_uses C) (config_modules C)) @ interface_uses @ runtime_conn_uses @ posix_conn_uses @
      (if reliable_is_enabled C then [''first_unacked_seq''] else []))"
    unfolding set_eq
    by (simp add: conn_member_list_def config_modules_def uses_defs)
  moreover have "set (state_member_list C) = set (concat (map (state_uses C) (config_modules C)) @ runtime_state_uses)"
    unfolding set_eq by (simp add: state_member_list_def config_modules_def uses_defs)
  ultimately show ?thesis using inv by (simp only: init_conn_members init_state_members ms object_inv_def simp_thms)
qed

section \<open>The generator on two configurations\<close>

definition demo_buildit :: "string buildit" where
  "demo_buildit = \<lparr>indent = (\<lambda>n. replicate n (CHR 0x09)), generate_decl = (\<lambda>d. var_name d @ '';'' @ endl),
     extract_function_ast = (\<lambda>f name. name), eliminate_redundant_vars = (\<lambda>a. a), generate_code = (\<lambda>a. a @ ''() {}'' @ endl)\<rparr>"

lemma ip_stack: "\<exists>g. init_stack (simple_config\<lparr>compat_level := IP_COMPAT\<rparr>) = Inr g"
  unfolding init_stack_def payload_init_module_def identifier_init_module_def Let_def by simp

theorem generation_succeeds_iff_example:
  "(\<exists>hoss oss. generator_main demo_buildit simple_config = Inr (hoss, oss)) \<and>
   generator_main demo_buildit (simple_config\<lparr>compat_level := IP_COMPAT\<rparr>) =
     Inl (Assert_Fail ''Requested member not found in layout'')"
proof -
  obtain g where g: "init_stack (simple_config\<lparr>compat_level := IP_COMPAT\<rparr>) = Inr g" using ip_stack by blast
  have "generator_main demo_buildit (simple_config\<lparr>compat_level := IP_COMPAT\<rparr>) =
      Inl (Assert_Fail ''Requested member not found in layout'')"
    using generation_succeeds_iff [OF g, of demo_buildit] by (simp add: isIPCompat_def)
  moreover have "\<exists>hoss oss. generator_main demo_buildit simple_config = Inr (hoss, oss)"
    using generation_succeeds_iff [OF simple_stack, of demo_buildit] by (auto simp: isIPCompat_def)
  ultimately show ?thesis by blast
qed

theorem structs_declare_uses_example:
  "''redelivery_buffer'' \<in> set (members_of (conn_layout (init_objects simple_config))) \<and>
   ''active_remote_host_ids'' \<in> set (members_of (net_state (init_objects simple_config))) \<and>
   distinct (members_of (conn_layout (init_objects simple_config)))"
  using structs_declare_uses [OF simple_stack]
  by (simp add: simple_modules_def uses_defs strict_sorted_iff)

end
