(* ===== verification/Runtime_Interface.thy ===== *)
theory Runtime_Interface
  imports Pipeline
begin

text \<open>
  The interface between the generated code and the runtime. The generator names the functions and
  variables of the runtime with types of its own (\<open>include/core/runtime.h\<close>,
  \<open>src/core/runtime.cpp\<close>) and BuildIt does not compare a call with them; the C compiler
  sees the prototypes of \<open>runtime/nb_runtime.h\<close> and \<open>runtime/nb_timer.h\<close>. The
  theorem says where the two sides agree.
\<close>

section \<open>The names of the generator\<close>

abbreviation (input) bt_void :: block_type where "bt_void \<equiv> Base_Type ''void''"
abbreviation (input) bt_char_ptr :: block_type where "bt_char_ptr \<equiv> Pointer_Type (Base_Type ''char'')"
abbreviation (input) bt_ushort :: block_type where "bt_ushort \<equiv> Base_Type ''unsigned short''"

definition timer_t :: block_type where "timer_t = Named_Type ''nb__timer''"

text \<open>\<open>core/runtime.h\<close>: the variables and their types.\<close>

definition runtime_externs :: "(string \<times> block_type) list" where
  "runtime_externs =
    [(''nb_assert'', Function_Type bt_void [bt_int, bt_char_ptr]),
     (''malloc'', Function_Type bt_void_ptr [bt_int]),
     (''free'', Function_Type bt_void [bt_void_ptr]),
     (''memcpy'', Function_Type bt_void [bt_void_ptr, bt_void_ptr, bt_int]),
     (''memcmp'', Function_Type bt_int [bt_void_ptr, bt_void_ptr, bt_int]),
     (''to_void_ptr'', Function_Type bt_void_ptr [bt_void_ptr]),
     (''to_ull'', Function_Type bt_ull [bt_void_ptr]),
     (''sprintf'', Function_Type bt_void []),
     (''size_of'', Function_Type bt_int []),
     (''poll_packet'', Function_Type bt_char_ptr [Pointer_Type bt_int, bt_int]),
     (''send_packet'', Function_Type bt_int [bt_char_ptr, bt_int]),
     (''new_data_queue'', Function_Type bt_void_ptr []),
     (''free_data_queue'', Function_Type bt_void [bt_void_ptr]),
     (''insert_data_queue'', Function_Type bt_void [bt_void_ptr, bt_void_ptr, bt_int]),
     (''new_accept_queue'', Function_Type bt_void_ptr []),
     (''free_accept_queue'', Function_Type bt_void [bt_void_ptr]),
     (''insert_accept_queue'', Function_Type bt_void [bt_void_ptr, bt_void_ptr]),
     (''my_host_id'', bt_uint),
     (''my_local_host_id'', bt_ull),
     (''debug_packet'', Function_Type bt_void [bt_void_ptr]),
     (''reuse_mtu_buffer'', bt_char_ptr),
     (''request_send_buffer'', Function_Type bt_char_ptr []),
     (''return_send_buffer'', Function_Type bt_void [bt_char_ptr]),
     (''net_state_obj'', bt_void_ptr),
     (''wildcard_host_identifier'', bt_uint),
     (''init_timers'', Function_Type bt_void []),
     (''alloc_timer'', Function_Type (Pointer_Type timer_t) []),
     (''return_timer'', Function_Type bt_void [Pointer_Type timer_t]),
     (''insert_timer'', Function_Type bt_void [Pointer_Type timer_t, bt_ull, bt_void_ptr, bt_void_ptr]),
     (''remove_timer'', Function_Type bt_void [Pointer_Type timer_t]),
     (''routing_lookup_from_global'', Function_Type bt_ull [bt_uint, Pointer_Type rte_t, bt_int]),
     (''do_ip_checksum'', Function_Type bt_ushort [Pointer_Type (Base_Type ''unsigned char''), Base_Type ''size_t'']),
     (''get_time_ms_now'', Function_Type bt_ull []),
     (''u_htons'', Function_Type bt_ushort [bt_ushort]),
     (''u_ntohs'', Function_Type bt_ushort [bt_ushort]),
     (''info_log'', Function_Type bt_void [])]"

text \<open>\<open>core/runtime.cpp\<close>: the same variables with the C names that \<open>as_global\<close> gives them.\<close>

definition runtime_globals :: "(string \<times> block_type \<times> string) list" where
  "runtime_globals =
    [(''nb_assert'', Function_Type bt_void [bt_int, bt_char_ptr], ''nb__assert''),
     (''malloc'', Function_Type bt_void_ptr [bt_int], ''malloc''),
     (''free'', Function_Type bt_void [bt_void_ptr], ''free''),
     (''to_void_ptr'', Function_Type bt_void_ptr [bt_void_ptr], ''(void*)''),
     (''to_ull'', Function_Type bt_ull [bt_void_ptr], ''(unsigned long long)''),
     (''memcpy'', Function_Type bt_void [bt_void_ptr, bt_void_ptr, bt_int], ''memcpy''),
     (''memcmp'', Function_Type bt_int [bt_void_ptr, bt_void_ptr, bt_int], ''memcmp''),
     (''sprintf'', Function_Type bt_void [], ''sprintf''),
     (''size_of'', Function_Type bt_int [], ''sizeof''),
     (''poll_packet'', Function_Type bt_char_ptr [Pointer_Type bt_int, bt_int], ''nb__poll_packet''),
     (''send_packet'', Function_Type bt_int [bt_char_ptr, bt_int], ''nb__send_packet''),
     (''new_data_queue'', Function_Type bt_void_ptr [], ''nb__new_data_queue''),
     (''free_data_queue'', Function_Type bt_void [bt_void_ptr], ''nb__free_data_queue''),
     (''insert_data_queue'', Function_Type bt_void [bt_void_ptr, bt_void_ptr, bt_int], ''nb__insert_data_queue''),
     (''my_host_id'', bt_uint, ''nb__my_host_id''),
     (''my_local_host_id'', bt_ull, ''nb__my_local_host_id''),
     (''wildcard_host_identifier'', bt_uint, ''nb__wildcard_host_identifier''),
     (''debug_packet'', Function_Type bt_void [bt_void_ptr], ''nb__debug_packet''),
     (''reuse_mtu_buffer'', bt_char_ptr, ''nb__reuse_mtu_buffer''),
     (''request_send_buffer'', Function_Type bt_char_ptr [], ''nb__request_send_buffer''),
     (''return_send_buffer'', Function_Type bt_void [bt_char_ptr], ''nb__return_send_buffer''),
     (''net_state_obj'', bt_void_ptr, ''nb__net_state''),
     (''new_accept_queue'', Function_Type bt_void_ptr [], ''nb__new_accept_queue''),
     (''free_accept_queue'', Function_Type bt_void [bt_void_ptr], ''nb__free_accept_queue''),
     (''insert_accept_queue'', Function_Type bt_void [bt_void_ptr, bt_void_ptr], ''nb__insert_accept_queue''),
     (''get_time_ms_now'', Function_Type bt_ull [], ''nb__get_time_ms_now''),
     (''init_timers'', Function_Type bt_void [], ''nb__init_timers''),
     (''alloc_timer'', Function_Type (Pointer_Type timer_t) [], ''nb__alloc_timer''),
     (''return_timer'', Function_Type bt_void [Pointer_Type timer_t], ''nb__return_timer''),
     (''insert_timer'', Function_Type bt_void [Pointer_Type timer_t, bt_ull, bt_void_ptr, bt_void_ptr], ''nb__insert_timer''),
     (''remove_timer'', Function_Type bt_void [Pointer_Type timer_t], ''nb__remove_timer''),
     (''routing_lookup_from_global'', Function_Type bt_ull [bt_uint, Pointer_Type rte_t, bt_int], ''nb__routing_table_lookup_from_global''),
     (''do_ip_checksum'', Function_Type bt_ushort [Pointer_Type (Base_Type ''unsigned char''), Base_Type ''size_t''], ''nb__do_ip_checksum''),
     (''u_htons'', Function_Type bt_ushort [bt_ushort], ''htons''),
     (''u_ntohs'', Function_Type bt_ushort [bt_ushort], ''ntohs''),
     (''info_log'', Function_Type bt_void [], ''nb__info_log'')]"

section \<open>The prototypes of the runtime\<close>

text \<open>
  \<open>nb_runtime.h\<close> and \<open>nb_timer.h\<close>, without qualifiers;
  \<open>nb__info_log\<close> is a macro and has no prototype. An array of unknown size has the size 0.
\<close>

definition timer_callback_type :: block_type where
  "timer_callback_type = Pointer_Type (Function_Type bt_void [Pointer_Type timer_t, bt_void_ptr, bt_ull])"

definition timer_prototypes :: "(string \<times> block_type) list" where
  "timer_prototypes =
    [(''nb__alloc_timer'', Function_Type (Pointer_Type timer_t) []),
     (''nb__return_timer'', Function_Type bt_void [Pointer_Type timer_t]),
     (''nb__insert_timer'', Function_Type bt_void [Pointer_Type timer_t, bt_ull, timer_callback_type, bt_void_ptr]),
     (''nb__remove_timer'', Function_Type bt_void [Pointer_Type timer_t]),
     (''nb__init_timers'', Function_Type bt_void [])]"

definition runtime_prototypes :: "(string \<times> block_type) list" where
  "runtime_prototypes =
    [(''nb__connection_t_size'', Function_Type bt_int []),
     (''nb__assert'', Function_Type bt_void [bt_int, bt_char_ptr]),
     (''nb__routing_table_lookup_from_global'', Function_Type bt_ull [bt_uint, Pointer_Type rte_t, bt_int]),
     (''nb__do_ip_checksum'', Function_Type bt_ushort [Pointer_Type (Base_Type ''unsigned char''), Base_Type ''size_t'']),
     (''nb__new_data_queue'', Function_Type (Pointer_Type (Named_Type ''struct data_queue_t'')) []),
     (''nb__free_data_queue'', Function_Type bt_void [Pointer_Type (Named_Type ''struct data_queue_t'')]),
     (''nb__insert_data_queue'', Function_Type bt_void [Pointer_Type (Named_Type ''struct data_queue_t''), bt_char_ptr, bt_int]),
     (''nb__new_accept_queue'', Function_Type (Pointer_Type accept_queue_type) []),
     (''nb__free_accept_queue'', Function_Type bt_void [Pointer_Type accept_queue_type]),
     (''nb__insert_accept_queue'', Function_Type bt_void [Pointer_Type accept_queue_type, bt_uint, bt_ull, bt_void_ptr]),
     (''nb__add_connection'', Function_Type bt_void [Pointer_Type connection_t, bt_uint]),
     (''nb__delete_connection'', Function_Type bt_void [bt_uint]),
     (''nb__retrieve_connection'', Function_Type (Pointer_Type connection_t) [bt_uint]),
     (''nb__debug_packet'', Function_Type bt_void [bt_char_ptr, Base_Type ''size_t'']),
     (''nb__poll_packet'', Function_Type bt_char_ptr [Pointer_Type bt_int, bt_int]),
     (''nb__send_packet'', Function_Type bt_int [bt_char_ptr, bt_int]),
     (''nb__transport_default_init'', Function_Type bt_void []),
     (''nb__transport_default_deinit'', Function_Type bt_void []),
     (''nb__request_send_buffer'', Function_Type bt_char_ptr []),
     (''nb__return_send_buffer'', Function_Type bt_void_ptr [bt_char_ptr]),
     (''nb__ipc_init'', Function_Type bt_void [bt_char_ptr, bt_int]),
     (''nb__ipc_deinit'', Function_Type bt_void []),
     (''nb__mlx5_init'', Function_Type bt_void [bt_char_ptr]),
     (''nb__run_ingress_step'', Function_Type bt_void [bt_void_ptr, bt_int]),
     (''nb__send'', Function_Type bt_int [Pointer_Type connection_t, bt_char_ptr, bt_int]),
     (''nb__destablish'', Function_Type bt_void [Pointer_Type connection_t]),
     (''nb__establish'', Function_Type (Pointer_Type connection_t) [bt_uint, bt_uint, bt_uint, Pointer_Type callback_t]),
     (''nb__net_init'', Function_Type bt_void []),
     (''nb__reliable_redelivery_timer_cb'', Function_Type bt_void [Pointer_Type timer_t, bt_void_ptr, bt_ull]),
     (''nb__read'', Function_Type bt_int [Pointer_Type connection_t, bt_char_ptr, bt_int]),
     (''nb__accept'', Function_Type (Pointer_Type connection_t) [Pointer_Type connection_t, Pointer_Type callback_t]),
     (''nb__main_loop_step'', Function_Type bt_void []),
     (''nb__set_user_data'', Function_Type bt_void [Pointer_Type connection_t, bt_void_ptr]),
     (''nb__get_user_data'', Function_Type bt_void_ptr [Pointer_Type connection_t]),
     (''nb__reuse_mtu_buffer'', Array_Type (Base_Type ''char'') 0),
     (''nb__my_host_id'', bt_uint),
     (''nb__my_local_host_id'', bt_ull),
     (''nb__net_state'', Pointer_Type (Named_Type ''nb__net_state_t'')),
     (''nb__wildcard_host_identifier'', bt_ull),
     (''nb__get_time_ms_now'', Function_Type bt_ull [])]"

section \<open>Agreement\<close>

text \<open>
  The type that the generator uses stands for the type of the runtime when it is the same, up to a
  pointer to \<open>void\<close> for any pointer and a pointer for an array.
\<close>

fun stands_for :: "block_type \<Rightarrow> block_type \<Rightarrow> bool" where
  "stands_for (Function_Type r args) t =
     (case t of Function_Type r' args' \<Rightarrow> stands_for r r' \<and> list_all2 stands_for args args' | _ \<Rightarrow> False)"
| "stands_for (Pointer_Type a) t =
     (case t of Pointer_Type b \<Rightarrow> a = Base_Type ''void'' \<or> a = b | Array_Type b n \<Rightarrow> a = b | _ \<Rightarrow> False)"
| "stands_for a t = (a = t)"

text \<open>
  The calls of runtime functions in the hooks and paths of \<open>src/modules\<close> and
  \<open>src/core/framework.cpp\<close> with their numbers of arguments (the debug messages, which
  \<open>debug_module_paths\<close> turns off, left out).
\<close>

definition runtime_calls :: "(string \<times> nat) list" where
  "runtime_calls =
    [(''init_timers'', 0), (''nb_assert'', 2), (''routing_lookup_from_global'', 3),
     (''new_data_queue'', 0), (''new_accept_queue'', 0), (''free_data_queue'', 1), (''free_accept_queue'', 1),
     (''request_send_buffer'', 0), (''get_time_ms_now'', 0), (''alloc_timer'', 0), (''insert_timer'', 4),
     (''remove_timer'', 1), (''return_timer'', 1), (''do_ip_checksum'', 2), (''send_packet'', 2),
     (''insert_data_queue'', 3), (''insert_accept_queue'', 4)]"

definition arity :: "block_type \<Rightarrow> nat option" where
  "arity t = (case t of Function_Type r args \<Rightarrow> Some (length args) | _ \<Rightarrow> None)"

definition prototype :: "string \<Rightarrow> block_type option" where
  "prototype i =
     (case map_of runtime_globals i of None \<Rightarrow> None
      | Some (T, c) \<Rightarrow> map_of (runtime_prototypes @ timer_prototypes) c)"

definition mismatches :: "string list" where
  "mismatches = map fst (filter (\<lambda>(i, T, c). case map_of (runtime_prototypes @ timer_prototypes) c of
       None \<Rightarrow> False | Some T' \<Rightarrow> \<not> stands_for T T') runtime_globals)"

text \<open>
  The definitions of the generator's runtime variables and their declarations agree, variable by
  variable. Against the prototypes of the runtime four of them are wrong: the width of the wildcard
  identifier, the parameters of \<open>debug_packet\<close> and \<open>insert_accept_queue\<close>, and
  the result of \<open>return_send_buffer\<close>. Yet every call in the hooks passes as many
  arguments as the prototype has, that of \<open>insert_accept_queue\<close> too.
\<close>

theorem runtime_interface:
  "set (map (\<lambda>(i, T, c). (i, T)) runtime_globals) = set runtime_externs \<and> distinct (map fst runtime_globals) \<and>
   mismatches = [''wildcard_host_identifier'', ''debug_packet'', ''return_send_buffer'', ''insert_accept_queue''] \<and>
   list_all (\<lambda>(i, n). Option.bind (prototype i) arity = Some n) runtime_calls \<and>
   map_option arity (map_of runtime_externs ''insert_accept_queue'') = Some (Some 2)"
proof (intro conjI)
  show "distinct (map fst runtime_globals)" by (simp add: runtime_globals_def)
  show "list_all (\<lambda>(i, n). Option.bind (prototype i) arity = Some n) runtime_calls"
    by code_simp
  show "mismatches = [''wildcard_host_identifier'', ''debug_packet'', ''return_send_buffer'', ''insert_accept_queue'']"
    by code_simp
  show "map_option arity (map_of runtime_externs ''insert_accept_queue'') = Some (Some 2)" by code_simp
  show "set (map (\<lambda>(i, T, c). (i, T)) runtime_globals) = set runtime_externs" by code_simp
qed

end
