(* ===== verification/Debug_Output.thy ===== *)
theory Debug_Output
  imports NB_Prelude
begin

text \<open>
  The dumps of a buffer for debugging: \<open>nb__debug_packet\<close> of
  \<open>runtime/nb_runtime.c\<close> and \<open>debug_buffer\<close> of
  \<open>runtime/mlx5_impl/utils.h\<close>. A dump is the text that \<open>printf\<close> writes; the
  lemmas show that every row has the same width and that the bytes can be read back from it.
\<close>

section \<open>Rows of 16 bytes\<close>

definition hex_digit :: "nat \<Rightarrow> char" where
  "hex_digit d = (if d < 10 then char_of (48 + d) else char_of (87 + d))"

text \<open>\<open>%02x\<close> of an \<open>unsigned char\<close>, and \<open>%c\<close>.\<close>

definition hex02 :: "u8 \<Rightarrow> string" where
  "hex02 b = [hex_digit (unat b div 16), hex_digit (unat b mod 16)]"

definition as_char :: "u8 \<Rightarrow> char" where
  "as_char b = char_of (unat b)"

text \<open>
  The number of rows. A length is below \<open>2 ^ 31 - 16\<close>, so that neither the sum nor the
  indices, which are \<open>int\<close>s, overflow.
\<close>

definition dump_rows :: "nat \<Rightarrow> nat" where
  "dump_rows len = (len + 15) div 16"

definition hex_column :: "u8 list \<Rightarrow> nat \<Rightarrow> nat \<Rightarrow> nat \<Rightarrow> string" where
  "hex_column p len r c = (if r * 16 + c < len then hex02 (p ! (r * 16 + c)) @ '' '' else ''   '')"

text \<open>
  \<open>isprint\<close> of the C library takes an \<open>int\<close>; the \<open>char\<close> is signed, so a
  byte of 128 or more is passed as a negative number.
\<close>

definition debug_packet_row :: "(int \<Rightarrow> bool) \<Rightarrow> u8 list \<Rightarrow> nat \<Rightarrow> nat \<Rightarrow> string" where
  "debug_packet_row isprint p len r =
     concat (map (hex_column p len r) [0..<16]) @ ''| '' @
     map (\<lambda>c. if r * 16 + c < len \<and> isprint (sint (p ! (r * 16 + c))) then as_char (p ! (r * 16 + c)) else CHR ''.'') [0..<16] @
     [CHR 0x0A]"

definition nb__debug_packet :: "(int \<Rightarrow> bool) \<Rightarrow> u8 list \<Rightarrow> nat \<Rightarrow> string res" where
  "nb__debug_packet isprint p len =
     bindE (guardE (len \<le> length p) Out_Of_Bounds) (\<lambda>_.
     Inr (concat (map (debug_packet_row isprint p len) [0..<dump_rows len])))"

definition is_printable :: "u8 \<Rightarrow> bool" where
  "is_printable x \<longleftrightarrow> as_char x \<noteq> CHR 0x0A \<and> as_char x \<noteq> CHR 0x0D"

definition debug_buffer_row :: "u8 list \<Rightarrow> nat \<Rightarrow> nat \<Rightarrow> string" where
  "debug_buffer_row buffer len row =
     concat (map (hex_column buffer len row) [0..<16]) @ '' '' @
     map (\<lambda>col. let p = row * 16 + col in
       if p < len then (if is_printable (buffer ! p) then as_char (buffer ! p) else CHR ''.'') else CHR '' '') [0..<16] @
     [CHR 0x0A]"

definition debug_buffer :: "u8 list \<Rightarrow> nat \<Rightarrow> string res" where
  "debug_buffer buffer len =
     bindE (guardE (len \<le> length buffer) Out_Of_Bounds) (\<lambda>_.
     Inr (concat (map (debug_buffer_row buffer len) [0..<dump_rows len])))"

section \<open>Reading a dump back\<close>

definition unhex :: "char \<Rightarrow> nat" where
  "unhex ch = (if of_char ch < (58::nat) then of_char ch - 48 else of_char ch - 87)"

text \<open>The bytes of a dump whose rows have the width \<open>w\<close>: two digits, or spaces after the last byte.\<close>

definition read_row :: "string \<Rightarrow> u8 list" where
  "read_row row = concat (map (\<lambda>c. if row ! (3 * c) = CHR '' '' then []
     else [of_nat (16 * unhex (row ! (3 * c)) + unhex (row ! (3 * c + 1)))]) [0..<16])"

definition read_dump :: "nat \<Rightarrow> string \<Rightarrow> u8 list" where
  "read_dump w txt = concat (map (\<lambda>r. read_row (take w (drop (w * r) txt))) [0..<length txt div w])"

lemma hex_digit_inv:
  assumes "d < 16"
  shows "unhex (hex_digit d) = d" "hex_digit d \<noteq> CHR '' ''"
proof -
  have *: "of_char (hex_digit d) = (if d < 10 then 48 + d else 87 + d)" using assms by (simp add: hex_digit_def)
  then show "unhex (hex_digit d) = d" using assms by (auto simp: unhex_def)
  have "of_char (CHR '' '') = (32::nat)" by simp
  with * show "hex_digit d \<noteq> CHR '' ''" using assms by (auto split: if_splits)
qed

lemma length_rows: "(\<And>r. length (f r) = w) \<Longrightarrow> length (concat (map f [0..<n])) = w * n"
  by (induction n) auto

lemma drop_rows:
  assumes "\<And>r. length (f r) = w" "r < n"
  shows "take w (drop (w * r) (concat (map f [0..<n]))) = f r"
proof -
  have "[0..<n] = [0..<r] @ r # [Suc r..<n]" 
    using assms(2) upt_add_eq_append [of 0 r "n - r"] by (simp add: upt_conv_Cons)
  then have "concat (map f [0..<n]) = concat (map f [0..<r]) @ f r @ concat (map f [Suc r..<n])" by simp
  then show ?thesis using length_rows [of f w r] assms(1) by simp
qed

lemma byte_digits: "of_nat (16 * (unat b div 16) + unat b mod 16) = (b :: u8)"
  by simp

lemma digit_bounds: "unat (b :: u8) div 16 < 16" "unat b mod 16 < 16"
proof -
  have "unat b < 256" using unsigned_less [of b] by simp
  then show "unat b div 16 < 16" "unat b mod 16 < 16" by simp_all
qed

lemma hex_column_length [simp]: "length (hex_column p len r c) = 3"
  by (simp add: hex_column_def hex02_def)

text \<open>A row that begins with the hexadecimal columns gives back its bytes.\<close>

lemma read_row:
  assumes "row = concat (map (hex_column p len r) [0..<16]) @ rest"
  shows "read_row row = concat (map (\<lambda>c. if r * 16 + c < len then [p ! (r * 16 + c)] else []) [0..<16])"
proof -
  have "(if row ! (3 * c) = CHR '' '' then [] else [of_nat (16 * unhex (row ! (3 * c)) + unhex (row ! (3 * c + 1)))]) =
      (if r * 16 + c < len then [p ! (r * 16 + c)] else [])" if c: "c < 16" for c
  proof -
    let ?t = "concat (map (hex_column p len r) [0..<16])"
    have col: "take 3 (drop (3 * c) ?t) = hex_column p len r c" by (rule drop_rows) (simp_all add: c)
    have len: "length ?t = 48" using length_rows [of "hex_column p len r" 3 16] by simp
    have "row ! (3 * c + k) = hex_column p len r c ! k" if "k < 3" for k
    proof -
      have "row ! (3 * c + k) = ?t ! (3 * c + k)" using that c len by (simp add: assms nth_append)
      also have "\<dots> = take 3 (drop (3 * c) ?t) ! k" using that c len by simp
      finally show ?thesis by (simp only: col)
    qed
    from this [of 0] this [of 1] have "row ! (3 * c) = hex_column p len r c ! 0" "row ! (3 * c + 1) = hex_column p len r c ! 1" by simp_all
    then show ?thesis
      using hex_digit_inv [OF digit_bounds(1)] hex_digit_inv [OF digit_bounds(2)] byte_digits
      by (simp add: hex_column_def hex02_def del: of_nat_add of_nat_mult)
  qed
  then show ?thesis unfolding read_row_def by (intro arg_cong [of _ _ concat] map_cong) auto
qed

lemma concat_rows: "concat (map (\<lambda>r. map (\<lambda>c. r * 16 + c) [0..<16]) [0..<n]) = [0..<n * 16]"
proof (induction n)
  case (Suc n)
  have "map (\<lambda>c. n * 16 + c) [0..<16] = [n * 16..<n * 16 + 16]" by (simp add: map_add_upt add.commute [of "n * 16"] cong: map_cong)
  then show ?case using Suc upt_add_eq_append [of 0 "n * 16" 16] by (simp add: add.commute)
qed simp

lemma concat_filter: "concat (map (\<lambda>x. if P x then [f x] else []) xs) = map f (filter P xs)"
  by (induction xs) auto

lemma bytes_of_rows:
  assumes "len \<le> length p"
  shows "concat (map (\<lambda>r. concat (map (\<lambda>c. if r * 16 + c < len then [p ! (r * 16 + c)] else []) [0..<16])) [0..<dump_rows len]) = take len p"
proof -
  have "concat (map (\<lambda>r. concat (map (\<lambda>c. if r * 16 + c < len then [p ! (r * 16 + c)] else []) [0..<16])) [0..<n]) =
      map (\<lambda>i. p ! i) (filter (\<lambda>i. i < len) [0..<n * 16])" for n
  proof -
    have "concat (map (\<lambda>r. concat (map (\<lambda>c. if r * 16 + c < len then [p ! (r * 16 + c)] else []) [0..<16])) [0..<n]) =
        concat (map (\<lambda>i. if i < len then [p ! i] else []) (concat (map (\<lambda>r. map (\<lambda>c. r * 16 + c) [0..<16]) [0..<n])))"
      by (induction n) (simp_all add: comp_def)
    then show ?thesis by (simp only: concat_rows concat_filter)
  qed
  moreover have "filter (\<lambda>i. i < len) [0..<dump_rows len * 16] = [0..<len]"
  proof -
    have "len \<le> dump_rows len * 16" by (simp add: dump_rows_def)
    then have "[0..<dump_rows len * 16] = [0..<len] @ [len..<dump_rows len * 16]"
      using upt_add_eq_append [of 0 len "dump_rows len * 16 - len"] by simp
    then show ?thesis by simp
  qed
  moreover have "map (\<lambda>i. p ! i) [0..<len] = take len p" using assms by (intro nth_equalityI) simp_all
  ultimately show ?thesis by simp
qed

lemma read_dump_rows:
  assumes "len \<le> length p" "0 < w"
    and row: "\<And>r. row r = concat (map (hex_column p len r) [0..<16]) @ rest r" "\<And>r. length (row r) = w"
  shows "read_dump w (concat (map row [0..<dump_rows len])) = take len p"
proof -
  have "length (concat (map row [0..<dump_rows len])) = w * dump_rows len" using row(2) by (rule length_rows)
  then have "read_dump w (concat (map row [0..<dump_rows len])) = concat (map (\<lambda>r. read_row (row r)) [0..<dump_rows len])"
    unfolding read_dump_def using assms(2) drop_rows [of row w] row(2)
    by (intro arg_cong [of _ _ concat] map_cong) auto
  also have "\<dots> = take len p" unfolding read_row [OF row(1)] using assms(1) by (rule bytes_of_rows)
  finally show ?thesis .
qed

text \<open>
  C32. Both dumps lose nothing: for a buffer that holds the bytes, the rows of \<open>nb__debug_packet\<close>
  have 67 characters and those of \<open>debug_buffer\<close> 66, and reading the hexadecimal columns of
  the rows gives back exactly the bytes that were printed, whatever \<open>isprint\<close> answers.
\<close>

theorem dumps_read_back:
  assumes "len \<le> length p"
  shows "\<exists>t1 t2. nb__debug_packet isprint p len = Inr t1 \<and> length t1 = 67 * dump_rows len \<and> read_dump 67 t1 = take len p \<and>
    debug_buffer p len = Inr t2 \<and> length t2 = 66 * dump_rows len \<and> read_dump 66 t2 = take len p"
proof -
  have cols: "length (concat (map (hex_column p len r) [0..<16])) = 48" for r
    using length_rows [of "hex_column p len r" 3 16] by simp
  have w: "length (debug_packet_row isprint p len r) = 67" "length (debug_buffer_row p len r) = 66" for r
    by (simp_all add: debug_packet_row_def debug_buffer_row_def cols)
  then have "read_dump 67 (concat (map (debug_packet_row isprint p len) [0..<dump_rows len])) = take len p"
    "read_dump 66 (concat (map (debug_buffer_row p len) [0..<dump_rows len])) = take len p"
    using assms by (auto intro!: read_dump_rows [OF assms] simp: debug_packet_row_def debug_buffer_row_def)
  then show ?thesis
    using assms length_rows [of "debug_packet_row isprint p len" 67] length_rows [of "debug_buffer_row p len" 66] w
    by (simp add: nb__debug_packet_def debug_buffer_def)
qed

theorem dumps_read_back_example:
  "\<exists>t. nb__debug_packet (\<lambda>c. 32 \<le> c \<and> c < 127) [0x68, 0x69, 0xff] 3 = Inr t \<and> length t = 67 \<and> read_dump 67 t = [0x68, 0x69, 0xff]"
  using dumps_read_back [of 3 "[0x68, 0x69, 0xff]" "\<lambda>c. 32 \<le> c \<and> c < 127"] by (auto simp: dump_rows_def)

end
