(* ===== verification/Spec2Isabelle.thy ===== *)
theory Spec2Isabelle
  imports Node_Scenarios Device_Scenarios Stack_Scenarios Runtime_Interface Debug_Output
begin

text \<open>
  A verification of Net-Blocks, a toolkit of protocol modules. A program such as
  \<open>src/impls/simple.cpp\<close> configures modules, lets them lay out a packet, and prints C code
  in which the hooks of the modules are run one after the other; the C code is linked with a runtime
  (queues, timers, main loop), a transport, and an application. The C++ sources are staged with the
  BuildIt library: ordinary C++ values are fixed when the code is printed, \<open>dyn_var\<close> values
  exist when the printed code runs. The theories model the program that results, with the fixed
  values in an environment (\<open>nb_env\<close>: configuration, layout, registered modules) and the
  others in the state of a node (\<open>nb_state\<close>).

  \<^bold>\<open>How the sources are read.\<close> An operation is a function from a state to
  \<open>'a res\<close>, the sum of an error and a result. The errors name what C leaves undefined (null
  and dangling pointers, accesses outside a buffer or an array, too wide shifts, signed overflow),
  failed assertions, and loops that do not end; a theorem that concludes \<open>= Inr \<dots>\<close>
  excludes all of them. Machine integers are words of their width. Buffers and connections are
  reached through addresses, 0 being the null pointer. Loops are structural recursions, functions
  with a measure, or, where they may not end (\<open>inorder_drain\<close>, \<open>timers_loop\<close>,
  \<open>insert_walk\<close>, \<open>find_port\<close>, \<open>shm_search\<close>, the loops of the socket
  calls), partial functions whose value \<open>None\<close> means that the loop does not end; nothing is
  modelled with fuel.

  \<^bold>\<open>Prelude.\<close> \<open>NB_Prelude\<close>: errors, binding, loops that may fail, the rules of
  partial correctness \<open>okE\<close> with their collection, arrays, little-endian reads and writes of
  bytes.

  \<^bold>\<open>Packets\<close> (\<open>include/core/packet.h\<close>, \<open>src/core/packet.cpp\<close>).
  \<open>Packet_Layout\<close> has members, groups and offsets: the members of a fixed layout are
  disjoint, and a custom range gets enough bits. \<open>Packet_Codec\<close> reads and writes integer
  members bit by bit: values written to members that start on a byte are read back, and what goes
  wrong with other members is stated as well. The locale \<open>field_store\<close> is what modules rely
  on; every layout of byte-aligned members provides it (\<open>byte_layout\<close>), the layout of the
  simple stack in particular. \<open>Packet_Fields\<close> gives the members as bytes.
  \<open>Wireshark_Plugin\<close> (\<open>src/core/genplugin.cpp\<close>, \<open>serialize_for_debug\<close>):
  what the generated plugin shows of a packet is what \<open>get_integer\<close> reads.

  \<^bold>\<open>Framework and modules.\<close> \<open>Framework\<close> (\<open>src/core/framework.cpp\<close>,
  \<open>src/core/module.cpp\<close>): paths of hooks run until a module drops; \<open>hook_contract\<close>
  lifts what each hook keeps to whole paths. One theory per module of \<open>src/modules\<close>:
  \<open>Conn_Table\<close> and \<open>Identifier_Module\<close>, \<open>Inorder_Module\<close>,
  \<open>Reliable_Module\<close>, \<open>Checksum_Module\<close>, \<open>Routing_Module\<close>,
  \<open>Basic_Modules\<close> (payload, network, signaling). They show that the table of connections
  is a map from identifiers to connections, that held packets are delivered in order and once, that
  the checksum detects a changed word; \<open>Ip_Checksum\<close> shows that the checksum of the IP
  header is the complement of the ones' complement sum. \<open>Stack\<close> composes the modules into
  \<open>nb__establish\<close>, \<open>nb__send\<close>, \<open>nb__run_ingress_step\<close>;
  \<open>Simple_Stack\<close> is the stack of \<open>src/impls/simple.cpp\<close>.

  \<^bold>\<open>The generator.\<close> \<open>Pipeline\<close> (\<open>src/core/impl.cpp\<close>,
  \<open>src/core/connection.cpp\<close>, the \<open>init_module\<close> functions, \<open>main\<close> of
  \<open>src/impls/simple.cpp\<close>): the members that the modules register in the structs of a connection
  and of the network state, the texts that are written, and the members that the hooks look up while
  they are extracted; for every configuration, that the layout is well-formed, that the structs have
  the members that are used, and whether the generation succeeds. BuildIt is a record of functions
  (\<open>buildit\<close>) that the definitions take as an argument. \<open>Runtime_Interface\<close>
  compares \<open>src/core/runtime.cpp\<close> and \<open>include/core/runtime.h\<close> with the
  prototypes of the runtime.

  \<^bold>\<open>Runtime\<close> (\<open>runtime/nb_runtime.c\<close>, \<open>runtime/nb_timer.c\<close>).
  \<open>Data_Queue\<close>: the queues of a connection are bounded queues (locale
  \<open>bounded_fifo\<close>). \<open>Timer\<close>: a pool of 1024 timers, a doubly linked list that is
  kept sorted. \<open>Runtime\<close>: reading, accepting, the step of the main loop;
  \<open>Timer_Loop\<close>: the loop over due timers ends although its callback arms timers again.
  \<open>Debug_Output\<close>: the dumps of a buffer for debugging can be read back.

  \<^bold>\<open>Transports.\<close> \<open>Ipc_Transport\<close> and \<open>Linux_Transport\<close> have the
  socket transports, \<open>Socket_Setup\<close> the opening of their sockets, with the kernel as a
  function of the calls made before, \<open>Hub\<close> the process that connects nodes over Unix sockets
  (\<open>utils/hub/ipc_hub.c\<close>): each message reaches every other node once.
  \<open>Mlx5_Transport\<close> and \<open>Mlx5_Setup\<close> have the transport over network cards
  (\<open>runtime/mlx5_impl\<close>): for all interleavings with a card that is at most eight completions
  ahead, which is the size of the ring, packets are handed out in order and each once. The card is
  modelled by the completions it writes, the verbs library by the results of its calls.

  \<^bold>\<open>Contracts between the parts.\<close> \<open>Node_Contract\<close>: what a transport may change
  (locale \<open>transport\<close>, interpreted for the two socket transports) and what a callback of the
  application may change (locale \<open>node\<close>), and that all operations of a node keep its
  invariant. \<open>Posix_Sockets\<close> and \<open>Posix_Proofs\<close>
  (\<open>runtime/posix/src/network.c\<close>) interpret \<open>node\<close> with the socket layer as the
  application: its tables stay well formed under every sequence of calls.

  \<^bold>\<open>From one node to another.\<close> \<open>Simple_Packets\<close> describes a packet of the simple
  stack by the values of its members and its payload, \<open>Simple_Paths\<close> the hooks of the send
  and ingress paths on such packets, \<open>Simple_Delivery\<close> a whole pass through the ingress path
  and the transfer over a socket without simulated losses. \<open>End_To_End\<close> puts two nodes
  together: the payload of up to 961 bytes (a buffer of the transport has 1024, of which 62 are
  headroom and header, and one more byte may be summed) given to \<open>nb__send\<close> at one node is
  what \<open>nb__read\<close> returns at the other, and the acknowledgement ends the redelivery.
  \<open>Handshake\<close> (\<open>nb__establish\<close>, \<open>nb__accept\<close>, the listener, the signaling
  packets): opening a connection to a node that listens leaves both ends ready to send and receive.
  \<open>Redelivery\<close>: a lost packet is sent again at every check of the timers until it is
  acknowledged, and whichever copy arrives is delivered.

  \<^bold>\<open>Scenarios.\<close> \<open>Scenarios\<close>, \<open>Node_Scenarios\<close>,
  \<open>Device_Scenarios\<close> and \<open>Stack_Scenarios\<close> apply the properties to concrete states.

  \<^bold>\<open>Not modelled.\<close> BuildIt, a library that is not part of the sources: how it
  extracts a function from the staged code and prints it (the theories model what the extracted
  functions do). The messages of the hooks about dropped packets, which are switched off by
  \<open>debug_module_paths\<close>, and those of the socket layer, switched off by
  \<open>NBP_DEBUG\<close>. The example programs under \<open>test\<close>.
  \<open>runtime/mlx5_impl/mlx5.h\<close> repeats declarations of a driver.
\<close>

end
